(* ===== verification/Prelude.thy ===== *)
theory Prelude
  imports Main "HOL-Library.Word"
begin

text \<open>
  Vocabulary shared by every component of the easytun development: the Go integer and
  byte types at their widths, the error values of \<^verbatim>\<open>internal/errorcode\<close>, the
  big-endian readers and writers of \<^verbatim>\<open>encoding/binary\<close>, the fixed arrays
  \<^verbatim>\<open>[4]byte\<close> used as map keys with the order of \<^verbatim>\<open>bytes.Compare\<close>, and
  the parts of \<^verbatim>\<open>net.IP\<close> and \<^verbatim>\<open>netip.AddrPort\<close> the program uses.
\<close>

unbundle bit_operations_syntax

section \<open>Go integers and bytes\<close>

type_synonym byte = "8 word"
type_synonym u16 = "16 word"
type_synonym u32 = "32 word"
type_synonym u64 = "64 word"
type_synonym bytes = "byte list"

named_theorems wire_simps \<open>unfolding of the wire-format definitions\<close>
named_theorems slice_simps \<open>take and drop over concatenated fixed-width fields\<close>
named_theorems state_simps \<open>unfolding of state-passing operations\<close>

text \<open>
  The slice expressions \<^verbatim>\<open>xs[i:j]\<close> and \<^verbatim>\<open>xs[i:]\<close>. Outside the slice they are a panic,
  also where the capacity behind a shorter slice would admit them.
\<close>

definition slice_range :: "nat \<Rightarrow> nat \<Rightarrow> 'a list \<Rightarrow> 'a list option" where
  "slice_range i j xs = (if i \<le> j \<and> j \<le> length xs then Some (take (j - i) (drop i xs)) else None)"

abbreviation slice_from :: "nat \<Rightarrow> 'a list \<Rightarrow> 'a list option" where
  "slice_from i xs \<equiv> slice_range i (length xs) xs"

lemma slice_range_Some [simp]: "i \<le> j \<Longrightarrow> j \<le> length xs \<Longrightarrow> slice_range i j xs = Some (take (j - i) (drop i xs))"
  by (simp add: slice_range_def)

lemma slice_range_None [simp]: "length xs < j \<Longrightarrow> slice_range i j xs = None"
  by (simp add: slice_range_def)

lemma uint_of_int_u16: "0 \<le> m \<Longrightarrow> m < 65536 \<Longrightarrow> uint (word_of_int m :: u16) = m"
  by (simp only: uint_word_of_int) simp

section \<open>Errors (internal/errorcode/errorcode.go)\<close>

datatype errorcode = InvalidMagic | PayloadMismatch | PacketTooShort | MissingPublicKey | ParseDNSError

text \<open>
  An error value: one of the sentinel codes, a code wrapped with a message
  (\<^verbatim>\<open>fmt.Errorf("%w: ...")\<close>), an error created on the spot by
  \<^verbatim>\<open>errors.New\<close>, or one returned by a library.
\<close>

datatype error = Code errorcode | Wrapped errorcode string | New string | External string

type_synonym 'a result = "error + 'a"

fun errors_Is :: "error \<Rightarrow> errorcode \<Rightarrow> bool" where
  "errors_Is (Code c) d = (c = d)"
| "errors_Is (Wrapped c _) d = (c = d)"
| "errors_Is (New _) d = False"
| "errors_Is (External _) d = False"

section \<open>Big-endian fields (encoding/binary)\<close>

definition be16 :: "u16 \<Rightarrow> bytes" where
  "be16 x = [ucast (drop_bit 8 x), ucast x]"

definition get_be16 :: "byte \<Rightarrow> byte \<Rightarrow> u16" where
  "get_be16 hi lo = push_bit 8 (ucast hi) OR ucast lo"

definition be64 :: "u64 \<Rightarrow> bytes" where
  "be64 x = [ucast (drop_bit 56 x), ucast (drop_bit 48 x), ucast (drop_bit 40 x),
             ucast (drop_bit 32 x), ucast (drop_bit 24 x), ucast (drop_bit 16 x),
             ucast (drop_bit 8 x), ucast x]"

lemma length_be16 [simp]: "length (be16 x) = 2"
  by (simp add: be16_def)

lemma length_be64 [simp]: "length (be64 x) = 8"
  by (simp add: be64_def)

lemma get_be16_be16 [simp]: "get_be16 (be16 x ! 0) (be16 x ! Suc 0) = x"
  unfolding get_be16_def be16_def
  by (rule bit_word_eqI) (auto simp: bit_simps)

lemma get_be16_split: "get_be16 (ucast (drop_bit 8 x)) (ucast x) = x"
  using get_be16_be16 [of x] by (simp add: be16_def)

lemma be16_get_be16 [simp]: "be16 (get_be16 hi lo) = [hi, lo]"
proof -
  have "ucast (drop_bit 8 (get_be16 hi lo)) = hi"
    unfolding get_be16_def by (rule bit_word_eqI) (auto simp: bit_simps dest: bit_imp_le_length)
  moreover have "ucast (get_be16 hi lo) = lo"
    unfolding get_be16_def by (rule bit_word_eqI) (auto simp: bit_simps)
  ultimately show ?thesis by (simp add: be16_def)
qed

lemma be16_inj: "be16 x = be16 y \<longleftrightarrow> x = y"
  by (metis get_be16_be16)

lemma be64_inj: "be64 x = be64 y \<longleftrightarrow> x = y"
proof
  assume eq: "be64 x = be64 y"
  have b: "bit (ucast (drop_bit k x) :: byte) m = bit (ucast (drop_bit k y) :: byte) m"
    if "k \<in> {0, 8, 16, 24, 32, 40, 48, 56}" for k m
    using eq that by (auto simp: be64_def)
  show "x = y"
  proof (rule bit_word_eqI)
    fix n assume n: "n < LENGTH(64)"
    define k where "k = 8 * (n div 8)"
    have "k \<in> {0, 8, 16, 24, 32, 40, 48, 56}"
    proof -
      from n have "n div 8 < 8" by simp
      then have "n div 8 \<in> {0, 1, 2, 3, 4, 5, 6, 7}" by auto
      then show ?thesis unfolding k_def by auto
    qed
    then have "bit (ucast (drop_bit k x) :: byte) (n mod 8) = bit (ucast (drop_bit k y) :: byte) (n mod 8)"
      by (rule b)
    moreover have "k + n mod 8 = n" by (simp add: k_def)
    ultimately show "bit x n = bit y n" by (simp add: bit_simps)
  qed
qed simp

section \<open>Slices of fixed-width fields\<close>

lemma take_drop_append_mid: "length xs = i \<Longrightarrow> length ys = n \<Longrightarrow> take n (drop i (xs @ ys @ zs)) = ys"
  by simp

lemma drop_append_exact [slice_simps]: "length xs = n \<Longrightarrow> drop n (xs @ ys) = ys"
  by simp

lemma take_append_exact [slice_simps]: "length xs = n \<Longrightarrow> take n (xs @ ys) = xs"
  by simp

lemma split_at: "n \<le> length xs \<Longrightarrow> \<exists>ys zs. xs = ys @ zs \<and> length ys = n"
  by (rule exI [of _ "take n xs"], rule exI [of _ "drop n xs"]) simp

section \<open>Fixed arrays of four bytes and bytes.Compare\<close>

datatype ip4 = IP4 byte byte byte byte

fun ip4_bytes :: "ip4 \<Rightarrow> bytes" where
  "ip4_bytes (IP4 a b c d) = [a, b, c, d]"

text \<open>The conversion \<^verbatim>\<open>[4]byte(s)\<close> of a slice of at least four bytes keeps the first four.\<close>

definition to_ip4 :: "bytes \<Rightarrow> ip4" where
  "to_ip4 s = IP4 (s ! 0) (s ! 1) (s ! 2) (s ! 3)"

abbreviation ip4_zero :: ip4 where
  "ip4_zero \<equiv> IP4 0 0 0 0"

lemma length_ip4_bytes [simp]: "length (ip4_bytes a) = 4"
  by (cases a) simp

lemma to_ip4_take [simp]: "to_ip4 (take 4 s) = to_ip4 s"
  by (simp add: to_ip4_def)

lemma to_ip4_ip4_bytes [simp]: "to_ip4 (ip4_bytes a) = a"
  by (cases a) (simp add: to_ip4_def)

lemma to_ip4_append [simp]: "to_ip4 (ip4_bytes a @ xs) = a"
  by (cases a) (simp add: to_ip4_def)

lemma ip4_bytes_inj [simp]: "ip4_bytes a = ip4_bytes b \<longleftrightarrow> a = b"
  by (cases a; cases b) simp

lemma ip4_bytes_to_ip4: "length s = 4 \<Longrightarrow> ip4_bytes (to_ip4 s) = s"
  by (auto simp: to_ip4_def length_Suc_conv eval_nat_numeral)

text \<open>\<^verbatim>\<open>bytes.Compare\<close>: lexicographic, a proper prefix is smaller.\<close>

fun bytes_Compare :: "bytes \<Rightarrow> bytes \<Rightarrow> int" where
  "bytes_Compare [] [] = 0"
| "bytes_Compare [] (_ # _) = -1"
| "bytes_Compare (_ # _) [] = 1"
| "bytes_Compare (x # xs) (y # ys) =
     (if x < y then -1 else if y < x then 1 else bytes_Compare xs ys)"

lemma bytes_Compare_refl [simp]: "bytes_Compare xs xs = 0"
  by (induction xs) auto

lemma bytes_Compare_eq_0: "bytes_Compare xs ys = 0 \<longleftrightarrow> xs = ys"
  by (induction xs ys rule: bytes_Compare.induct) auto

lemma bytes_Compare_swap: "bytes_Compare ys xs = - bytes_Compare xs ys"
  by (induction xs ys rule: bytes_Compare.induct) auto

lemma bytes_Compare_trans:
  "bytes_Compare xs ys \<le> 0 \<Longrightarrow> bytes_Compare ys zs \<le> 0 \<Longrightarrow> bytes_Compare xs zs \<le> 0"
proof (induction xs ys arbitrary: zs rule: bytes_Compare.induct)
  case (4 x xs y ys)
  then show ?case
    by (cases zs) (auto split: if_splits)
next
  case (2 y ys)
  then show ?case by (cases zs) auto
qed auto

text \<open>The order of \<^verbatim>\<open>bytes.Compare\<close> makes the addresses a linear order.\<close>

instantiation ip4 :: linorder
begin

definition less_eq_ip4 :: "ip4 \<Rightarrow> ip4 \<Rightarrow> bool" where
  "less_eq_ip4 a b \<longleftrightarrow> bytes_Compare (ip4_bytes a) (ip4_bytes b) \<le> 0"

definition less_ip4 :: "ip4 \<Rightarrow> ip4 \<Rightarrow> bool" where
  "less_ip4 a b \<longleftrightarrow> bytes_Compare (ip4_bytes a) (ip4_bytes b) < 0"

instance
proof
  fix a b c :: ip4
  show "a < b \<longleftrightarrow> a \<le> b \<and> \<not> b \<le> a"
    unfolding less_eq_ip4_def less_ip4_def
    using bytes_Compare_swap [of "ip4_bytes a" "ip4_bytes b"] by auto
  show "a \<le> a"
    by (simp add: less_eq_ip4_def)
  show "a \<le> b \<Longrightarrow> b \<le> c \<Longrightarrow> a \<le> c"
    unfolding less_eq_ip4_def by (rule bytes_Compare_trans)
  show "a \<le> b \<Longrightarrow> b \<le> a \<Longrightarrow> a = b"
    unfolding less_eq_ip4_def
    using bytes_Compare_swap [of "ip4_bytes a" "ip4_bytes b"]
      bytes_Compare_eq_0 [of "ip4_bytes a" "ip4_bytes b"] by simp
  show "a \<le> b \<or> b \<le> a"
    unfolding less_eq_ip4_def
    using bytes_Compare_swap [of "ip4_bytes a" "ip4_bytes b"] by linarith
qed

end

lemma bytes_Compare_less_iff: "bytes_Compare (ip4_bytes a) (ip4_bytes b) < 0 \<longleftrightarrow> a < b"
  by (simp add: less_ip4_def)

lemma bytes_Compare_greater_iff: "bytes_Compare (ip4_bytes a) (ip4_bytes b) > 0 \<longleftrightarrow> b < a"
  using bytes_Compare_swap [of "ip4_bytes b" "ip4_bytes a"] by (simp add: less_ip4_def)

section \<open>net.IP and netip.AddrPort\<close>

text \<open>
  A \<^verbatim>\<open>net.IP\<close> is a byte slice: nil (here the empty list), four bytes, or sixteen
  bytes. \<^verbatim>\<open>To4\<close> recovers the four-byte form of a four-byte or IPv4-mapped address.
\<close>

type_synonym netip = bytes

definition v4InV6Prefix :: bytes where
  "v4InV6Prefix = replicate 10 0 @ [255, 255]"

definition net_IPv4 :: "byte \<Rightarrow> byte \<Rightarrow> byte \<Rightarrow> byte \<Rightarrow> netip" where
  "net_IPv4 a b c d = v4InV6Prefix @ [a, b, c, d]"

definition To4 :: "netip \<Rightarrow> netip option" where
  "To4 ip = (if length ip = 4 then Some ip
             else if length ip = 16 \<and> take 12 ip = v4InV6Prefix then Some (drop 12 ip)
             else None)"

lemma length_v4InV6Prefix [simp]: "length v4InV6Prefix = 12"
  by (simp add: v4InV6Prefix_def)

lemma To4_net_IPv4 [simp]: "To4 (net_IPv4 a b c d) = Some [a, b, c, d]"
  by (simp add: To4_def net_IPv4_def)

lemma To4_length: "To4 ip = Some s \<Longrightarrow> length s = 4"
  by (auto simp: To4_def split: if_splits)

lemma To4_four [simp]: "length ip = 4 \<Longrightarrow> To4 ip = Some ip"
  by (simp add: To4_def)

lemma To4_Nil [simp]: "To4 [] = None"
  by (simp add: To4_def)

text \<open>
  \<^verbatim>\<open>netip.Addr\<close>: the zero value, an IPv4 address, or the sixteen bytes of an IPv6
  one. \<^verbatim>\<open>As4\<close> panics (\<open>None\<close>) on the zero value and on a proper IPv6 address.
\<close>

datatype netaddr = AddrZero | Addr4 ip4 | Addr6 bytes

record addrport =
  ap_addr :: netaddr
  ap_port :: u16

definition addrport_zero :: addrport where
  "addrport_zero = \<lparr>ap_addr = AddrZero, ap_port = 0\<rparr>"

definition IsValid :: "addrport \<Rightarrow> bool" where
  "IsValid a \<longleftrightarrow> ap_addr a \<noteq> AddrZero"

fun As4 :: "netaddr \<Rightarrow> ip4 option" where
  "As4 AddrZero = None"
| "As4 (Addr4 a) = Some a"
| "As4 (Addr6 s) = (if length s = 16 \<and> take 12 s = v4InV6Prefix then Some (to_ip4 (drop 12 s)) else None)"

section \<open>Invariants of step relations\<close>

text \<open>
  The contract behind every reachability property: a predicate that each step keeps holds in
  every state reached from a state that satisfies it.
\<close>

locale preserved =
  fixes step :: "'s \<Rightarrow> 's \<Rightarrow> bool"
    and inv :: "'s \<Rightarrow> bool"
  assumes step_inv: "inv s \<Longrightarrow> step s t \<Longrightarrow> inv t"
begin

lemma reach_inv: "step\<^sup>*\<^sup>* s t \<Longrightarrow> inv s \<Longrightarrow> inv t"
  by (induction rule: rtranclp_induct) (auto intro: step_inv)

lemma reach_step_inv: "step\<^sup>*\<^sup>* s t \<Longrightarrow> inv s \<Longrightarrow> step t u \<Longrightarrow> inv u"
  using reach_inv step_inv by blast

end

end
