(* ===== verification/Cipher.thy ===== *)
theory Cipher
  imports Prelude
begin

text \<open>
  \<^verbatim>\<open>internal/protocol/cipher.go\<close>: the pair of AEAD states of a session and the
  nonce counter. ChaCha20-Poly1305 itself is a library: an \<open>aead\<close> record is a parameter of
  the model and \<open>aead_ok\<close> names what its documentation promises.
\<close>

section \<open>The AEAD parameter\<close>

text \<open>
  The three functions take the nonce, the text and the associated data. \<open>aead_open\<close>
  authenticates and decrypts. \<open>aead_storage\<close> is what the ciphertext's storage holds after
  an opening in place (\<^verbatim>\<open>Open(ciphertext[:0], ...)\<close>, the only way the program calls
  it): on success it begins with the plaintext, the rest of it is not specified.
\<close>

record aead =
  aead_seal :: "bytes \<Rightarrow> bytes \<Rightarrow> bytes \<Rightarrow> bytes"
  aead_open :: "bytes \<Rightarrow> bytes \<Rightarrow> bytes \<Rightarrow> bytes result"
  aead_storage :: "bytes \<Rightarrow> bytes \<Rightarrow> bytes \<Rightarrow> bytes"

definition aead_ok :: "aead \<Rightarrow> bool" where
  "aead_ok A \<longleftrightarrow>
     (\<forall>n p a. length n = 12 \<longrightarrow> length (aead_seal A n p a) = length p + 16) \<and>
     (\<forall>n p a. length n = 12 \<longrightarrow> aead_open A n (aead_seal A n p a) a = Inr p) \<and>
     (\<forall>n c a p. aead_open A n c a = Inr p \<longrightarrow> length c = length p + 16) \<and>
     (\<forall>n c a. length (aead_storage A n c a) = length c) \<and>
     (\<forall>n c a p. aead_open A n c a = Inr p \<longrightarrow> take (length p) (aead_storage A n c a) = p)"

lemma aead_ok_seal_length: "aead_ok A \<Longrightarrow> length n = 12 \<Longrightarrow> length (aead_seal A n p a) = length p + 16"
  by (simp add: aead_ok_def)

lemma aead_ok_open_seal: "aead_ok A \<Longrightarrow> length n = 12 \<Longrightarrow> aead_open A n (aead_seal A n p a) a = Inr p"
  by (simp add: aead_ok_def)

lemma aead_ok_storage_length: "aead_ok A \<Longrightarrow> length (aead_storage A n c a) = length c"
  by (simp add: aead_ok_def)

lemma aead_ok_storage_take:
  "aead_ok A \<Longrightarrow> aead_open A n c a = Inr p \<Longrightarrow> take (length p) (aead_storage A n c a) = p"
  by (simp add: aead_ok_def)

lemma aead_ok_open_length: "aead_ok A \<Longrightarrow> aead_open A n c a = Inr p \<Longrightarrow> length c = length p + 16"
  by (simp add: aead_ok_def)

section \<open>Cipher states\<close>

record CipherState =
  cs_aead :: aead
  cs_nonce :: u64

definition CipherInit :: u32 where "CipherInit = 1"
definition CipherReady :: u32 where "CipherReady = 2"

record Cipher =
  Recver :: "CipherState option"
  Sender :: "CipherState option"
  c_status :: u32

definition NewChaCha :: Cipher where
  "NewChaCha = \<lparr>Recver = None, Sender = None, c_status = CipherInit\<rparr>"

definition cipher_ready :: "Cipher \<Rightarrow> Cipher" where
  "cipher_ready c = c\<lparr>c_status := CipherReady\<rparr>"

definition IsReady :: "Cipher \<Rightarrow> bool" where
  "IsReady c \<longleftrightarrow> c_status c = CipherReady"

text \<open>
  \<^verbatim>\<open>chacha20poly1305.New\<close> is the parameter \<open>new_aead\<close>; a failure of it ends the
  process (\<^verbatim>\<open>log.Fatal\<close>), which is \<open>None\<close> here.
\<close>

definition Init :: "(bytes \<Rightarrow> aead result) \<Rightarrow> bytes \<Rightarrow> bytes \<Rightarrow> Cipher \<Rightarrow> Cipher option" where
  "Init new_aead recvKey sendKey c =
     (case new_aead recvKey of
        Inl _ \<Rightarrow> None
      | Inr aeadRecv \<Rightarrow>
          (case new_aead sendKey of
             Inl _ \<Rightarrow> None
           | Inr aeadSend \<Rightarrow>
               Some (cipher_ready (c\<lparr>Recver := Some \<lparr>cs_aead = aeadRecv, cs_nonce = 0\<rparr>,
                                     Sender := Some \<lparr>cs_aead = aeadSend, cs_nonce = 0\<rparr>\<rparr>))))"

text \<open>\<^verbatim>\<open>atomic.AddUint64(&cs.nonce, 1) - 1\<close>: the counter wraps at 64 bits.\<close>

definition GetNonce :: "CipherState \<Rightarrow> u64 \<times> CipherState" where
  "GetNonce cs = (let v = cs_nonce cs + 1 in (v - 1, cs\<lparr>cs_nonce := v\<rparr>))"

definition Encrypt :: "CipherState \<Rightarrow> bytes \<Rightarrow> bytes \<Rightarrow> bytes \<Rightarrow> bytes \<Rightarrow> bytes" where
  "Encrypt cs dst nonce payload header = dst @ aead_seal (cs_aead cs) nonce payload header"

definition Decrypt :: "CipherState \<Rightarrow> bytes \<Rightarrow> bytes \<Rightarrow> bytes \<Rightarrow> bytes result" where
  "Decrypt cs nonce payload header = aead_open (cs_aead cs) nonce payload header"

lemma IsReady_NewChaCha [simp]: "\<not> IsReady NewChaCha"
  by (simp add: IsReady_def NewChaCha_def CipherInit_def CipherReady_def)

lemma Init_ready:
  assumes "Init new_aead rk sk c = Some c'"
  shows "IsReady c'"
    and "\<exists>a. new_aead rk = Inr a \<and> Recver c' = Some \<lparr>cs_aead = a, cs_nonce = 0\<rparr>"
    and "\<exists>a. new_aead sk = Inr a \<and> Sender c' = Some \<lparr>cs_aead = a, cs_nonce = 0\<rparr>"
  using assms
  by (auto simp: Init_def cipher_ready_def IsReady_def split: sum.splits)

section \<open>The nonce sequence\<close>

text \<open>
  Every sender of a session calls \<open>GetNonce\<close> once per packet; the call is atomic, so the
  calls of all workers form one sequence.
\<close>

fun take_nonces :: "nat \<Rightarrow> CipherState \<Rightarrow> u64 list \<times> CipherState" where
  "take_nonces 0 cs = ([], cs)"
| "take_nonces (Suc k) cs =
     (let (v, cs') = GetNonce cs in apfst ((#) v) (take_nonces k cs'))"

lemma GetNonce_sel [simp]:
  "fst (GetNonce cs) = cs_nonce cs" "cs_nonce (snd (GetNonce cs)) = cs_nonce cs + 1"
  "cs_aead (snd (GetNonce cs)) = cs_aead cs"
  by (simp_all add: GetNonce_def Let_def)

lemma take_nonces_eq:
  "fst (take_nonces k cs) = map (\<lambda>i. cs_nonce cs + of_nat i) [0..<k]"
proof (induction k arbitrary: cs)
  case (Suc k)
  have "[0..<Suc k] = 0 # map Suc [0..<k]"
    by (simp add: map_Suc_upt upt_conv_Cons del: upt_Suc)
  with Suc show ?case
    by (simp add: GetNonce_def Let_def ac_simps del: upt_Suc)
qed simp

text \<open>
  Nonces of one session key: the counter values handed out by any number of
  \<open>GetNonce\<close> calls are pairwise distinct exactly as long as there are at most
  \<open>2^64\<close> calls.
\<close>

lemma nonce_sequence_distinct:
  "distinct (fst (take_nonces k cs)) \<longleftrightarrow> k \<le> 2 ^ 64"
proof
  assume k: "k \<le> 2 ^ 64"
  have "inj_on (\<lambda>i. cs_nonce cs + of_nat i) {0..<k}"
  proof (rule inj_onI)
    fix i j assume "i \<in> {0..<k}" "j \<in> {0..<k}" "cs_nonce cs + of_nat i = cs_nonce cs + of_nat j"
    with k have "(of_nat i :: u64) = of_nat j" "i < 2 ^ LENGTH(64)" "j < 2 ^ LENGTH(64)" by auto
    then have "unat (of_nat i :: u64) = unat (of_nat j :: u64)" by simp
    with \<open>i < 2 ^ LENGTH(64)\<close> \<open>j < 2 ^ LENGTH(64)\<close> show "i = j"
      by (simp add: unat_of_nat)
  qed
  then show "distinct (fst (take_nonces k cs))"
    by (simp add: take_nonces_eq distinct_map)
next
  assume d: "distinct (fst (take_nonces k cs))"
  have "k = card (set (fst (take_nonces k cs)))"
    using distinct_card [OF d] by (simp add: take_nonces_eq)
  also have "\<dots> \<le> card (UNIV :: u64 set)"
    by (rule card_mono) auto
  also have "\<dots> = 2 ^ 64"
    by (simp add: card_word)
  finally show "k \<le> 2 ^ 64" .
qed

end
