(* ===== verification/Wire.thy ===== *)
theory Wire
  imports Cipher
begin

text \<open>
  The frame format of \<^verbatim>\<open>internal/protocol/packet.go\<close>: the constants, the
  \<^verbatim>\<open>GamePacket\<close> structure, the length field and its three readings, the header
  parser, \<open>encode\<close>, \<open>parse\<close> and \<open>ParseControl\<close>. The lemmas say which byte strings the
  header parser accepts and that frames survive the trip over the wire in both directions.
\<close>

section \<open>Constants and the packet structure\<close>

definition TypeHandshake :: byte where "TypeHandshake = 1"
definition TypeNoiseHandshake :: byte where "TypeNoiseHandshake = 2"
definition TypeNoiseResponse :: byte where "TypeNoiseResponse = 3"
definition TypeDnsRequest :: byte where "TypeDnsRequest = 4"
definition TypeDnsResponse :: byte where "TypeDnsResponse = 5"
definition TypePing :: byte where "TypePing = 6"
definition TypePong :: byte where "TypePong = 7"
definition TypeData :: byte where "TypeData = 8"
definition TypeP2PCheck :: byte where "TypeP2PCheck = 9"
definition TypeP2PCommand :: byte where "TypeP2PCommand = 10"
definition TypeP2PEstablished :: byte where "TypeP2PEstablished = 11"
definition TypeP2PClosed :: byte where "TypeP2PClosed = 12"

lemmas type_defs = TypeHandshake_def TypeNoiseHandshake_def TypeNoiseResponse_def
  TypeDnsRequest_def TypeDnsResponse_def TypePing_def TypePong_def TypeData_def
  TypeP2PCheck_def TypeP2PCommand_def TypeP2PEstablished_def TypeP2PClosed_def

definition FlagCompress :: byte where "FlagCompress = 0x80"
definition MagicNumber :: u16 where "MagicNumber = 0xDAAA"

definition NonceLength :: nat where "NonceLength = 12"
definition HeaderLength :: nat where "HeaderLength = 9 + NonceLength"
definition AuthenticationTagLength :: int where "AuthenticationTagLength = 16"
definition MaxLengthField :: int where "MaxLengthField = 2 ^ 16 - 1"
definition MaxPacketSize :: int where "MaxPacketSize = int HeaderLength + MaxLengthField"
definition MaxPayloadSize :: int where "MaxPayloadSize = MaxLengthField - AuthenticationTagLength"

lemmas size_defs = NonceLength_def HeaderLength_def AuthenticationTagLength_def
  MaxLengthField_def MaxPacketSize_def MaxPayloadSize_def

lemma HeaderLength_eq: "HeaderLength = 21"
  by (simp add: size_defs)

lemma MaxPayloadSize_eq: "MaxPayloadSize = 65519"
  by (simp add: size_defs)

lemma MaxPacketSize_eq: "MaxPacketSize = 65556"
  by (simp add: size_defs)

datatype payloadLengthMode = payloadLengthPlaintext | payloadLengthCiphertext | payloadLengthDataCompat

text \<open>A byte slice that owns storage: the bytes in view and the capacity behind them.\<close>

record slice =
  sl_data :: bytes
  sl_cap :: nat

record GamePacket =
  gp_src :: ip4
  gp_dst :: ip4
  PType :: byte
  Payload :: bytes
  RawData :: "slice option"
  Length :: u16

definition gp_empty :: GamePacket where
  "gp_empty = \<lparr>gp_src = ip4_zero, gp_dst = ip4_zero, PType = 0, Payload = [], RawData = None, Length = 0\<rparr>"

abbreviation clear_flag :: "byte \<Rightarrow> byte" where
  "clear_flag t \<equiv> t AND NOT FlagCompress"

section \<open>The length field\<close>

definition payloadLengthField :: "int \<Rightarrow> u16 \<times> bool" where
  "payloadLengthField payloadLen =
     (if payloadLen < 0 \<or> payloadLen > MaxPayloadSize then (0, False)
      else if payloadLen = 0 then (0, True)
      else (word_of_int (payloadLen + AuthenticationTagLength), True))"

fun validPayloadLength :: "int \<Rightarrow> u16 \<Rightarrow> payloadLengthMode \<Rightarrow> bool" where
  "validPayloadLength actual len mode =
     (if len = 0 then actual = 0
      else case mode of
        payloadLengthPlaintext \<Rightarrow>
          (if uint len \<le> AuthenticationTagLength then False
           else actual = uint len - AuthenticationTagLength)
      | payloadLengthCiphertext \<Rightarrow> actual = uint len
      | payloadLengthDataCompat \<Rightarrow>
          actual = uint len \<or>
          (uint len > AuthenticationTagLength \<and> actual = uint len - AuthenticationTagLength))"

declare validPayloadLength.simps [simp del]

section \<open>Construction, encoding and parsing\<close>

definition Reset :: "ip4 \<Rightarrow> ip4 \<Rightarrow> byte \<Rightarrow> bytes \<Rightarrow> GamePacket \<Rightarrow> GamePacket" where
  "Reset src dst pType payload g =
     g\<lparr>gp_src := src, gp_dst := dst, PType := clear_flag pType, Payload := payload,
       Length := fst (payloadLengthField (int (length payload)))\<rparr>"

definition NewGamePacket :: "ip4 \<Rightarrow> ip4 \<Rightarrow> byte \<Rightarrow> bytes \<Rightarrow> GamePacket" where
  "NewGamePacket src dst pType payload = Reset src dst pType payload gp_empty"

text \<open>
  \<open>encode\<close> appends the frame to \<open>b\<close>; \<open>None\<close> is the nil slice of an oversized payload.
  It records the length in the packet and takes one nonce from the cipher.
\<close>

definition encode :: "GamePacket \<Rightarrow> bytes \<Rightarrow> bool \<Rightarrow> CipherState option \<Rightarrow>
    bytes option \<times> GamePacket \<times> CipherState option" where
  "encode g b control cipher =
     (case payloadLengthField (int (length (Payload g))) of (len, ok) \<Rightarrow>
      if \<not> ok then (None, g, cipher)
      else
        let g = g\<lparr>Length := len\<rparr>;
            (nonceVal, cipher) = (case cipher of Some cs \<Rightarrow> apsnd Some (GetNonce cs) | None \<Rightarrow> (0, None));
            b = b @ be16 MagicNumber;
            b = b @ [PType g];
            b = b @ ip4_bytes (gp_dst g);
            b = b @ be16 (Length g);
            b = b @ ip4_bytes (gp_src g);
            b = b @ be64 nonceVal;
            nonceBuf = take NonceLength (drop (HeaderLength - NonceLength) b);
            header = take (HeaderLength - NonceLength) b
        in (Some (if Payload g \<noteq> [] then
                    (case cipher of
                       Some cs \<Rightarrow> if \<not> control then Encrypt cs b nonceBuf (Payload g) header
                                  else b @ Payload g
                     | None \<Rightarrow> b @ Payload g)
                  else b), g, cipher))"

definition parseHeader :: "bytes \<Rightarrow> payloadLengthMode \<Rightarrow> (byte \<times> ip4 \<times> ip4 \<times> u16) result" where
  "parseHeader data mode =
     (if length data < HeaderLength then Inl (Code PacketTooShort)
      else if int (length data) > MaxPacketSize then
        Inl (Wrapped PayloadMismatch ''packet exceeds maximum size'')
      else if get_be16 (data ! 0) (data ! 1) \<noteq> MagicNumber then Inl (Code InvalidMagic)
      else
        let pType = data ! 2 in
        if pType AND FlagCompress \<noteq> 0 \<and> clear_flag pType \<noteq> TypeData then Inl (Code PayloadMismatch)
        else
          let len = get_be16 (data ! 7) (data ! 8);
              actualPayloadLen = int (length data) - int HeaderLength
          in if \<not> validPayloadLength actualPayloadLen len mode then Inl (Code PayloadMismatch)
             else Inr (pType, to_ip4 (drop 3 data), to_ip4 (drop 9 data), len))"

text \<open>
  \<open>parse\<close> returns the packet as it leaves it and the error, if any. Opening in place
  overwrites the storage behind \<open>data\<close>, which is the packet's \<open>RawData\<close>.
\<close>

definition parse_mode :: "bytes \<Rightarrow> CipherState option \<Rightarrow> payloadLengthMode" where
  "parse_mode data cipher =
     (if cipher \<noteq> None then payloadLengthCiphertext
      else if length data > 2 \<and> clear_flag (data ! 2) = TypeData then payloadLengthDataCompat
      else payloadLengthPlaintext)"

definition store_raw :: "bytes \<Rightarrow> GamePacket \<Rightarrow> GamePacket" where
  "store_raw tail g = g\<lparr>RawData := map_option (\<lambda>s. s\<lparr>sl_data := take HeaderLength (sl_data s) @ tail\<rparr>) (RawData g)\<rparr>"

definition parse :: "GamePacket \<Rightarrow> bytes \<Rightarrow> bool \<Rightarrow> CipherState option \<Rightarrow> GamePacket \<times> error option" where
  "parse g data parsePayload cipher =
     (case parseHeader data (parse_mode data cipher) of
        Inl err \<Rightarrow> (g, Some err)
      | Inr (pType, dst, src, len) \<Rightarrow>
          let g = g\<lparr>PType := pType, gp_dst := dst, gp_src := src, Length := len\<rparr>;
              nonceBuf = take NonceLength (drop 9 data)
          in case cipher of
               Some cs \<Rightarrow>
                 if parsePayload \<and> Length g > 0 then
                   let header = take (HeaderLength - NonceLength) data;
                       ciphertext = drop HeaderLength data;
                       g = store_raw (aead_storage (cs_aead cs) nonceBuf ciphertext header) g
                   in case Decrypt cs nonceBuf ciphertext header of
                        Inl err \<Rightarrow> (g, Some err)
                      | Inr decrypted \<Rightarrow> (g\<lparr>Payload := decrypted\<rparr>, None)
                 else (g, None)
             | None \<Rightarrow> (g\<lparr>Payload := drop HeaderLength data\<rparr>, None))"

definition ParseControl :: "GamePacket \<Rightarrow> bytes \<Rightarrow> GamePacket \<times> error option" where
  "ParseControl g data =
     (case parseHeader data payloadLengthPlaintext of
        Inl err \<Rightarrow> (g\<lparr>Payload := []\<rparr>, Some err)
      | Inr (pType, dst, src, len) \<Rightarrow>
          (g\<lparr>PType := pType, gp_dst := dst, gp_src := src, Length := len,
             Payload := drop (9 + NonceLength) data\<rparr>, None))"

definition Destination :: "GamePacket \<Rightarrow> netip" where
  "Destination g = (case gp_dst g of IP4 a b c d \<Rightarrow> net_IPv4 a b c d)"

definition SourceVirtualIp :: "GamePacket \<Rightarrow> netip" where
  "SourceVirtualIp g = (case gp_src g of IP4 a b c d \<Rightarrow> net_IPv4 a b c d)"

definition EncodePacketWithBuffer :: "GamePacket \<Rightarrow> bytes \<Rightarrow> bool \<Rightarrow> CipherState option \<Rightarrow>
    bytes option \<times> GamePacket \<times> CipherState option" where
  "EncodePacketWithBuffer g data control cipher = encode g data control cipher"

section \<open>The frame layout\<close>

text \<open>
  The layout documented in the source:
  \<^verbatim>\<open>[magic 2][pType 1][dst 4][length 2][nonce 12(src 4 + label 8)][payload]\<close>.
\<close>

definition frame :: "byte \<Rightarrow> ip4 \<Rightarrow> u16 \<Rightarrow> ip4 \<Rightarrow> bytes \<Rightarrow> bytes \<Rightarrow> bytes" where
  "frame t dst len src label body =
     be16 MagicNumber @ t # ip4_bytes dst @ be16 len @ ip4_bytes src @ label @ body"

lemma length_frame [simp]: "length (frame t dst len src label body) = 13 + length label + length body"
  by (simp add: frame_def)

lemma frame_fields [simp]:
  "frame t dst len src label body ! 0 = be16 MagicNumber ! 0"
  "frame t dst len src label body ! Suc 0 = be16 MagicNumber ! 1"
  "frame t dst len src label body ! 2 = t"
  "frame t dst len src label body ! 7 = be16 len ! 0"
  "frame t dst len src label body ! 8 = be16 len ! 1"
  by (cases dst; simp add: frame_def be16_def eval_nat_numeral)+

lemma frame_drops [simp]:
  "drop 3 (frame t dst len src label body) = ip4_bytes dst @ be16 len @ ip4_bytes src @ label @ body"
  "drop 9 (frame t dst len src label body) = ip4_bytes src @ label @ body"
  "take 9 (frame t dst len src label body) = be16 MagicNumber @ t # ip4_bytes dst @ be16 len"
  by (cases dst; simp add: frame_def be16_def eval_nat_numeral)+

lemma frame_drop_header [simp]:
  "length label = 8 \<Longrightarrow> drop 21 (frame t dst len src label body) = body"
  "length label = 8 \<Longrightarrow> take 21 (frame t dst len src label body) = frame t dst len src label []"
  by (simp_all add: frame_def)

lemma frame_Nil_append [simp]: "frame t dst len src label [] @ x = frame t dst len src label x"
  by (simp add: frame_def)

lemma frame_inj:
  "length l = length l' \<Longrightarrow> frame t d n s l b = frame t' d' n' s' l' b' \<longleftrightarrow>
     t = t' \<and> d = d' \<and> n = n' \<and> s = s' \<and> l = l' \<and> b = b'"
  by (auto simp: frame_def be16_inj)

text \<open>Every byte string with the magic number and a full header is a frame.\<close>

lemma frame_decompose:
  assumes "length data \<ge> 21" and "get_be16 (data ! 0) (data ! 1) = MagicNumber"
  shows "data = frame (data ! 2) (to_ip4 (drop 3 data)) (get_be16 (data ! 7) (data ! 8))
                  (to_ip4 (drop 9 data)) (take 8 (drop 13 data)) (drop 21 data)"
proof -
  obtain a0 a1 a2 a3 a4 a5 a6 a7 a8 a9 a10 a11 a12 rest where
    d: "data = a0 # a1 # a2 # a3 # a4 # a5 # a6 # a7 # a8 # a9 # a10 # a11 # a12 # rest"
    using assms(1) by (auto simp: eval_nat_numeral Suc_le_length_iff)
  then have "be16 MagicNumber = [a0, a1]"
    using assms(2) by (metis One_nat_def be16_get_be16 nth_Cons_0 nth_Cons_Suc)
  moreover have "rest = take 8 rest @ drop 8 rest" by simp
  ultimately show ?thesis
    using d by (simp add: frame_def to_ip4_def eval_nat_numeral)
qed

section \<open>The length field read back\<close>

lemma payloadLengthField_ok: "snd (payloadLengthField n) \<longleftrightarrow> 0 \<le> n \<and> n \<le> MaxPayloadSize"
  by (auto simp: payloadLengthField_def)

lemma payloadLengthField_uint:
  "0 < n \<Longrightarrow> n \<le> MaxPayloadSize \<Longrightarrow> uint (fst (payloadLengthField n)) = n + 16"
  using uint_of_int_u16 [of "n + 16"]
  by (auto simp: payloadLengthField_def size_defs)

lemma payloadLengthField_eq_iff:
  "0 \<le> n \<Longrightarrow> payloadLengthField n = (len, True) \<longleftrightarrow>
     (n = 0 \<and> len = 0 \<or> 0 < n \<and> uint len = n + 16)"
proof -
  assume n: "0 \<le> n"
  consider "n = 0" | "0 < n" "n \<le> MaxPayloadSize" | "n > MaxPayloadSize" using n by linarith
  then show ?thesis
  proof cases
    case 1
    then show ?thesis by (auto simp: payloadLengthField_def size_defs)
  next
    case 2
    then have "snd (payloadLengthField n)" by (simp add: payloadLengthField_ok)
    with 2 show ?thesis
      using payloadLengthField_uint [OF 2]
      by (cases "payloadLengthField n") (auto simp: word_uint_eq_iff)
  next
    case 3
    have "uint len < 65536" using uint_bounded [of len] by simp
    with 3 show ?thesis by (auto simp: payloadLengthField_def size_defs)
  qed
qed

text \<open>
  The plaintext reading of the length field accepts exactly the value the encoder writes
  for a payload of that length: the decoder's check and \<open>payloadLengthField\<close> describe the
  same relation between payload length and length field, oversized payloads included.
\<close>

lemma validPayloadLength_plaintext_iff:
  "validPayloadLength (int n) len payloadLengthPlaintext \<longleftrightarrow> payloadLengthField (int n) = (len, True)"
proof -
  have "uint len \<ge> 0" by simp
  then have "len = 0 \<longleftrightarrow> uint len = 0" by (simp add: uint_0_iff)
  then show ?thesis
    by (auto simp: payloadLengthField_eq_iff validPayloadLength.simps size_defs)
qed

lemma validPayloadLength_compat_iff:
  "validPayloadLength (int n) len payloadLengthDataCompat \<longleftrightarrow>
     validPayloadLength (int n) len payloadLengthPlaintext \<or>
     validPayloadLength (int n) len payloadLengthCiphertext"
  by (auto simp: validPayloadLength.simps)

lemma validPayloadLength_cipher_iff:
  "validPayloadLength (int n) len payloadLengthCiphertext \<longleftrightarrow> uint len = int n"
  by (auto simp: validPayloadLength.simps uint_0_iff)

section \<open>What the header parser accepts\<close>

lemma parseHeader_frame:
  assumes "length label = 8" and "length body \<le> 65535"
  shows "parseHeader (frame t dst len src label body) mode =
    (if t AND FlagCompress \<noteq> 0 \<and> clear_flag t \<noteq> TypeData then Inl (Code PayloadMismatch)
     else if \<not> validPayloadLength (int (length body)) len mode then Inl (Code PayloadMismatch)
     else Inr (t, dst, src, len))"
  using assms by (simp add: parseHeader_def Let_def HeaderLength_eq MaxPacketSize_eq)

text \<open>
  \<open>parseHeader\<close> accepts a byte string exactly when it is a frame: magic number,
  type, destination, length field, source, eight label bytes and a payload of at most
  65535 bytes, in that order, where the compression flag appears on data packets only and
  the length field is valid for the payload in the chosen reading; the fields returned are
  those of the frame. Everything else is rejected.
\<close>

lemma parseHeader_iff:
  "parseHeader data mode = Inr (t, dst, src, len) \<longleftrightarrow>
     (\<exists>label body. data = frame t dst len src label body \<and> length label = 8 \<and> length body \<le> 65535 \<and>
        (t AND FlagCompress = 0 \<or> clear_flag t = TypeData) \<and>
        validPayloadLength (int (length body)) len mode)" (is "?L \<longleftrightarrow> ?R")
proof
  assume L: ?L
  then have len: "21 \<le> length data" "length data \<le> 65556"
    and mg: "get_be16 (data ! 0) (data ! 1) = MagicNumber"
    by (auto simp: parseHeader_def Let_def HeaderLength_eq MaxPacketSize_eq split: if_splits)
  define fr where "fr = frame (data ! 2) (to_ip4 (drop 3 data)) (get_be16 (data ! 7) (data ! 8))
      (to_ip4 (drop 9 data)) (take 8 (drop 13 data)) (drop 21 data)"
  have d: "data = fr" unfolding fr_def by (rule frame_decompose [OF len(1) mg])
  have "parseHeader fr mode = Inr (t, dst, src, len)" using L d by simp
  then have "data ! 2 = t" "to_ip4 (drop 3 data) = dst" "get_be16 (data ! 7) (data ! 8) = len"
    "to_ip4 (drop 9 data) = src" "t AND FlagCompress = 0 \<or> clear_flag t = TypeData"
    "validPayloadLength (int (length (drop 21 data))) len mode"
    using len unfolding fr_def by (auto simp: parseHeader_frame split: if_splits)
  with d len show ?R
    unfolding fr_def by (intro exI [of _ "take 8 (drop 13 data)"] exI [of _ "drop 21 data"]) auto
next
  assume ?R
  then show ?L by (auto simp: parseHeader_frame)
qed

text \<open>
  The error the header parser reports is determined by the first check that fails: a
  buffer shorter than the header is \<open>PacketTooShort\<close>, an oversized one wraps
  \<open>PayloadMismatch\<close>, a wrong magic number is \<open>InvalidMagic\<close>, and every later
  failure is \<open>PayloadMismatch\<close>.
\<close>

lemma parseHeader_errors:
  "parseHeader data mode = Inl err \<Longrightarrow>
     (if length data < 21 then err = Code PacketTooShort
      else if length data > 65556 then errors_Is err PayloadMismatch
      else if take 2 data \<noteq> be16 MagicNumber then err = Code InvalidMagic
      else err = Code PayloadMismatch)"
proof -
  assume e: "parseHeader data mode = Inl err"
  have "take 2 data = be16 MagicNumber \<longleftrightarrow> get_be16 (data ! 0) (data ! Suc 0) = MagicNumber"
    if full: "21 \<le> length data"
  proof -
    obtain a b r where d: "data = a # b # r"
      using full by (auto simp: eval_nat_numeral Suc_le_length_iff)
    have "be16 (get_be16 a b) = [a, b]" by simp
    then show ?thesis using d be16_inj [of "get_be16 a b" MagicNumber] by (auto simp: eval_nat_numeral)
  qed
  with e show ?thesis
    by (auto simp: parseHeader_def Let_def HeaderLength_eq MaxPacketSize_eq split: if_splits)
qed

section \<open>Encoding is framing\<close>

lemma encode_none:
  "int (length (Payload g)) > MaxPayloadSize \<Longrightarrow> encode g b control cipher = (None, g, cipher)"
  by (simp add: encode_def payloadLengthField_def)

text \<open>The frame of a packet that is sent in the clear.\<close>

definition plain_frame :: "GamePacket \<Rightarrow> u64 \<Rightarrow> bytes" where
  "plain_frame g nonce = frame (PType g) (gp_dst g) (fst (payloadLengthField (int (length (Payload g)))))
     (gp_src g) (be64 nonce) (Payload g)"

lemma encode_plain:
  assumes "int (length (Payload g)) \<le> MaxPayloadSize"
  shows "encode g [] control None =
    (Some (plain_frame g 0), g\<lparr>Length := fst (payloadLengthField (int (length (Payload g))))\<rparr>, None)"
proof -
  have "snd (payloadLengthField (int (length (Payload g))))"
    using assms by (simp add: payloadLengthField_ok)
  then show ?thesis
    by (cases "payloadLengthField (int (length (Payload g)))")
      (simp add: encode_def plain_frame_def frame_def Let_def)
qed

lemma encode_control:
  assumes "int (length (Payload g)) \<le> MaxPayloadSize"
  shows "encode g [] True (Some cs) =
    (Some (plain_frame g (cs_nonce cs)), g\<lparr>Length := fst (payloadLengthField (int (length (Payload g))))\<rparr>,
     Some (snd (GetNonce cs)))"
proof -
  have "snd (payloadLengthField (int (length (Payload g))))"
    using assms by (simp add: payloadLengthField_ok)
  then show ?thesis
    by (cases "payloadLengthField (int (length (Payload g)))"; cases "GetNonce cs")
      (use GetNonce_sel [of cs] in \<open>auto simp: encode_def plain_frame_def frame_def Let_def\<close>)
qed

text \<open>
  The associated data of a sealed packet is its header without the nonce; the nonce is the
  source address followed by the counter.
\<close>

definition sealed_body :: "GamePacket \<Rightarrow> CipherState \<Rightarrow> bytes" where
  "sealed_body g cs =
     (if Payload g = [] then []
      else aead_seal (cs_aead cs) (ip4_bytes (gp_src g) @ be64 (cs_nonce cs)) (Payload g)
        (be16 MagicNumber @ PType g # ip4_bytes (gp_dst g) @
         be16 (fst (payloadLengthField (int (length (Payload g)))))))"

lemma encode_sealed:
  assumes "int (length (Payload g)) \<le> MaxPayloadSize"
  shows "encode g [] False (Some cs) =
    (Some (frame (PType g) (gp_dst g) (fst (payloadLengthField (int (length (Payload g)))))
             (gp_src g) (be64 (cs_nonce cs)) (sealed_body g cs)),
     g\<lparr>Length := fst (payloadLengthField (int (length (Payload g))))\<rparr>, Some (snd (GetNonce cs)))"
proof -
  have "snd (payloadLengthField (int (length (Payload g))))"
    using assms by (simp add: payloadLengthField_ok)
  then show ?thesis
    by (cases "payloadLengthField (int (length (Payload g)))"; cases "GetNonce cs")
      (use GetNonce_sel [of cs] in
        \<open>auto simp: encode_def sealed_body_def frame_def Let_def Encrypt_def NonceLength_def HeaderLength_def\<close>)
qed

section \<open>Control frames on the wire and back\<close>

lemma clear_flag_clear [simp]: "clear_flag t AND FlagCompress = 0"
  by (simp add: FlagCompress_def bit_eq_iff bit_simps)

lemma NewGamePacket_sel [simp]:
  "PType (NewGamePacket src dst t pl) = clear_flag t" "Payload (NewGamePacket src dst t pl) = pl"
  "gp_src (NewGamePacket src dst t pl) = src" "gp_dst (NewGamePacket src dst t pl) = dst"
  "RawData (NewGamePacket src dst t pl) = None"
  "Length (NewGamePacket src dst t pl) = fst (payloadLengthField (int (length pl)))"
  by (simp_all add: NewGamePacket_def Reset_def gp_empty_def)

lemma ParseControl_plain_frame:
  assumes "int (length (Payload p)) \<le> MaxPayloadSize"
    and "PType p AND FlagCompress = 0 \<or> clear_flag (PType p) = TypeData"
  shows "ParseControl g (plain_frame p nonce) =
    (g\<lparr>PType := PType p, gp_dst := gp_dst p, gp_src := gp_src p,
       Length := fst (payloadLengthField (int (length (Payload p)))), Payload := Payload p\<rparr>, None)"
proof -
  have "validPayloadLength (int (length (Payload p)))
      (fst (payloadLengthField (int (length (Payload p))))) payloadLengthPlaintext"
    unfolding validPayloadLength_plaintext_iff
    using assms(1) by (auto simp: payloadLengthField_ok prod_eq_iff)
  then show ?thesis
    using assms by (auto simp: ParseControl_def plain_frame_def parseHeader_frame NonceLength_def MaxPayloadSize_eq)
qed

text \<open>
  Round trip of control packets: every packet built by \<open>NewGamePacket\<close> whose payload
  fits is encoded, and \<open>ParseControl\<close> recovers source, destination, type (without the
  compression flag), payload and length field from the bytes, whatever packet structure
  it parses into.
\<close>

lemma control_roundtrip:
  assumes "int (length payload) \<le> MaxPayloadSize"
  shows "\<exists>w. fst (EncodePacketWithBuffer (NewGamePacket src dst t payload) [] control None) = Some w \<and>
    ParseControl g w =
      (g\<lparr>PType := clear_flag t, gp_dst := dst, gp_src := src,
         Length := fst (payloadLengthField (int (length payload))), Payload := payload\<rparr>, None)"
  using assms
  by (auto simp: EncodePacketWithBuffer_def encode_plain ParseControl_plain_frame)

text \<open>
  C24. \<open>ParseControl\<close> accepts a byte string exactly when it is a frame in the documented
  layout: magic number, type, destination, length field, source, eight label bytes and
  payload in that order, nothing missing and nothing trailing, where the length field is the
  one \<open>payloadLengthField\<close> gives for the payload and the compression flag appears on data
  packets only.
\<close>

theorem ParseControl_accepts_iff:
  "snd (ParseControl g data) = None \<longleftrightarrow>
     (\<exists>t dst src label body.
        data = frame t dst (fst (payloadLengthField (int (length body)))) src label body \<and>
        length label = 8 \<and> int (length body) \<le> MaxPayloadSize \<and>
        (t AND FlagCompress = 0 \<or> clear_flag t = TypeData))" (is "?L \<longleftrightarrow> ?R")
proof
  assume ?L
  then obtain t dst src len where "parseHeader data payloadLengthPlaintext = Inr (t, dst, src, len)"
    by (auto simp: ParseControl_def split: sum.splits)
  then obtain label body where d: "data = frame t dst len src label body" "length label = 8"
      "t AND FlagCompress = 0 \<or> clear_flag t = TypeData"
    and f: "payloadLengthField (int (length body)) = (len, True)"
    by (auto simp: parseHeader_iff validPayloadLength_plaintext_iff)
  then have "int (length body) \<le> MaxPayloadSize"
    using payloadLengthField_ok [of "int (length body)"] by simp
  with d f show ?R by (metis fst_conv)
next
  assume ?R
  then obtain t dst src label body where
    "data = frame t dst (fst (payloadLengthField (int (length body)))) src label body"
    "length label = 8" "int (length body) \<le> MaxPayloadSize"
    "t AND FlagCompress = 0 \<or> clear_flag t = TypeData" by blast
  moreover from this(3) have
    "payloadLengthField (int (length body)) = (fst (payloadLengthField (int (length body))), True)"
    by (simp add: prod_eq_iff payloadLengthField_ok)
  ultimately have "\<exists>len. parseHeader data payloadLengthPlaintext = Inr (t, dst, src, len)"
    by (auto simp: parseHeader_frame validPayloadLength_plaintext_iff MaxPayloadSize_eq)
  then show ?L by (auto simp: ParseControl_def)
qed

text \<open>
  Canonical form: a byte string accepted by \<open>ParseControl\<close> is, up to the eight label
  bytes that control packets do not use, the encoding of the packet it was parsed into. Two
  different accepted strings with the same label therefore never parse to the same packet.
\<close>

lemma control_canonical:
  assumes "ParseControl g0 data = (g, None)"
  shows "fst (EncodePacketWithBuffer g [] True None) = Some (take 13 data @ be64 0 @ drop 21 data)"
proof -
  obtain t dst src len where h: "parseHeader data payloadLengthPlaintext = Inr (t, dst, src, len)"
    and g: "g = g0\<lparr>PType := t, gp_dst := dst, gp_src := src, Length := len, Payload := drop 21 data\<rparr>"
    using assms by (auto simp: ParseControl_def NonceLength_def split: sum.splits)
  obtain label body where d: "data = frame t dst len src label body" "length label = 8"
    and v: "validPayloadLength (int (length body)) len payloadLengthPlaintext"
    using h by (auto simp: parseHeader_iff)
  then have f: "payloadLengthField (int (length body)) = (len, True)"
    by (simp add: validPayloadLength_plaintext_iff)
  then have "int (length body) \<le> MaxPayloadSize"
    using payloadLengthField_ok [of "int (length body)"] by simp
  moreover have "Payload g = body" using g d by simp
  ultimately show ?thesis
    using g d f by (simp add: EncodePacketWithBuffer_def encode_plain plain_frame_def frame_def)
qed

end
