(* ===== verification/Compress.thy ===== *)
theory Compress
  imports Wire
begin

text \<open>
  \<^verbatim>\<open>internal/protocol/compress.go\<close>: payload compression with a 64-byte probe, and
  decompression back into the packet's buffer. LZ4 is a library: its three block functions
  are the parameter \<open>lz4\<close> and \<open>lz4_ok\<close> names what its documentation promises. A
  buffer taken from the \<^verbatim>\<open>sync.Pool\<close> may be any slice that was put there, so each
  \<^verbatim>\<open>Get\<close> is a parameter too; putting a buffer back has no effect on the packet.
\<close>

section \<open>The LZ4 parameter\<close>

text \<open>
  \<open>lz4_CompressBlock src n\<close> is the bytes written to a destination of length \<open>n\<close>; none
  written means that the data is not compressible. \<open>lz4_UncompressBlock src n\<close> is the
  decompressed data, or an error if it does not fit in \<open>n\<close> bytes.
\<close>

record lz4 =
  lz4_CompressBlock :: "bytes \<Rightarrow> nat \<Rightarrow> bytes result"
  lz4_UncompressBlock :: "bytes \<Rightarrow> nat \<Rightarrow> bytes result"
  lz4_CompressBlockBound :: "nat \<Rightarrow> nat"

definition lz4_ok :: "lz4 \<Rightarrow> bool" where
  "lz4_ok z \<longleftrightarrow>
     (\<forall>src n out. lz4_CompressBlock z src n = Inr out \<longrightarrow> out \<noteq> [] \<longrightarrow>
        (\<forall>m. length src \<le> m \<longrightarrow> lz4_UncompressBlock z out m = Inr src)) \<and>
     (\<forall>src n out. lz4_UncompressBlock z src n = Inr out \<longrightarrow> length out \<le> n)"

lemma lz4_ok_uncompress:
  "lz4_ok z \<Longrightarrow> lz4_CompressBlock z src n = Inr out \<Longrightarrow> out \<noteq> [] \<Longrightarrow> length src \<le> m \<Longrightarrow>
     lz4_UncompressBlock z out m = Inr src"
  unfolding lz4_ok_def by blast

lemma lz4_ok_uncompress_length:
  "lz4_ok z \<Longrightarrow> lz4_UncompressBlock z src n = Inr out \<Longrightarrow> length out \<le> n"
  unfolding lz4_ok_def by blast

section \<open>compress\<close>

definition make_slice :: "nat \<Rightarrow> slice" where
  "make_slice n = \<lparr>sl_data = replicate n 0, sl_cap = n\<rparr>"

definition probeLen :: "lz4 \<Rightarrow> nat" where
  "probeLen z = lz4_CompressBlockBound z 64"

text \<open>
  The probe buffer is used at the length it has in the pool, the destination is cut to the
  bound of the payload.
\<close>

definition gp_compress :: "lz4 \<Rightarrow> slice \<Rightarrow> slice \<Rightarrow> GamePacket \<Rightarrow> GamePacket \<times> bool" where
  "gp_compress z probeBuf dst g =
     (let payloadLen = length (Payload g) in
      if payloadLen \<le> 128 then (g, False)
      else
        let probeBuf = (if sl_cap probeBuf < probeLen z then make_slice (probeLen z) else probeBuf)
        in case lz4_CompressBlock z (take 64 (Payload g)) (length (sl_data probeBuf)) of
             Inl _ \<Rightarrow> (g, False)
           | Inr probe \<Rightarrow>
               if length probe > 50 then (g, False)
               else
                 let bound = lz4_CompressBlockBound z payloadLen;
                     dst = (if sl_cap dst < bound then make_slice bound else dst)
                 in case lz4_CompressBlock z (Payload g) bound of
                      Inl _ \<Rightarrow> (g, False)
                    | Inr out \<Rightarrow>
                        let n = length out in
                        if n \<ge> payloadLen \<or> n = 0 \<or> int n > MaxPayloadSize then (g, False)
                        else (g\<lparr>Payload := out, Length := fst (payloadLengthField (int n))\<rparr>, True))"

section \<open>decompress\<close>

text \<open>
  \<open>None\<close> is the run-time panic of slicing a packet that has no buffer. The two branches on
  the capacity of \<open>RawData\<close> reallocate or reuse the buffer.
\<close>

definition gp_decompress :: "lz4 \<Rightarrow> GamePacket \<Rightarrow> (GamePacket \<times> error option) option" where
  "gp_decompress z g =
     (case lz4_UncompressBlock z (Payload g) (nat MaxPayloadSize) of
        Inl _ \<Rightarrow> Some (g, Some (New ''LZ4 decompression failed''))
      | Inr out \<Rightarrow>
          let n = length out in
          if n = 0 \<or> int n > MaxPayloadSize then Some (g, Some (New ''LZ4 result length invalid''))
          else
            let reqLen = n + HeaderLength in
            (case RawData g of
               None \<Rightarrow> None
             | Some raw \<Rightarrow>
                 if length (sl_data raw) < HeaderLength then None
                 else if reqLen > sl_cap raw then
                   let tempBuf = \<lparr>sl_data = take HeaderLength (sl_data raw) @ out, sl_cap = reqLen\<rparr>
                   in Some (g\<lparr>RawData := Some tempBuf, Payload := drop HeaderLength (sl_data tempBuf)\<rparr>, None)
                 else
                   let buf = raw\<lparr>sl_data := take HeaderLength (sl_data raw) @ out\<rparr>
                   in Some (g\<lparr>RawData := Some buf, Payload := drop HeaderLength (sl_data buf)\<rparr>, None)))"

section \<open>Properties\<close>

text \<open>What \<open>gp_compress\<close> returns on success does not depend on the pool's buffers.\<close>

lemma gp_compress_True:
  assumes "gp_compress z probeBuf dst g = (g', True)"
  shows "\<exists>out n. lz4_CompressBlock z (Payload g) n = Inr out \<and> out \<noteq> [] \<and>
    length out < length (Payload g) \<and> int (length out) \<le> MaxPayloadSize \<and> 128 < length (Payload g) \<and>
    g' = g\<lparr>Payload := out, Length := fst (payloadLengthField (int (length out)))\<rparr>"
  using assms
  unfolding gp_compress_def Let_def
  by (auto split: if_splits sum.splits)

lemma gp_compress_False: "gp_compress z probeBuf dst g = (g', False) \<Longrightarrow> g' = g"
  unfolding gp_compress_def Let_def by (auto split: if_splits sum.splits)

lemma gp_compress_cases [case_names plain packed]:
  obtains "gp_compress z pb d g = (g, False)"
  | out n where "gp_compress z pb d g =
        (g\<lparr>Payload := out, Length := fst (payloadLengthField (int (length out)))\<rparr>, True)"
      "lz4_CompressBlock z (Payload g) n = Inr out" "out \<noteq> []" "length out < length (Payload g)"
      "int (length out) \<le> MaxPayloadSize"
proof (cases "gp_compress z pb d g")
  case (Pair g' b)
  then show thesis
    using gp_compress_True [of z pb d g g'] gp_compress_False [of z pb d g g'] that
    by (cases b) auto
qed

lemma gp_compress_keeps [simp]:
  "PType (fst (gp_compress z pb d g)) = PType g" "gp_src (fst (gp_compress z pb d g)) = gp_src g"
  "gp_dst (fst (gp_compress z pb d g)) = gp_dst g" "RawData (fst (gp_compress z pb d g)) = RawData g"
  unfolding gp_compress_def Let_def by (auto split: if_splits sum.splits)

text \<open>
  Compression never enlarges a payload: whatever the LZ4 library returns and whatever
  buffers the pool hands out, the payload after \<open>gp_compress\<close> is at most as long as
  before, strictly shorter and not empty when compression is reported, and untouched (with
  the whole packet) when it is not.
\<close>

lemma compress_shrinks:
  "length (Payload (fst (gp_compress z probeBuf dst g))) \<le> length (Payload g) \<and>
   (if snd (gp_compress z probeBuf dst g)
    then Payload (fst (gp_compress z probeBuf dst g)) \<noteq> [] \<and>
         length (Payload (fst (gp_compress z probeBuf dst g))) < length (Payload g) \<and>
         uint (Length (fst (gp_compress z probeBuf dst g))) =
           int (length (Payload (fst (gp_compress z probeBuf dst g)))) + 16
    else fst (gp_compress z probeBuf dst g) = g)"
proof (cases "gp_compress z probeBuf dst g")
  case (Pair g' b)
  show ?thesis
  proof (cases b)
    case True
    then show ?thesis
      using gp_compress_True [of z probeBuf dst g g'] Pair
      by (auto simp: payloadLengthField_uint)
  next
    case False
    then show ?thesis using gp_compress_False [of z probeBuf dst g g'] Pair by simp
  qed
qed

text \<open>
  Both branches of \<open>gp_decompress\<close> leave the same bytes: the header followed by the
  decompressed payload.
\<close>

lemma gp_decompress_ok:
  assumes "lz4_UncompressBlock z (Payload g) (nat MaxPayloadSize) = Inr out"
    and "out \<noteq> []" and "int (length out) \<le> MaxPayloadSize"
    and "RawData g = Some raw" and "HeaderLength \<le> length (sl_data raw)"
  shows "\<exists>cap. gp_decompress z g =
    Some (g\<lparr>RawData := Some \<lparr>sl_data = take HeaderLength (sl_data raw) @ out, sl_cap = cap\<rparr>,
            Payload := out\<rparr>, None)"
proof -
  obtain d c where raw: "raw = \<lparr>sl_data = d, sl_cap = c\<rparr>" by (cases raw) auto
  show ?thesis using assms unfolding raw
    by (auto simp: gp_decompress_def Let_def HeaderLength_eq)
qed

end
