(* ===== verification/Packet.thy ===== *)
theory Packet
  imports Compress
begin

text \<open>
  The packet operations the transports call (\<^verbatim>\<open>internal/protocol/packet.go\<close>):
  \<open>EncodePacket\<close>, \<open>ParsePacket\<close> and \<open>DecryptParse\<close>, with compression and
  encryption composed as in the source. The main lemmas are the round trip of a sealed data
  packet through sender, wire and receiver, and what the receiver's buffer holds afterwards.
\<close>

section \<open>Operations\<close>

text \<open>\<open>probeBuf\<close>, \<open>cbuf\<close> and \<open>buf\<close> are the three buffers taken from the pool.\<close>

definition EncodePacket :: "lz4 \<Rightarrow> slice \<Rightarrow> slice \<Rightarrow> slice \<Rightarrow> bool \<Rightarrow> bool \<Rightarrow> CipherState option \<Rightarrow>
    GamePacket \<Rightarrow> bytes option \<times> GamePacket \<times> CipherState option" where
  "EncodePacket z probeBuf cbuf buf control compress cipher g =
     (if \<not> snd (payloadLengthField (int (length (Payload g)))) then (None, g, cipher)
      else
        let g = (if compress then
                   (case gp_compress z probeBuf cbuf g of (g', done) \<Rightarrow>
                      if done then g'\<lparr>PType := PType g' OR FlagCompress\<rparr>
                      else g'\<lparr>PType := clear_flag (PType g')\<rparr>)
                 else g)
        in case payloadLengthField (int (length (Payload g))) of (len, ok) \<Rightarrow>
           if \<not> ok then (None, g, cipher)
           else
             let g = g\<lparr>Length := len\<rparr>;
                 dataLength = HeaderLength + unat len;
                 data = (if sl_cap buf < dataLength then make_slice dataLength else buf);
                 data = take 0 (sl_data data)
             in encode g data control cipher)"

definition DecryptParse :: "lz4 \<Rightarrow> CipherState option \<Rightarrow> GamePacket \<Rightarrow> (GamePacket \<times> error option) option" where
  "DecryptParse z cipher g =
     (let opened =
        (case cipher of
           None \<Rightarrow> Some (g, None)
         | Some cs \<Rightarrow>
             if Length g > 0 then
               (case RawData g of
                  None \<Rightarrow> None
                | Some raw \<Rightarrow>
                    if length (sl_data raw) < HeaderLength then None
                    else
                      let nonceBuf = take NonceLength (drop 9 (sl_data raw));
                          header = take (HeaderLength - NonceLength) (sl_data raw);
                          ciphertext = drop HeaderLength (sl_data raw);
                          g = store_raw (aead_storage (cs_aead cs) nonceBuf ciphertext header) g
                      in case Decrypt cs nonceBuf ciphertext header of
                           Inl err \<Rightarrow> Some (g, Some err)
                         | Inr decrypted \<Rightarrow> Some (g\<lparr>Payload := decrypted\<rparr>, None))
             else Some (g, None))
      in case opened of
           None \<Rightarrow> None
         | Some (g, Some err) \<Rightarrow> Some (g, Some err)
         | Some (g, None) \<Rightarrow>
             if PType g AND FlagCompress \<noteq> 0 then gp_decompress z g else Some (g, None))"

definition ParsePacket :: "slice \<Rightarrow> bytes \<Rightarrow> bool \<Rightarrow> CipherState option \<Rightarrow> GamePacket \<Rightarrow> GamePacket \<times> error option" where
  "ParsePacket buf content parsePayload cipher g =
     (if int (length content) > MaxPacketSize then
        (g, Some (Wrapped PayloadMismatch ''packet exceeds maximum size''))
      else
        let data = (if sl_cap buf < length content then make_slice (length content) else buf);
            data = data\<lparr>sl_data := content\<rparr>;
            g = g\<lparr>RawData := Some data\<rparr>
        in case parse g (sl_data data) parsePayload cipher of
             (g, Some err) \<Rightarrow> (g\<lparr>RawData := None, Payload := []\<rparr>, Some err)
           | (g, None) \<Rightarrow> (g, None))"

text \<open>The bytes of a packet's buffer; the nil slice has none.\<close>

definition raw_bytes :: "GamePacket \<Rightarrow> bytes" where
  "raw_bytes gp = (case RawData gp of None \<Rightarrow> [] | Some s \<Rightarrow> sl_data s)"

section \<open>Encoding\<close>

text \<open>The packet after the optional compression stage.\<close>

definition compressed_packet :: "lz4 \<Rightarrow> slice \<Rightarrow> slice \<Rightarrow> bool \<Rightarrow> GamePacket \<Rightarrow> GamePacket" where
  "compressed_packet z probeBuf cbuf compress g =
     (if compress then
        (case gp_compress z probeBuf cbuf g of (g', done) \<Rightarrow>
           if done then g'\<lparr>PType := PType g' OR FlagCompress\<rparr>
           else g'\<lparr>PType := clear_flag (PType g')\<rparr>)
      else g)"

lemma compressed_packet_keeps [simp]:
  "gp_src (compressed_packet z pb cb c g) = gp_src g" "gp_dst (compressed_packet z pb cb c g) = gp_dst g"
  by (cases rule: gp_compress_cases [of z pb cb g]; simp add: compressed_packet_def)+

lemma compressed_packet_length:
  "length (Payload (compressed_packet z pb cb c g)) \<le> length (Payload g)"
  by (cases rule: gp_compress_cases [of z pb cb g]) (simp_all add: compressed_packet_def)

lemma compressed_packet_nonempty:
  "Payload g \<noteq> [] \<Longrightarrow> Payload (compressed_packet z pb cb c g) \<noteq> []"
  by (cases rule: gp_compress_cases [of z pb cb g]) (simp_all add: compressed_packet_def)

lemma EncodePacket_none:
  "int (length (Payload g)) > MaxPayloadSize \<Longrightarrow> EncodePacket z pb cb b control compress cipher g = (None, g, cipher)"
  by (simp add: EncodePacket_def payloadLengthField_ok)

lemma EncodePacket_encode:
  assumes "int (length (Payload g)) \<le> MaxPayloadSize"
  shows "EncodePacket z pb cb b control compress cipher g =
    (let g' = compressed_packet z pb cb compress g
     in encode (g'\<lparr>Length := fst (payloadLengthField (int (length (Payload g'))))\<rparr>) [] control cipher)"
proof -
  have le: "int (length (Payload (compressed_packet z pb cb compress g))) \<le> MaxPayloadSize"
    using assms compressed_packet_length [of z pb cb compress g] by linarith
  obtain len where len: "payloadLengthField (int (length (Payload (compressed_packet z pb cb compress g)))) = (len, True)"
    using le payloadLengthField_ok [of "int (length (Payload (compressed_packet z pb cb compress g)))"]
    by (cases "payloadLengthField (int (length (Payload (compressed_packet z pb cb compress g))))") auto
  show ?thesis
    using assms len unfolding EncodePacket_def compressed_packet_def [symmetric] Let_def
    by (simp add: payloadLengthField_ok)
qed


text \<open>
  C26. Every packet the encoder emits under a session key uses one fresh counter value: a
  successful encoding advances the counter by exactly one and the frame's twelve nonce bytes
  are the sender's address followed by the old counter; a refused (oversized) payload leaves
  the counter alone.
\<close>

theorem EncodePacket_nonce:
  "case EncodePacket z pb cb b control compress (Some cs) g of
     (None, _, c) \<Rightarrow> c = Some cs \<and> int (length (Payload g)) > MaxPayloadSize
   | (Some w, _, c) \<Rightarrow>
       take NonceLength (drop 9 w) = ip4_bytes (gp_src g) @ be64 (cs_nonce cs) \<and>
       c = Some (cs\<lparr>cs_nonce := cs_nonce cs + 1\<rparr>)"
proof (cases "int (length (Payload g)) \<le> MaxPayloadSize")
  case True
  then have le: "int (length (Payload (compressed_packet z pb cb compress g))) \<le> MaxPayloadSize"
    using compressed_packet_length [of z pb cb compress g] by linarith
  show ?thesis
    using True le
    by (cases control)
      (simp_all add: EncodePacket_encode Let_def encode_sealed encode_control plain_frame_def NonceLength_def GetNonce_def)
next
  case False
  then show ?thesis by (simp add: EncodePacket_none)
qed


section \<open>Parsing\<close>

text \<open>
  A failed \<open>ParsePacket\<close> keeps no reference to a pool buffer and no payload (an oversized
  datagram is refused before the packet is touched at all), so the caller cannot go on to use bytes of a rejected datagram; a successful one
  owns a buffer with exactly the datagram's length.
\<close>

lemma ParsePacket_buffer:
  "case ParsePacket buf content pp None g of
     (g', Some err) \<Rightarrow> if length content \<le> 65556 then RawData g' = None \<and> Payload g' = [] else g' = g
   | (g', None) \<Rightarrow> \<exists>cap. RawData g' = Some \<lparr>sl_data = content, sl_cap = cap\<rparr> \<and>
                        length content \<le> cap \<and> Payload g' = drop HeaderLength content"
  by (cases buf)
    (auto simp: ParsePacket_def parse_def make_slice_def Let_def MaxPacketSize_eq split: sum.splits)

lemma parse_mode_frame:
  "parse_mode (frame t dst len src label body) None =
     (if clear_flag t = TypeData then payloadLengthDataCompat else payloadLengthPlaintext)"
  by (simp add: parse_mode_def)

lemma ParsePacket_frame:
  assumes "length label = 8" and "length body \<le> 65535"
    and "t AND FlagCompress = 0 \<or> clear_flag t = TypeData"
    and "validPayloadLength (int (length body)) len
           (if clear_flag t = TypeData then payloadLengthDataCompat else payloadLengthPlaintext)"
  shows "\<exists>cap. ParsePacket buf (frame t dst len src label body) pp None g =
    (g\<lparr>PType := t, gp_dst := dst, gp_src := src, Length := len, Payload := body,
       RawData := Some \<lparr>sl_data = frame t dst len src label body, sl_cap = cap\<rparr>\<rparr>, None)"
  using assms
  by (cases buf; cases g)
    (auto simp: ParsePacket_def parse_def parse_mode_frame parseHeader_frame make_slice_def Let_def
      MaxPacketSize_eq HeaderLength_eq)

lemma ParsePacket_plain_frame:
  assumes "int (length (Payload p)) \<le> MaxPayloadSize"
    and "PType p AND FlagCompress = 0 \<or> clear_flag (PType p) = TypeData"
  shows "\<exists>cap. ParsePacket buf (plain_frame p nonce) pp None g =
    (g\<lparr>PType := PType p, gp_dst := gp_dst p, gp_src := gp_src p,
       Length := fst (payloadLengthField (int (length (Payload p)))), Payload := Payload p,
       RawData := Some \<lparr>sl_data = plain_frame p nonce, sl_cap = cap\<rparr>\<rparr>, None)"
proof -
  have "validPayloadLength (int (length (Payload p)))
      (fst (payloadLengthField (int (length (Payload p))))) payloadLengthPlaintext"
    unfolding validPayloadLength_plaintext_iff
    using assms(1) by (auto simp: payloadLengthField_ok prod_eq_iff)
  then show ?thesis
    using assms unfolding plain_frame_def
    by (intro ParsePacket_frame) (auto simp: MaxPayloadSize_eq validPayloadLength_compat_iff)
qed

section \<open>Opening a sealed packet\<close>

text \<open>
  The sender's view of a sealed data packet on the wire, and the packet the receiver's
  \<open>ParsePacket\<close> makes of it.
\<close>

lemma sealed_body_length:
  assumes "aead_ok (cs_aead cs)"
  shows "length (sealed_body g cs) = (if Payload g = [] then 0 else length (Payload g) + 16)"
  using assms by (simp add: sealed_body_def aead_ok_seal_length)

lemma DecryptParse_sealed:
  assumes "aead_ok (cs_aead snder)" and "cs_aead rcver = cs_aead snder"
    and "Payload p \<noteq> []" and "int (length (Payload p)) \<le> MaxPayloadSize"
    and raw: "RawData g = Some \<lparr>sl_data = frame (PType p) (gp_dst p)
          (fst (payloadLengthField (int (length (Payload p))))) (gp_src p) (be64 (cs_nonce snder))
          (sealed_body p snder), sl_cap = cap\<rparr>"
    and len: "Length g = fst (payloadLengthField (int (length (Payload p))))"
  shows "\<exists>tail. length tail = 16 \<and>
    DecryptParse z (Some rcver) g =
     (let g' = g\<lparr>Payload := Payload p,
          RawData := Some \<lparr>sl_data = frame (PType p) (gp_dst p)
            (fst (payloadLengthField (int (length (Payload p))))) (gp_src p) (be64 (cs_nonce snder))
            (Payload p @ tail), sl_cap = cap\<rparr>\<rparr>
      in if PType g AND FlagCompress \<noteq> 0 then gp_decompress z g' else Some (g', None))"
proof -
  define hdr where "hdr = be16 MagicNumber @ PType p # ip4_bytes (gp_dst p) @
      be16 (fst (payloadLengthField (int (length (Payload p)))))"
  define nb where "nb = ip4_bytes (gp_src p) @ be64 (cs_nonce snder)"
  define st where "st = aead_storage (cs_aead snder) nb (sealed_body p snder) hdr"
  have body: "sealed_body p snder = aead_seal (cs_aead snder) nb (Payload p) hdr"
    using assms(3) by (simp add: sealed_body_def hdr_def nb_def)
  have nb12: "length nb = 12" by (simp add: nb_def)
  have op: "aead_open (cs_aead snder) nb (sealed_body p snder) hdr = Inr (Payload p)"
    unfolding body by (rule aead_ok_open_seal [OF assms(1) nb12])
  have st: "st = Payload p @ drop (length (Payload p)) st"
    using aead_ok_storage_take [OF assms(1) op] append_take_drop_id [of "length (Payload p)" st]
    unfolding st_def by simp
  have tl: "length (drop (length (Payload p)) st) = 16"
    using assms(1,3) by (simp add: st_def aead_ok_storage_length sealed_body_length)
  have "0 < uint (fst (payloadLengthField (int (length (Payload p)))))"
    using payloadLengthField_uint [of "int (length (Payload p))"] assms(3,4) by simp
  then have pos: "0 < fst (payloadLengthField (int (length (Payload p))))"
    by (simp add: word_less_def)
  show ?thesis
    by (rule exI [of _ "drop (length (Payload p)) st"], intro conjI, rule tl, subst st [symmetric])
      (use pos op assms(2) raw len in \<open>cases g; simp add: DecryptParse_def Let_def HeaderLength_eq
        NonceLength_def Decrypt_def store_raw_def st_def hdr_def nb_def split del: if_split\<close>)
qed


section \<open>A data packet from sender to receiver\<close>

abbreviation data_packet :: "ip4 \<Rightarrow> ip4 \<Rightarrow> bytes \<Rightarrow> GamePacket" where
  "data_packet src dst payload \<equiv> NewGamePacket src dst TypeData payload"

lemma data_type_bits [simp]:
  "clear_flag TypeData = TypeData" "clear_flag (TypeData OR FlagCompress) = TypeData"
  "TypeData AND FlagCompress = 0" "(TypeData OR FlagCompress) AND FlagCompress \<noteq> 0"
  "FlagCompress \<noteq> 0"
  by (simp_all add: TypeData_def FlagCompress_def)

lemma compressed_data_cases [case_names plain packed]:
  obtains "Payload (compressed_packet z pb cb c (data_packet src dst pl)) = pl"
      "PType (compressed_packet z pb cb c (data_packet src dst pl)) = TypeData"
  | out n where "c" "Payload (compressed_packet z pb cb c (data_packet src dst pl)) = out"
      "PType (compressed_packet z pb cb c (data_packet src dst pl)) = TypeData OR FlagCompress"
      "lz4_CompressBlock z pl n = Inr out" "out \<noteq> []"
proof (cases c)
  case False
  then show thesis using that(1) by (simp add: compressed_packet_def)
next
  case True
  show thesis
    by (cases rule: gp_compress_cases [of z pb cb "data_packet src dst pl"])
      (use True that in \<open>auto simp: compressed_packet_def\<close>)
qed

text \<open>
  One packet under one key: what the sender puts on the wire, what \<open>ParsePacket\<close> makes of it,
  and what \<open>DecryptParse\<close> leaves. \<open>tail\<close> is what follows the payload in the buffer.
\<close>

lemma sealed_on_wire:
  fixes z pb cb compress src dst payload and snder :: CipherState
  defines "q \<equiv> compressed_packet z pb cb compress (data_packet src dst payload)"
  defines "len \<equiv> fst (payloadLengthField (int (length (Payload q))))"
  defines "fr \<equiv> frame (PType q) dst len src (be64 (cs_nonce snder)) (sealed_body (q\<lparr>Length := len\<rparr>) snder)"
  assumes "aead_ok (cs_aead snder)" and "payload \<noteq> []" and "int (length payload) \<le> MaxPayloadSize"
  shows "Payload q \<noteq> []" and "int (length (Payload q)) \<le> MaxPayloadSize"
    and "EncodePacket z pb cb b False compress (Some snder) (data_packet src dst payload) =
      (Some fr, q\<lparr>Length := len\<rparr>, Some (snd (GetNonce snder)))"
    and "\<exists>cap. ParsePacket buf fr True None g0 =
      (g0\<lparr>PType := PType q, gp_dst := dst, gp_src := src, Length := len,
        Payload := sealed_body (q\<lparr>Length := len\<rparr>) snder, RawData := Some \<lparr>sl_data = fr, sl_cap = cap\<rparr>\<rparr>, None)"
proof -
  show q: "Payload q \<noteq> []" "int (length (Payload q)) \<le> MaxPayloadSize"
    using assms(5,6) compressed_packet_length [of z pb cb compress "data_packet src dst payload"]
      compressed_packet_nonempty [of "data_packet src dst payload" z pb cb compress]
    by (auto simp: q_def)
  have ends: "gp_src q = src" "gp_dst q = dst" by (simp_all add: q_def)
  show "EncodePacket z pb cb b False compress (Some snder) (data_packet src dst payload) =
      (Some fr, q\<lparr>Length := len\<rparr>, Some (snd (GetNonce snder)))"
    using assms(6) q ends by (simp add: EncodePacket_encode Let_def encode_sealed fr_def len_def flip: q_def)
  have t: "clear_flag (PType q) = TypeData"
    unfolding q_def by (cases rule: compressed_data_cases [of z pb cb compress src dst payload]) auto
  have sb: "length (sealed_body (q\<lparr>Length := len\<rparr>) snder) = length (Payload q) + 16"
    using assms(4) q by (simp add: sealed_body_length)
  moreover have "uint len = int (length (Payload q)) + 16"
    using q unfolding len_def by (intro payloadLengthField_uint) auto
  ultimately have "validPayloadLength (int (length (sealed_body (q\<lparr>Length := len\<rparr>) snder))) len payloadLengthDataCompat"
    unfolding validPayloadLength_compat_iff validPayloadLength_cipher_iff by simp
  then show "\<exists>cap. ParsePacket buf fr True None g0 =
      (g0\<lparr>PType := PType q, gp_dst := dst, gp_src := src, Length := len,
        Payload := sealed_body (q\<lparr>Length := len\<rparr>) snder, RawData := Some \<lparr>sl_data = fr, sl_cap = cap\<rparr>\<rparr>, None)"
    unfolding fr_def using t sb q by (intro ParsePacket_frame) (auto simp: MaxPayloadSize_eq)
qed

lemma gp_decompress_frame:
  assumes "lz4_UncompressBlock z (Payload g) (nat MaxPayloadSize) = Inr out"
    and "out \<noteq> []" and "int (length out) \<le> MaxPayloadSize"
    and "RawData g = Some \<lparr>sl_data = frame t d n s (be64 v) body, sl_cap = cap\<rparr>"
  shows "\<exists>cap'. gp_decompress z g =
    Some (g\<lparr>Payload := out, RawData := Some \<lparr>sl_data = frame t d n s (be64 v) out, sl_cap = cap'\<rparr>\<rparr>, None)"
  using gp_decompress_ok [OF assms] by (cases g) (auto simp: HeaderLength_eq)

lemma sealed_delivery:
  assumes "aead_ok (cs_aead snder)" and "cs_aead rcver = cs_aead snder" and "lz4_ok z"
    and "payload \<noteq> []" and "int (length payload) \<le> MaxPayloadSize"
  shows "\<exists>w gs cs g1 g2 raw tail.
    EncodePacket z pb cb b False compress (Some snder) (data_packet src dst payload) = (Some w, gs, cs) \<and>
    ParsePacket buf w True None g0 = (g1, None) \<and> DecryptParse z (Some rcver) g1 = Some (g2, None) \<and>
    Payload g2 = payload \<and> gp_src g2 = src \<and> gp_dst g2 = dst \<and> clear_flag (PType g2) = TypeData \<and>
    RawData g2 = Some raw \<and> drop HeaderLength (sl_data raw) = payload @ tail \<and>
    length tail = (if PType g2 AND FlagCompress = 0 then 16 else 0) \<and> (\<not> compress \<longrightarrow> length tail = 16)"
proof -
  define q where "q = compressed_packet z pb cb compress (data_packet src dst payload)"
  define len where "len = fst (payloadLengthField (int (length (Payload q))))"
  define fr where "fr = frame (PType q) dst len src (be64 (cs_nonce snder)) (sealed_body (q\<lparr>Length := len\<rparr>) snder)"
  note wire = sealed_on_wire [OF assms(1,4,5), where z = z and pb = pb and cb = cb and
      compress = compress and src = src and dst = dst, folded q_def, folded len_def, folded fr_def]
  obtain cap where pp: "ParsePacket buf fr True None g0 =
      (g0\<lparr>PType := PType q, gp_dst := dst, gp_src := src, Length := len,
        Payload := sealed_body (q\<lparr>Length := len\<rparr>) snder, RawData := Some \<lparr>sl_data = fr, sl_cap = cap\<rparr>\<rparr>, None)"
    using wire(4) by blast
  define g1 where "g1 = g0\<lparr>PType := PType q, gp_dst := dst, gp_src := src, Length := len,
        Payload := sealed_body (q\<lparr>Length := len\<rparr>) snder, RawData := Some \<lparr>sl_data = fr, sl_cap = cap\<rparr>\<rparr>"
  have ends: "gp_src q = src" "gp_dst q = dst" by (simp_all add: q_def)
  obtain tail where tl: "length tail = 16" and dp: "DecryptParse z (Some rcver) g1 =
      (let g' = g1\<lparr>Payload := Payload q,
          RawData := Some \<lparr>sl_data = frame (PType q) dst len src (be64 (cs_nonce snder)) (Payload q @ tail), sl_cap = cap\<rparr>\<rparr>
       in if PType q AND FlagCompress \<noteq> 0 then gp_decompress z g' else Some (g', None))"
    using DecryptParse_sealed [of snder rcver "q\<lparr>Length := len\<rparr>" g1 cap z] assms(1,2) wire(1,2) ends
    by (auto simp: g1_def fr_def len_def)
  show ?thesis
  proof (cases rule: compressed_data_cases [of z pb cb compress src dst payload])
    case plain
    then show ?thesis
      using wire(3) pp dp tl by (simp add: g1_def HeaderLength_eq flip: q_def)
  next
    case (packed out n)
    have "lz4_UncompressBlock z out (nat MaxPayloadSize) = Inr payload"
      using packed assms(3,5) by (intro lz4_ok_uncompress) auto
    moreover define g' where "g' = g1\<lparr>Payload := Payload q,
        RawData := Some \<lparr>sl_data = frame (PType q) dst len src (be64 (cs_nonce snder)) (Payload q @ tail), sl_cap = cap\<rparr>\<rparr>"
    moreover have pt: "Payload q = out" "PType q = TypeData OR FlagCompress"
      using packed(2,3) by (simp_all add: q_def)
    ultimately obtain cap' where "gp_decompress z g' = Some (g'\<lparr>Payload := payload,
        RawData := Some \<lparr>sl_data = frame (PType q) dst len src (be64 (cs_nonce snder)) payload, sl_cap = cap'\<rparr>\<rparr>, None)"
      using gp_decompress_frame [of z g' payload "PType q" dst len src "cs_nonce snder" "Payload q @ tail" cap]
        assms(4,5) by auto
    then have "DecryptParse z (Some rcver) g1 = Some (g'\<lparr>Payload := payload,
        RawData := Some \<lparr>sl_data = frame (PType q) dst len src (be64 (cs_nonce snder)) payload, sl_cap = cap'\<rparr>\<rparr>, None)"
      using dp pt by (simp add: g'_def Let_def)
    then show ?thesis
      using wire(3) [of b] pp pt packed(1) by (simp add: g1_def g'_def HeaderLength_eq)
  qed
qed


text \<open>
  C4. End-to-end secrecy channel: a data packet with a non-empty payload that fits, encoded
  with or without compression under a session key, is accepted by \<open>ParsePacket\<close> on the
  other side and \<open>DecryptParse\<close> under the same key returns exactly the payload, source and
  destination that were sent. The AEAD and LZ4 libraries enter only through their documented
  laws, and the buffers of both pools are arbitrary.
\<close>

theorem sealed_roundtrip:
  assumes "aead_ok (cs_aead snder)" and "cs_aead rcver = cs_aead snder" and "lz4_ok z"
    and "payload \<noteq> []" and "int (length payload) \<le> MaxPayloadSize"
  shows "\<exists>w gs cs g1 g2.
    EncodePacket z pb cb b False compress (Some snder) (data_packet src dst payload) = (Some w, gs, cs) \<and>
    ParsePacket buf w True None g0 = (g1, None) \<and> DecryptParse z (Some rcver) g1 = Some (g2, None) \<and>
    Payload g2 = payload \<and> gp_src g2 = src \<and> gp_dst g2 = dst"
  using sealed_delivery [OF assms, of pb cb b compress src dst buf g0] by blast

text \<open>
  What the receiver hands on: after \<open>DecryptParse\<close> of a packet that was not compressed,
  the packet's buffer (which is what goes to the TUN device) holds the payload followed by
  sixteen further bytes, the room of the authentication tag; the payload field itself is
  exact.
\<close>

lemma sealed_raw_tail:
  assumes "aead_ok (cs_aead snder)" and "cs_aead rcver = cs_aead snder" and "lz4_ok z"
    and "payload \<noteq> []" and "int (length payload) \<le> MaxPayloadSize"
  shows "\<exists>w gs cs g1 g2 raw tail.
    EncodePacket z pb cb b False False (Some snder) (data_packet src dst payload) = (Some w, gs, cs) \<and>
    ParsePacket buf w True None g0 = (g1, None) \<and> DecryptParse z (Some rcver) g1 = Some (g2, None) \<and>
    RawData g2 = Some raw \<and> drop HeaderLength (sl_data raw) = payload @ tail \<and> length tail = 16"
  using sealed_delivery [OF assms, of pb cb b False src dst buf g0] by blast

section \<open>Concrete library instances\<close>

text \<open>
  An AEAD whose tag is sixteen zero bytes and a compressor that finds nothing compressible:
  they satisfy the laws and let the properties be evaluated on concrete packets.
\<close>

definition zero_aead :: aead where
  "zero_aead = \<lparr>aead_seal = (\<lambda>n p a. p @ replicate 16 0),
     aead_open = (\<lambda>n c a. if length c < 16 \<or> drop (length c - 16) c \<noteq> replicate 16 0
                          then Inl (External ''message authentication failed'')
                          else Inr (take (length c - 16) c)),
     aead_storage = (\<lambda>n c a. c)\<rparr>"

definition null_lz4 :: lz4 where
  "null_lz4 = \<lparr>lz4_CompressBlock = (\<lambda>src n. Inr []),
     lz4_UncompressBlock = (\<lambda>src n. Inl (External ''invalid source or destination buffer too short'')),
     lz4_CompressBlockBound = (\<lambda>n. n + n div 255 + 16)\<rparr>"

lemma zero_aead_ok: "aead_ok zero_aead"
  by (auto simp: aead_ok_def zero_aead_def split: if_splits)

lemma null_lz4_ok: "lz4_ok null_lz4"
  by (simp add: lz4_ok_def null_lz4_def)

abbreviation zero_state :: CipherState where
  "zero_state \<equiv> \<lparr>cs_aead = zero_aead, cs_nonce = 0\<rparr>"

theorem sealed_roundtrip_witness:
  "\<exists>w gs cs g1 g2.
    EncodePacket null_lz4 (make_slice 0) (make_slice 0) (make_slice 0) False True (Some zero_state)
      (data_packet (IP4 10 0 6 2) (IP4 10 0 6 3) [1, 2, 3]) = (Some w, gs, cs) \<and>
    ParsePacket (make_slice 2048) w True None gp_empty = (g1, None) \<and>
    DecryptParse null_lz4 (Some zero_state) g1 = Some (g2, None) \<and>
    Payload g2 = [1, 2, 3] \<and> gp_src g2 = IP4 10 0 6 2 \<and> gp_dst g2 = IP4 10 0 6 3"
  by (rule sealed_roundtrip) (simp_all add: zero_aead_ok null_lz4_ok MaxPayloadSize_eq)

section \<open>The codec contract of the control plane\<close>

text \<open>
  What the control pumps of client and server need of the packet format: an encoder that
  refuses what does not fit, and a decoder that inverts it.
\<close>

locale packet_codec =
  fixes enc :: "'p \<Rightarrow> bytes option"
    and dec :: "bytes \<Rightarrow> 'p option"
    and fits :: "'p \<Rightarrow> bool"
  assumes enc_defined: "fits p \<Longrightarrow> \<exists>w. enc p = Some w"
    and dec_enc: "fits p \<Longrightarrow> enc p = Some w \<Longrightarrow> dec w = Some p"
begin

lemma enc_inj: "fits p \<Longrightarrow> fits q \<Longrightarrow> enc p = enc q \<Longrightarrow> p = q"
  by (metis dec_enc enc_defined option.inject)

text \<open>A stream of messages, encoded one by one and decoded one by one, arrives unchanged.\<close>

lemma stream_roundtrip:
  "\<forall>p \<in> set ps. fits p \<Longrightarrow> List.map_filter dec (List.map_filter enc ps) = ps"
proof (induction ps)
  case (Cons p ps)
  then obtain w where "enc p = Some w" "dec w = Some p" using enc_defined dec_enc by force
  with Cons show ?case by (simp add: List.map_filter_simps)
qed (simp add: List.map_filter_simps)

end

type_synonym message = "ip4 \<times> ip4 \<times> byte \<times> bytes"

fun control_bytes :: "message \<Rightarrow> bytes option" where
  "control_bytes (src, dst, t, payload) =
     fst (EncodePacketWithBuffer (NewGamePacket src dst t payload) [] True None)"

definition control_message :: "bytes \<Rightarrow> message option" where
  "control_message w = (case ParseControl gp_empty w of
     (g, None) \<Rightarrow> Some (gp_src g, gp_dst g, PType g, Payload g) | (g, Some _) \<Rightarrow> None)"

fun control_fits :: "message \<Rightarrow> bool" where
  "control_fits (src, dst, t, payload) \<longleftrightarrow> t AND FlagCompress = 0 \<and> int (length payload) \<le> MaxPayloadSize"

lemma clear_flag_id: "t AND FlagCompress = 0 \<Longrightarrow> clear_flag t = t"
  by (rule bit_word_eqI) (auto simp: bit_eq_iff bit_simps)

interpretation control: packet_codec control_bytes control_message control_fits
  by unfold_locales
    (auto simp: EncodePacketWithBuffer_def encode_plain control_message_def ParseControl_plain_frame clear_flag_id)

end
