(* ===== verification/GoMap.thy ===== *)
theory GoMap
  imports Prelude
begin

text \<open>
  Go maps and the copy-on-write tables built from them. A map is an association list with
  distinct keys; the order of the list stands for the iteration order the runtime picks, so
  a lemma about every list covers every order. The program publishes its shared tables
  (routes, DNS names, Noise sessions, P2P routes) by copying the old map, changing the copy
  and storing it atomically; \<open>gm_copy\<close> is that copy loop and the locale
  \<open>cow_table\<close> states what every such table promises its readers.
\<close>

section \<open>Maps as association lists\<close>

type_synonym ('k, 'v) gomap = "('k \<times> 'v) list"

abbreviation gm_get :: "('k, 'v) gomap \<Rightarrow> 'k \<Rightarrow> 'v option" where
  "gm_get m \<equiv> map_of m"

fun gm_set :: "'k \<Rightarrow> 'v \<Rightarrow> ('k, 'v) gomap \<Rightarrow> ('k, 'v) gomap" where
  "gm_set k v [] = [(k, v)]"
| "gm_set k v ((k', v') # m) = (if k' = k then (k, v) # m else (k', v') # gm_set k v m)"

definition gm_delete :: "'k \<Rightarrow> ('k, 'v) gomap \<Rightarrow> ('k, 'v) gomap" where
  "gm_delete k m = filter (\<lambda>(k', _). k' \<noteq> k) m"

definition gm_wf :: "('k, 'v) gomap \<Rightarrow> bool" where
  "gm_wf m \<longleftrightarrow> distinct (map fst m)"

text \<open>\<^verbatim>\<open>for k, v := range old { new[k] = v }\<close> into a fresh map.\<close>

fun gm_copy_into :: "('k, 'v) gomap \<Rightarrow> ('k, 'v) gomap \<Rightarrow> ('k, 'v) gomap" where
  "gm_copy_into new [] = new"
| "gm_copy_into new ((k, v) # old) = gm_copy_into (gm_set k v new) old"

abbreviation gm_copy :: "('k, 'v) gomap \<Rightarrow> ('k, 'v) gomap" where
  "gm_copy \<equiv> gm_copy_into []"

text \<open>The same loop with a guard on the key (\<^verbatim>\<open>if k == key { continue }\<close>).\<close>

fun gm_copy_except_into :: "'k \<Rightarrow> ('k, 'v) gomap \<Rightarrow> ('k, 'v) gomap \<Rightarrow> ('k, 'v) gomap" where
  "gm_copy_except_into key new [] = new"
| "gm_copy_except_into key new ((k, v) # old) =
     gm_copy_except_into key (if k = key then new else gm_set k v new) old"

abbreviation gm_copy_except :: "'k \<Rightarrow> ('k, 'v) gomap \<Rightarrow> ('k, 'v) gomap" where
  "gm_copy_except key \<equiv> gm_copy_except_into key []"

lemma gm_wf_Nil [simp]: "gm_wf []"
  by (simp add: gm_wf_def)

lemma gm_get_set [simp]: "gm_get (gm_set k v m) = (gm_get m)(k \<mapsto> v)"
  by (induction k v m rule: gm_set.induct) (auto simp: fun_eq_iff)

lemma gm_get_delete [simp]: "gm_get (gm_delete k m) = (gm_get m)(k := None)"
  unfolding gm_delete_def by (induction m) (auto simp: fun_eq_iff)

lemma fst_gm_set: "fst ` set (gm_set k v m) = insert k (fst ` set m)"
  by (induction k v m rule: gm_set.induct) auto

lemma gm_wf_set [simp, intro]: "gm_wf m \<Longrightarrow> gm_wf (gm_set k v m)"
  by (induction k v m rule: gm_set.induct) (auto simp: gm_wf_def fst_gm_set)

lemma gm_wf_delete [simp, intro]: "gm_wf m \<Longrightarrow> gm_wf (gm_delete k m)"
  unfolding gm_wf_def gm_delete_def by (rule distinct_map_filter)

lemma gm_set_fresh: "k \<notin> fst ` set m \<Longrightarrow> gm_set k v m = m @ [(k, v)]"
  by (induction k v m rule: gm_set.induct) auto

lemma gm_get_Some_iff: "gm_wf m \<Longrightarrow> gm_get m k = Some v \<longleftrightarrow> (k, v) \<in> set m"
  unfolding gm_wf_def by simp

lemma gm_copy_into_append:
  "gm_wf old \<Longrightarrow> fst ` set new \<inter> fst ` set old = {} \<Longrightarrow> gm_copy_into new old = new @ old"
proof (induction new old rule: gm_copy_into.induct)
  case (2 new k v old)
  then have "gm_set k v new = new @ [(k, v)]"
    by (intro gm_set_fresh) auto
  with 2 show ?case by (auto simp: gm_wf_def)
qed simp

lemma gm_copy_id [simp]: "gm_wf m \<Longrightarrow> gm_copy m = m"
  by (simp add: gm_copy_into_append)

lemma gm_copy_except_into_filter:
  "gm_copy_except_into key new old = gm_copy_into new (gm_delete key old)"
  by (induction key new old rule: gm_copy_except_into.induct) (auto simp: gm_delete_def)

lemma gm_copy_except_delete [simp]: "gm_wf m \<Longrightarrow> gm_copy_except key m = gm_delete key m"
  by (simp add: gm_copy_except_into_filter)

lemma gm_set_values: "snd ` set (gm_set k v m) \<subseteq> insert v (snd ` set m)"
  by (induction k v m rule: gm_set.induct) auto

lemma set_gm_delete: "set (gm_delete k m) = {p \<in> set m. fst p \<noteq> k}"
  by (auto simp: gm_delete_def)

lemma set_gm_set: "gm_wf m \<Longrightarrow> set (gm_set k v m) = insert (k, v) {p \<in> set m. fst p \<noteq> k}"
  by (induction k v m rule: gm_set.induct) (auto simp: gm_wf_def rev_image_eqI)

section \<open>The contract of a copy-on-write table\<close>

text \<open>
  A table with a lookup, an insertion and a removal, each mapping a whole snapshot to a whole
  snapshot. \<open>ok\<close> is the well-formedness every snapshot keeps.
\<close>

locale cow_table =
  fixes get :: "'s \<Rightarrow> 'k \<Rightarrow> 'v option"
    and put :: "'k \<Rightarrow> 'v \<Rightarrow> 's \<Rightarrow> 's"
    and del :: "'k \<Rightarrow> 's \<Rightarrow> 's"
    and ok :: "'s \<Rightarrow> bool"
  assumes get_put: "ok s \<Longrightarrow> get (put k v s) k' = (if k' = k then Some v else get s k')"
    and get_del: "ok s \<Longrightarrow> get (del k s) k' = (if k' = k then None else get s k')"
    and ok_put: "ok s \<Longrightarrow> ok (put k v s)"
    and ok_del: "ok s \<Longrightarrow> ok (del k s)"
begin

text \<open>A history of updates, oldest first: \<open>Some v\<close> stores, \<open>None\<close> removes.\<close>

fun replay :: "('k \<times> 'v option) list \<Rightarrow> 's \<Rightarrow> 's" where
  "replay [] s = s"
| "replay ((k, Some v) # h) s = replay h (put k v s)"
| "replay ((k, None) # h) s = replay h (del k s)"

lemma replay_ok: "ok s \<Longrightarrow> ok (replay h s)"
  by (induction h s rule: replay.induct) (auto intro: ok_put ok_del)

text \<open>A reader sees the last update of its key, whatever happened to the other keys.\<close>

lemma replay_get:
  "ok s \<Longrightarrow> get (replay h s) k =
     (case map_of (rev h) k of None \<Rightarrow> get s k | Some w \<Rightarrow> w)"
proof (induction h s rule: replay.induct)
  case (2 k' v h s)
  then show ?case
    by (auto simp: ok_put get_put map_add_def split: option.splits)
next
  case (3 k' h s)
  then show ?case
    by (auto simp: ok_del get_del map_add_def split: option.splits)
qed simp

lemma put_del_other: "ok s \<Longrightarrow> k \<noteq> k' \<Longrightarrow> get (del k' (put k v s)) k = Some v"
  by (simp add: get_put get_del ok_put)

lemma put_overwrites: "ok s \<Longrightarrow> get (put k v' (put k v s)) k' = get (put k v' s) k'"
  by (simp add: get_put ok_put)

end

interpretation gm: cow_table gm_get gm_set gm_delete gm_wf
  by unfold_locales auto

section \<open>The contract of a table with expiring entries\<close>

text \<open>
  Three tables are swept by a timer: idle Noise sessions, retained offline clients and silent
  P2P peers. A sweep at time \<open>t\<close> removes exactly the entries that have expired by then, and
  what has expired stays expired.
\<close>

locale expiring_table =
  fixes get :: "'s \<Rightarrow> 'k \<Rightarrow> 'v option"
    and sweep :: "int \<Rightarrow> 's \<Rightarrow> 's"
    and expired :: "int \<Rightarrow> 'v \<Rightarrow> bool"
    and ok :: "'s \<Rightarrow> bool"
  assumes get_sweep: "ok s \<Longrightarrow> get (sweep t s) k =
      (case get s k of None \<Rightarrow> None | Some v \<Rightarrow> if expired t v then None else Some v)"
    and ok_sweep: "ok s \<Longrightarrow> ok (sweep t s)"
    and expired_mono: "expired t v \<Longrightarrow> t \<le> t' \<Longrightarrow> expired t' v"
begin

fun sweeps :: "int list \<Rightarrow> 's \<Rightarrow> 's" where
  "sweeps [] s = s"
| "sweeps (t # ts) s = sweeps ts (sweep t s)"

lemma sweep_keeps: "ok s \<Longrightarrow> get s k = Some v \<Longrightarrow> \<not> expired t v \<Longrightarrow> get (sweep t s) k = Some v"
  by (simp add: get_sweep)

lemma sweep_later: "ok s \<Longrightarrow> t \<le> t' \<Longrightarrow> get (sweep t' (sweep t s)) k = get (sweep t' s) k"
  by (auto simp: get_sweep ok_sweep expired_mono split: option.splits)

text \<open>Only the latest sweep matters: earlier ones removed nothing it would have kept.\<close>

lemma sweeps_last:
  "ok s \<Longrightarrow> sorted (ts @ [t]) \<Longrightarrow> get (sweeps (ts @ [t]) s) k = get (sweep t s) k"
proof (induction ts arbitrary: s)
  case (Cons u ts)
  then have "get (sweeps (ts @ [t]) (sweep u s)) k = get (sweep t (sweep u s)) k"
    by (intro Cons.IH) (auto simp: ok_sweep)
  moreover have "get (sweep t (sweep u s)) k = get (sweep t s) k"
    using Cons.prems by (intro sweep_later) auto
  ultimately show ?case by simp
qed simp

end

end
