(* ===== verification/GoChan.thy ===== *)
theory GoChan
  imports Prelude
begin

text \<open>
  Buffered Go channels. A channel has a capacity, the items waiting in it and a closed flag.
  The program almost always sends inside a \<^verbatim>\<open>select\<close> with a \<^verbatim>\<open>default\<close>
  branch, so a send has three outcomes: the item is queued, the channel is full and the
  default branch runs, or the channel is closed and the goroutine panics. The locale
  \<open>bounded_fifo\<close> is the contract the senders and receivers rely on.
\<close>

section \<open>Channels\<close>

record 'a chan =
  ch_cap :: nat
  ch_items :: "'a list"
  ch_closed :: bool

definition make_chan :: "nat \<Rightarrow> 'a chan" where
  "make_chan n = \<lparr>ch_cap = n, ch_items = [], ch_closed = False\<rparr>"

datatype 'a send_outcome = Sent "'a chan" | WouldBlock | SendPanic

definition chan_send :: "'a \<Rightarrow> 'a chan \<Rightarrow> 'a send_outcome" where
  "chan_send x c =
     (if ch_closed c then SendPanic
      else if length (ch_items c) < ch_cap c then Sent (c\<lparr>ch_items := ch_items c @ [x]\<rparr>)
      else WouldBlock)"

text \<open>
  \<^verbatim>\<open>select { case c <- x: default: }\<close> on a channel that nobody closes: the channel
  afterwards, and whether the item went in.
\<close>

definition try_send :: "'a \<Rightarrow> 'a chan \<Rightarrow> 'a chan \<times> bool" where
  "try_send x c = (case chan_send x c of Sent c' \<Rightarrow> (c', True) | _ \<Rightarrow> (c, False))"

text \<open>
  \<^verbatim>\<open>select { case c <- x: ; case <-ctx.Done(): ; default: }\<close>: \<open>stop\<close> says that the
  context is cancelled and the runtime picks that branch.
\<close>

datatype selected = SelSent | SelDone | SelDefault

definition select_send :: "bool \<Rightarrow> 'a \<Rightarrow> 'a chan \<Rightarrow> 'a chan \<times> selected" where
  "select_send stop x c =
     (if stop then (c, SelDone)
      else case try_send x c of (c', True) \<Rightarrow> (c', SelSent) | (c', False) \<Rightarrow> (c', SelDefault))"

definition chan_recv :: "'a chan \<Rightarrow> ('a \<times> 'a chan) option" where
  "chan_recv c = (case ch_items c of [] \<Rightarrow> None | x # xs \<Rightarrow> Some (x, c\<lparr>ch_items := xs\<rparr>))"

text \<open>\<^verbatim>\<open>close(c)\<close>: closing twice panics (\<open>None\<close>).\<close>

definition chan_close :: "'a chan \<Rightarrow> 'a chan option" where
  "chan_close c = (if ch_closed c then None else Some (c\<lparr>ch_closed := True\<rparr>))"

definition chan_open :: "'a chan \<Rightarrow> bool" where
  "chan_open c \<longleftrightarrow> \<not> ch_closed c \<and> length (ch_items c) \<le> ch_cap c"

lemma chan_open_make [simp]: "chan_open (make_chan n)"
  by (simp add: chan_open_def make_chan_def)

lemma make_chan_sel [simp]:
  "ch_cap (make_chan n) = n" "ch_items (make_chan n) = []" "\<not> ch_closed (make_chan n)"
  by (simp_all add: make_chan_def)

section \<open>The contract of a bounded queue\<close>

locale bounded_fifo =
  fixes items :: "'c \<Rightarrow> 'a list"
    and cap :: "'c \<Rightarrow> nat"
    and offer :: "'a \<Rightarrow> 'c \<Rightarrow> 'c \<times> bool"
    and poll :: "'c \<Rightarrow> ('a \<times> 'c) option"
    and ok :: "'c \<Rightarrow> bool"
  assumes offer_room: "ok c \<Longrightarrow> length (items c) < cap c \<Longrightarrow>
      snd (offer x c) \<and> items (fst (offer x c)) = items c @ [x]"
    and offer_full: "ok c \<Longrightarrow> cap c \<le> length (items c) \<Longrightarrow> offer x c = (c, False)"
    and offer_cap: "ok c \<Longrightarrow> cap (fst (offer x c)) = cap c"
    and offer_ok: "ok c \<Longrightarrow> ok (fst (offer x c))"
    and poll_none: "poll c = None \<longleftrightarrow> items c = []"
    and poll_some: "poll c = Some (x, c') \<Longrightarrow> items c = x # items c' \<and> cap c' = cap c"
    and poll_ok: "ok c \<Longrightarrow> poll c = Some (x, c') \<Longrightarrow> ok c'"
    and ok_bound: "ok c \<Longrightarrow> length (items c) \<le> cap c"
begin

fun offer_all :: "'a list \<Rightarrow> 'c \<Rightarrow> 'c" where
  "offer_all [] c = c"
| "offer_all (x # xs) c = offer_all xs (fst (offer x c))"

fun poll_all :: "nat \<Rightarrow> 'c \<Rightarrow> 'a list \<times> 'c" where
  "poll_all 0 c = ([], c)"
| "poll_all (Suc n) c =
     (case poll c of None \<Rightarrow> ([], c) | Some (x, c') \<Rightarrow> apfst ((#) x) (poll_all n c'))"

lemma offer_items:
  "ok c \<Longrightarrow> items (fst (offer x c)) = take (cap c) (items c @ [x])"
  using ok_bound [of c] offer_room [of c x] offer_full [of c x]
  by (cases "length (items c) < cap c") auto

lemma offer_all_ok: "ok c \<Longrightarrow> ok (offer_all xs c) \<and> cap (offer_all xs c) = cap c"
  by (induction xs arbitrary: c) (auto simp: offer_ok offer_cap)

text \<open>A burst keeps the oldest items up to the capacity and drops the newest.\<close>

lemma offer_all_items: "ok c \<Longrightarrow> items (offer_all xs c) = take (cap c) (items c @ xs)"
proof (induction xs arbitrary: c)
  case Nil
  then show ?case using ok_bound [of c] by simp
next
  case (Cons x xs)
  have "items (offer_all (x # xs) c) = take (cap c) (take (cap c) (items c @ [x]) @ xs)"
    using Cons by (simp add: offer_ok offer_cap offer_items)
  also have "\<dots> = take (cap c) (items c @ x # xs)"
    by (cases "length (items c) < cap c") (auto simp: min_def take_Cons')
  finally show ?case .
qed

text \<open>Receiving returns the items first in, first out.\<close>

lemma poll_all_fifo: "length (items c) \<le> n \<Longrightarrow> fst (poll_all n c) = items c"
proof (induction n arbitrary: c)
  case 0
  then show ?case by simp
next
  case (Suc n)
  show ?case
  proof (cases "poll c")
    case None
    then show ?thesis by (simp add: poll_none [THEN iffD1])
  next
    case (Some p)
    obtain x c' where p: "p = (x, c')" by (cases p)
    have "items c = x # items c'"
      using poll_some [of c x c'] Some p by simp
    with Suc Some p show ?thesis by simp
  qed
qed

end

interpretation go_chan: bounded_fifo ch_items ch_cap try_send chan_recv chan_open
  by unfold_locales
    (auto simp: try_send_def chan_send_def chan_recv_def chan_open_def split: list.splits)

lemma try_send_sel [simp]:
  "ch_cap (fst (try_send x c)) = ch_cap c" "ch_closed (fst (try_send x c)) = ch_closed c"
  by (auto simp: try_send_def chan_send_def)

lemma set_try_send: "set (ch_items (fst (try_send x c))) \<subseteq> insert x (set (ch_items c))"
  by (auto simp: try_send_def chan_send_def)

section \<open>Loops that empty a queue\<close>

text \<open>
  A loop whose turn takes some packets off a queue and writes something for each: \<open>step\<close> is one
  turn, \<open>spec\<close> what has to be written for a sequence of packets. However the turns cut the
  queue into batches, repeating them writes what \<open>spec\<close> says for the whole queue.
\<close>

locale queue_writer =
  fixes step :: "'a chan \<Rightarrow> ('b list \<times> 'a chan) option" and spec :: "'a list \<Rightarrow> 'b list"
  assumes idle: "step ch = None \<longleftrightarrow> ch_items ch = []"
    and takes: "step ch = Some (out, ch') \<Longrightarrow> \<exists>pre. pre \<noteq> [] \<and> ch_items ch = pre @ ch_items ch' \<and> out = spec pre"
    and spec_append: "spec (xs @ ys) = spec xs @ spec ys"
begin

function run :: "'a chan \<Rightarrow> 'b list" where
  "run ch = (case step ch of None \<Rightarrow> [] | Some (out, ch') \<Rightarrow> out @ run ch')"
  by pat_completeness auto

termination
  by (relation "measure (\<lambda>ch. length (ch_items ch))") (auto dest: takes)

declare run.simps [simp del]

lemma spec_Nil: "spec [] = []"
  using spec_append [of "[]" "[]"] by simp

lemma run_spec: "run ch = spec (ch_items ch)"
proof (induction ch rule: run.induct)
  case (1 ch)
  show ?case
  proof (cases "step ch")
    case None
    then have "ch_items ch = []" using idle by blast
    with None show ?thesis by (simp add: run.simps [of ch] spec_Nil)
  next
    case (Some r)
    then obtain out ch' where s: "step ch = Some (out, ch')" by (cases r) auto
    obtain pre where "ch_items ch = pre @ ch_items ch'" "out = spec pre" using takes [OF s] by blast
    then show ?thesis using s 1 [OF s refl] by (simp add: run.simps [of ch] spec_append)
  qed
qed

end

end
