(* ===== verification/Noise.thy ===== *)
theory Noise
  imports Packet GoMap GoChan
begin

text \<open>
  \<^verbatim>\<open>internal/protocol/noise.go\<close>: the Noise sessions of a client. A session is created
  by the initiator with a queue of packets waiting for the key, or by the responder with its
  keys at once; the manager keeps one session per peer address in a copy-on-write table and
  resolves simultaneous handshakes by comparing addresses. The Noise library
  (\<^verbatim>\<open>github.com/flynn/noise\<close>) is a parameter.
\<close>

section \<open>The Noise library parameter\<close>

text \<open>
  \<open>'h\<close> is the library's handshake state. A handshake state is made from the static key
  pair, the peer's static key (initiator) and fresh randomness. Reading or writing a message
  changes it and returns the two transport keys when the handshake is complete, in the same
  order on both sides. \<open>nl_aead\<close> is \<^verbatim>\<open>chacha20poly1305.New\<close>.
\<close>

type_synonym keys = "bytes \<times> bytes"

record 'h noise_lib =
  nl_initiator :: "keys \<Rightarrow> bytes \<Rightarrow> nat \<Rightarrow> 'h"
  nl_responder :: "keys \<Rightarrow> nat \<Rightarrow> 'h"
  nl_write :: "'h \<Rightarrow> 'h \<times> (bytes \<times> keys option) result"
  nl_read :: "'h \<Rightarrow> bytes \<Rightarrow> 'h \<times> (keys option) result"
  nl_aead :: "bytes \<Rightarrow> aead result"

section \<open>Sessions\<close>

record 'h NoiseSession =
  remoteVip :: ip4
  ns_Cipher :: Cipher
  ns_hs :: "'h option"
  isInitiator :: bool
  lastSeen :: int
  pendingChan :: "bytes chan"
  pendingClosed :: bool

definition NewNoiseSession :: "ip4 \<Rightarrow> bool \<Rightarrow> 'h option \<Rightarrow> int \<Rightarrow> 'h NoiseSession" where
  "NewNoiseSession vip initiator hs now =
     \<lparr>remoteVip = vip, ns_Cipher = NewChaCha, ns_hs = hs, isInitiator = initiator, lastSeen = now,
      pendingChan = make_chan 24, pendingClosed = False\<rparr>"

definition UpdateLastSeen :: "int \<Rightarrow> 'h NoiseSession \<Rightarrow> 'h NoiseSession" where
  "UpdateLastSeen now s = s\<lparr>lastSeen := now\<rparr>"

definition isTimeout :: "int \<Rightarrow> int \<Rightarrow> 'h NoiseSession \<Rightarrow> bool" where
  "isTimeout timeout now s \<longleftrightarrow> now - lastSeen s > timeout"

text \<open>\<open>None\<close> is a panic of the goroutine: closing a closed channel or sending on one.\<close>

definition closePending :: "'h NoiseSession \<Rightarrow> 'h NoiseSession option" where
  "closePending s =
     (let s = s\<lparr>pendingClosed := True\<rparr> in
      case chan_close (pendingChan s) of None \<Rightarrow> None | Some c \<Rightarrow> Some (s\<lparr>pendingChan := c\<rparr>))"

text \<open>
  \<open>AddPendingData\<close> first reads the closed flag and then sends; the two halves are separate
  atomic steps of the goroutine.
\<close>

definition pending_check :: "'h NoiseSession \<Rightarrow> bool" where
  "pending_check s \<longleftrightarrow> \<not> pendingClosed s"

definition pending_send :: "bytes \<Rightarrow> 'h NoiseSession \<Rightarrow> 'h NoiseSession option" where
  "pending_send data s =
     (case chan_send data (pendingChan s) of
        Sent c \<Rightarrow> Some (s\<lparr>pendingChan := c\<rparr>)
      | WouldBlock \<Rightarrow> Some s
      | SendPanic \<Rightarrow> None)"

definition AddPendingData :: "bytes \<Rightarrow> 'h NoiseSession \<Rightarrow> 'h NoiseSession option" where
  "AddPendingData data s = (if \<not> pending_check s then Some s else pending_send data s)"

text \<open>
  Ranging over the closed channel: everything in it moves, in order, to the queue of the TUN
  side. The blocking send waits for room there, so nothing is dropped.
\<close>

fun drain_into :: "bytes list \<Rightarrow> bytes list \<Rightarrow> bytes list" where
  "drain_into [] recv = recv"
| "drain_into (data # rest) recv = drain_into rest (recv @ [data])"

definition SendAllPendingData :: "'h NoiseSession \<Rightarrow> bytes list \<Rightarrow> 'h NoiseSession \<times> bytes list" where
  "SendAllPendingData s recv =
     (s\<lparr>pendingChan := (pendingChan s)\<lparr>ch_items := []\<rparr>\<rparr>, drain_into (ch_items (pendingChan s)) recv)"

lemma drain_into_append [simp]: "drain_into xs recv = recv @ xs"
  by (induction xs recv rule: drain_into.induct) auto

section \<open>The manager\<close>

record 'h NoiseManager =
  tunChan :: "bytes list"
  myVip :: ip4
  static_key :: keys
  sessions :: "(ip4, 'h NoiseSession) gomap"

definition NewNoiseManager :: "keys \<Rightarrow> 'h NoiseManager" where
  "NewNoiseManager keypair = \<lparr>tunChan = [], myVip = ip4_zero, static_key = keypair, sessions = []\<rparr>"

definition SetVirtualIp :: "ip4 \<Rightarrow> 'h NoiseManager \<Rightarrow> 'h NoiseManager" where
  "SetVirtualIp vip m = m\<lparr>myVip := vip\<rparr>"

definition GetPublicKey :: "'h NoiseManager \<Rightarrow> bytes" where
  "GetPublicKey m = snd (static_key m)"

definition GetSession :: "'h NoiseManager \<Rightarrow> ip4 \<Rightarrow> 'h NoiseSession option" where
  "GetSession m key = gm_get (sessions m) key"

definition SetSession :: "ip4 \<Rightarrow> 'h NoiseSession \<Rightarrow> 'h NoiseManager \<Rightarrow> 'h NoiseManager" where
  "SetSession key value m = m\<lparr>sessions := gm_set key value (gm_copy (sessions m))\<rparr>"

definition DeleteSession :: "ip4 \<Rightarrow> 'h NoiseManager \<Rightarrow> 'h NoiseManager" where
  "DeleteSession key m = m\<lparr>sessions := gm_copy_except key (sessions m)\<rparr>"

text \<open>A change of a session that is reached through its pointer, without a new snapshot.\<close>

definition session_write :: "ip4 \<Rightarrow> 'h NoiseSession \<Rightarrow> 'h NoiseManager \<Rightarrow> 'h NoiseManager" where
  "session_write key s m = m\<lparr>sessions := gm_set key s (sessions m)\<rparr>"

definition HandshakeInit :: "'h noise_lib \<Rightarrow> nat \<Rightarrow> int \<Rightarrow> ip4 \<Rightarrow> bytes \<Rightarrow> bytes \<Rightarrow> 'h NoiseManager \<Rightarrow>
    ('h NoiseManager \<times> bytes result) option" where
  "HandshakeInit nl rnd now vip remotePub payload m =
     (let hs = nl_initiator nl (static_key m) remotePub rnd;
          session = NewNoiseSession vip True (Some hs) now
      in case AddPendingData payload session of
           None \<Rightarrow> None
         | Some session \<Rightarrow>
             let m = SetSession vip session m;
                 (hs, r) = nl_write nl hs;
                 m = session_write vip (session\<lparr>ns_hs := Some hs\<rparr>) m
             in Some (m, case r of Inl err \<Rightarrow> Inl err | Inr (msg, _) \<Rightarrow> Inr msg))"

text \<open>
  The results of the two packet handlers: the session and the response, or an error. \<open>None\<close>
  around it is a panic: a nil cipher state, a failing \<^verbatim>\<open>New\<close> or a double close.
\<close>

datatype 'h handled = Handled "'h NoiseSession option" "bytes option" | Failed error

definition handleResponderFirst :: "'h noise_lib \<Rightarrow> nat \<Rightarrow> int \<Rightarrow> ip4 \<Rightarrow> bytes \<Rightarrow> 'h NoiseManager \<Rightarrow>
    ('h NoiseManager \<times> 'h handled) option" where
  "handleResponderFirst nl rnd now srcVip data m =
     (let hs = nl_responder nl (static_key m) rnd in
      case nl_read nl hs data of
        (_, Inl err) \<Rightarrow> Some (m, Failed err)
      | (hs, Inr _) \<Rightarrow>
          (case nl_write nl hs of
             (_, Inr (responseMsg, Some (csSend, csRecv))) \<Rightarrow>
               let session = NewNoiseSession srcVip False None now in
               (case Init (nl_aead nl) csRecv csSend (ns_Cipher session) of
                  None \<Rightarrow> None
                | Some cipher \<Rightarrow>
                    (case closePending (session\<lparr>ns_Cipher := cipher\<rparr>) of
                       None \<Rightarrow> None
                     | Some session \<Rightarrow>
                         let m = SetSession srcVip session m;
                             (session, queue) = SendAllPendingData session (tunChan m);
                             m = session_write srcVip session (m\<lparr>tunChan := queue\<rparr>)
                         in Some (m, Handled (Some session) (Some responseMsg))))
           | _ \<Rightarrow> None))"

definition HandleNoisePacket :: "'h noise_lib \<Rightarrow> nat \<Rightarrow> int \<Rightarrow> ip4 \<Rightarrow> bytes \<Rightarrow> 'h NoiseManager \<Rightarrow>
    ('h NoiseManager \<times> 'h handled) option" where
  "HandleNoisePacket nl rnd now srcVip data m =
     (case GetSession m srcVip of
        None \<Rightarrow> handleResponderFirst nl rnd now srcVip data m
      | Some session \<Rightarrow>
          if IsReady (ns_Cipher session) then Some (m, Handled (Some session) None)
          else if \<not> IsReady (ns_Cipher session) \<and> isInitiator session \<and> length data \<ge> 64 then
            if bytes_Compare (ip4_bytes (myVip m)) (ip4_bytes srcVip) > 0 then
              handleResponderFirst nl rnd now srcVip data m
            else Some (m, Failed (New ''noise: collision, wait for peer response''))
          else if isInitiator session then
            (case ns_hs session of
               None \<Rightarrow> None
             | Some hs \<Rightarrow>
                 (case nl_read nl hs data of
                    (hs, Inl err) \<Rightarrow> Some (session_write srcVip (session\<lparr>ns_hs := Some hs\<rparr>) m, Failed err)
                  | (hs, Inr (Some (csRecv, csSend))) \<Rightarrow>
                      (case Init (nl_aead nl) csRecv csSend (ns_Cipher session) of
                         None \<Rightarrow> None
                       | Some cipher \<Rightarrow>
                           (case closePending (session\<lparr>ns_Cipher := cipher, ns_hs := None\<rparr>) of
                              None \<Rightarrow> None
                            | Some session \<Rightarrow>
                                let (session, queue) = SendAllPendingData session (tunChan m);
                                    m = session_write srcVip session (m\<lparr>tunChan := queue\<rparr>)
                                in Some (m, Handled None None)))
                  | (hs, Inr None) \<Rightarrow> None))
          else Some (m, Failed (New ''noise: invalid state'')))"

fun sweep_loop :: "int \<Rightarrow> int \<Rightarrow> (ip4, 'h NoiseSession) gomap \<Rightarrow> (ip4, 'h NoiseSession) gomap \<times> bool \<Rightarrow>
    (ip4, 'h NoiseSession) gomap \<times> bool" where
  "sweep_loop timeout now [] acc = acc"
| "sweep_loop timeout now ((k, v) # old) (new, changed) =
     (if isTimeout timeout now v then sweep_loop timeout now old (new, True)
      else sweep_loop timeout now old (gm_set k v new, changed))"

definition sweepSessions :: "int \<Rightarrow> int \<Rightarrow> 'h NoiseManager \<Rightarrow> 'h NoiseManager" where
  "sweepSessions timeout now m =
     (case sweep_loop timeout now (sessions m) ([], False) of (new, changed) \<Rightarrow>
        if changed then m\<lparr>sessions := new\<rparr> else m)"

text \<open>\<open>CheckSession\<close> sweeps with a timeout of ten seconds at every tick.\<close>

fun CheckSession :: "int list \<Rightarrow> 'h NoiseManager \<Rightarrow> 'h NoiseManager" where
  "CheckSession [] m = m"
| "CheckSession (tick # ticks) m = CheckSession ticks (sweepSessions 10 tick m)"

section \<open>The session table\<close>

lemmas noise_state_defs = SetSession_def DeleteSession_def GetSession_def session_write_def

lemma manager_frame [simp]:
  "tunChan (SetSession k s m) = tunChan m" "myVip (SetSession k s m) = myVip m"
  "static_key (SetSession k s m) = static_key m"
  "tunChan (session_write k s m) = tunChan m" "myVip (session_write k s m) = myVip m"
  "static_key (session_write k s m) = static_key m"
  by (simp_all add: noise_state_defs)

interpretation noise_tab: cow_table GetSession SetSession DeleteSession "\<lambda>m. gm_wf (sessions m)"
  by unfold_locales (auto simp: noise_state_defs)

lemma session_write_get [simp]:
  "GetSession (session_write k s m) k' = (if k' = k then Some s else GetSession m k')"
  by (simp add: noise_state_defs)

lemma session_write_wf [simp]: "gm_wf (sessions m) \<Longrightarrow> gm_wf (sessions (session_write k s m))"
  by (auto simp: noise_state_defs)

lemma GetSession_tun [simp]: "GetSession (m\<lparr>tunChan := q\<rparr>) k = GetSession m k"
  by (simp add: GetSession_def)

text \<open>
  The session table as its readers see it: after any history of \<open>SetSession\<close> and
  \<open>DeleteSession\<close> calls, a lookup returns the last value stored for its key (nothing if the
  last call removed it), independent of every other key.
\<close>

lemma session_table_history:
  assumes "gm_wf (sessions m)"
  shows "GetSession (noise_tab.replay h m) k =
    (case map_of (rev h) k of None \<Rightarrow> GetSession m k | Some w \<Rightarrow> w)"
  using assms by (rule noise_tab.replay_get)

section \<open>Invariant of the sessions\<close>

text \<open>
  A session without its keys was started by this client, waits with its handshake state and
  has an open queue; a session with its keys has both directions and a closed queue.
\<close>

definition session_inv :: "'h NoiseSession \<Rightarrow> bool" where
  "session_inv s \<longleftrightarrow>
     (if IsReady (ns_Cipher s) then
        Recver (ns_Cipher s) \<noteq> None \<and> Sender (ns_Cipher s) \<noteq> None \<and> pendingClosed s \<and> ch_closed (pendingChan s)
      else isInitiator s \<and> ns_hs s \<noteq> None \<and> \<not> pendingClosed s \<and> chan_open (pendingChan s))"

definition noise_inv :: "'h NoiseManager \<Rightarrow> bool" where
  "noise_inv m \<longleftrightarrow> gm_wf (sessions m) \<and> (\<forall>k s. GetSession m k = Some s \<longrightarrow> session_inv s)"

lemma noise_inv_wf: "noise_inv m \<Longrightarrow> gm_wf (sessions m)"
  by (simp add: noise_inv_def)

lemma noise_inv_get: "noise_inv m \<Longrightarrow> GetSession m k = Some s \<Longrightarrow> session_inv s"
  by (simp add: noise_inv_def)

lemma noise_inv_write: "noise_inv m \<Longrightarrow> session_inv s \<Longrightarrow> noise_inv (session_write k s m)"
  by (auto simp: noise_inv_def split: if_splits)

lemma noise_inv_set: "noise_inv m \<Longrightarrow> session_inv s \<Longrightarrow> noise_inv (SetSession k s m)"
  by (auto simp: noise_inv_def noise_tab.get_put noise_tab.ok_put split: if_splits)

lemma noise_inv_delete: "noise_inv m \<Longrightarrow> noise_inv (DeleteSession k m)"
  by (auto simp: noise_inv_def noise_tab.get_del noise_tab.ok_del split: if_splits)

lemma noise_inv_tun [simp]: "noise_inv (m\<lparr>tunChan := q\<rparr>) \<longleftrightarrow> noise_inv m"
  by (simp add: noise_inv_def)

text \<open>Sending to the queue of a session that is not closed never panics.\<close>

lemma AddPendingData_open:
  assumes "\<not> pendingClosed s" and "chan_open (pendingChan s)"
  shows "AddPendingData data s = Some (s\<lparr>pendingChan := fst (try_send data (pendingChan s))\<rparr>)"
  using assms
  by (auto simp: AddPendingData_def pending_check_def pending_send_def try_send_def chan_send_def chan_open_def)

lemma AddPendingData_new:
  "AddPendingData data (NewNoiseSession vip True (Some hs) now) =
     Some ((NewNoiseSession vip True (Some hs) now)\<lparr>pendingChan := (make_chan 24)\<lparr>ch_items := [data]\<rparr>\<rparr>)"
  by (simp add: NewNoiseSession_def AddPendingData_def pending_check_def pending_send_def chan_send_def)

lemma AddPendingData_inv:
  "session_inv s \<Longrightarrow> AddPendingData data s = Some s' \<Longrightarrow> session_inv s'"
  by (auto simp: session_inv_def AddPendingData_def pending_check_def pending_send_def chan_send_def
      chan_open_def split: if_splits)

lemma HandshakeInit_eq:
  assumes "nl_write nl (nl_initiator nl (static_key m) pub rnd) = (h, r)"
  shows "HandshakeInit nl rnd now vip pub payload m =
    (let s = (NewNoiseSession vip True (Some (nl_initiator nl (static_key m) pub rnd)) now)
               \<lparr>pendingChan := (make_chan 24)\<lparr>ch_items := [payload]\<rparr>\<rparr>
     in Some (session_write vip (s\<lparr>ns_hs := Some h\<rparr>) (SetSession vip s m),
              case r of Inl err \<Rightarrow> Inl err | Inr (msg, _) \<Rightarrow> Inr msg))"
  using assms by (simp add: HandshakeInit_def AddPendingData_new Let_def)

section \<open>The handlers\<close>

lemma closePending_open:
  "\<not> ch_closed (pendingChan s) \<Longrightarrow>
     closePending s = Some (s\<lparr>pendingClosed := True, pendingChan := (pendingChan s)\<lparr>ch_closed := True\<rparr>\<rparr>)"
  by (simp add: closePending_def chan_close_def)

text \<open>The session a responder stores, given the two transport keys.\<close>

definition responder_session :: "ip4 \<Rightarrow> int \<Rightarrow> Cipher \<Rightarrow> 'h NoiseSession" where
  "responder_session vip now c =
     (NewNoiseSession vip False None now)\<lparr>ns_Cipher := c, pendingClosed := True,
        pendingChan := (make_chan 24)\<lparr>ch_closed := True\<rparr>\<rparr>"

lemma responder_session_sel [simp]:
  "ns_Cipher (responder_session vip now c) = c" "pendingClosed (responder_session vip now c)"
  "ch_closed (pendingChan (responder_session vip now c))" "ch_items (pendingChan (responder_session vip now c)) = []"
  "lastSeen (responder_session vip now c) = now"
  by (simp_all add: responder_session_def NewNoiseSession_def)

lemma Init_inv: "Init na rk sk c = Some c' \<Longrightarrow> IsReady c' \<and> Recver c' \<noteq> None \<and> Sender c' \<noteq> None"
  using Init_ready [of na rk sk c c'] by auto

lemma handleResponderFirst_cases:
  assumes "handleResponderFirst nl rnd now src data m = Some (m', r)"
  obtains err where "m' = m" "r = Failed err"
      "snd (nl_read nl (nl_responder nl (static_key m) rnd) data) = Inl err"
  | h ks h' resp send recv c where
      "nl_read nl (nl_responder nl (static_key m) rnd) data = (h, Inr ks)"
      "nl_write nl h = (h', Inr (resp, Some (send, recv)))"
      "Init (nl_aead nl) recv send NewChaCha = Some c"
      "m' = session_write src (responder_session src now c) (SetSession src (responder_session src now c) m)"
      "r = Handled (Some (responder_session src now c)) (Some resp)"
proof (cases "nl_read nl (nl_responder nl (static_key m) rnd) data")
  case (Pair h rr)
  show thesis
  proof (cases rr)
    case (Inl err)
    then show thesis using assms Pair that(1) by (auto simp: handleResponderFirst_def)
  next
    case (Inr ks)
    then obtain h' resp send recv where w: "nl_write nl h = (h', Inr (resp, Some (send, recv)))"
      using assms Pair
      by (auto simp: handleResponderFirst_def split: prod.splits sum.splits option.splits)
    then obtain c where c: "Init (nl_aead nl) recv send NewChaCha = Some c"
      using assms Pair Inr
      by (auto simp: handleResponderFirst_def NewNoiseSession_def split: option.splits)
    have "SetSession src (responder_session src now c) m\<lparr>tunChan := tunChan m\<rparr> = SetSession src (responder_session src now c) m"
      by (simp add: SetSession_def)
    then show thesis
      using assms Pair Inr w c that(2) [OF _ w c]
      by (simp add: handleResponderFirst_def NewNoiseSession_def closePending_def chan_close_def
          SendAllPendingData_def responder_session_def make_chan_def)
  qed
qed

lemma handleResponderFirst_inv:
  assumes "noise_inv m" and "handleResponderFirst nl rnd now src data m = Some (m', r)"
  shows "noise_inv m'" and "tunChan m' = tunChan m"
    and "k \<noteq> src \<Longrightarrow> GetSession m' k = GetSession m k"
proof -
  show "noise_inv m'"
    using assms(2)
    by (cases rule: handleResponderFirst_cases)
      (use assms(1) in \<open>auto intro!: noise_inv_write noise_inv_set simp: session_inv_def dest: Init_inv\<close>)
  show "tunChan m' = tunChan m"
    using assms(2) by (cases rule: handleResponderFirst_cases) auto
  show "k \<noteq> src \<Longrightarrow> GetSession m' k = GetSession m k"
    using assms(2)
    by (cases rule: handleResponderFirst_cases) (auto simp: noise_tab.get_put noise_inv_wf [OF assms(1)])
qed

text \<open>The initiator's session once the response has been read.\<close>

definition finished_session :: "'h NoiseSession \<Rightarrow> Cipher \<Rightarrow> 'h NoiseSession" where
  "finished_session s c =
     s\<lparr>ns_Cipher := c, ns_hs := None, pendingClosed := True,
       pendingChan := (pendingChan s)\<lparr>ch_closed := True, ch_items := []\<rparr>\<rparr>"

lemma finished_session_sel [simp]:
  "ns_Cipher (finished_session s c) = c" "pendingClosed (finished_session s c)"
  "ch_closed (pendingChan (finished_session s c))" "ch_items (pendingChan (finished_session s c)) = []"
  by (simp_all add: finished_session_def)

lemma HandleNoisePacket_response:
  assumes "GetSession m src = Some s" and "\<not> IsReady (ns_Cipher s)" and "isInitiator s"
    and "length data < 64" and "ns_hs s = Some h" and "nl_read nl h data = (h', Inr (Some (k1, k2)))"
    and "Init (nl_aead nl) k1 k2 (ns_Cipher s) = Some c" and "\<not> ch_closed (pendingChan s)"
  shows "HandleNoisePacket nl rnd now src data m =
    Some (session_write src (finished_session s c) (m\<lparr>tunChan := tunChan m @ ch_items (pendingChan s)\<rparr>),
          Handled None None)"
  using assms
  by (simp add: HandleNoisePacket_def closePending_def chan_close_def SendAllPendingData_def finished_session_def)

lemma HandleNoisePacket_none:
  "GetSession m src = None \<Longrightarrow>
     HandleNoisePacket nl rnd now src data m = handleResponderFirst nl rnd now src data m"
  by (simp add: HandleNoisePacket_def)

lemma HandleNoisePacket_ready:
  "GetSession m src = Some s \<Longrightarrow> IsReady (ns_Cipher s) \<Longrightarrow>
     HandleNoisePacket nl rnd now src data m = Some (m, Handled (Some s) None)"
  by (simp add: HandleNoisePacket_def)

lemma HandleNoisePacket_collision:
  assumes "GetSession m src = Some s" and "\<not> IsReady (ns_Cipher s)" and "isInitiator s" and "64 \<le> length data"
  shows "HandleNoisePacket nl rnd now src data m =
    (if src < myVip m then handleResponderFirst nl rnd now src data m
     else Some (m, Failed (New ''noise: collision, wait for peer response'')))"
  using assms by (simp add: HandleNoisePacket_def bytes_Compare_greater_iff)

lemma HandleNoisePacket_bad:
  assumes "GetSession m src = Some s" and "\<not> IsReady (ns_Cipher s)" and "isInitiator s" and "length data < 64"
    and "ns_hs s = Some h" and "nl_read nl h data = (h', Inl err)"
  shows "HandleNoisePacket nl rnd now src data m =
    Some (session_write src (s\<lparr>ns_hs := Some h'\<rparr>) m, Failed err)"
  using assms by (simp add: HandleNoisePacket_def)

lemma HandleNoisePacket_cases:
  assumes "noise_inv m" and "HandleNoisePacket nl rnd now src data m = Some (m', r)"
  obtains (responder) "handleResponderFirst nl rnd now src data m = Some (m', r)"
  | (ready) s where "GetSession m src = Some s" "IsReady (ns_Cipher s)" "m' = m" "r = Handled (Some s) None"
  | (collision) s where "GetSession m src = Some s" "\<not> IsReady (ns_Cipher s)" "length data \<ge> 64"
      "\<not> src < myVip m" "m' = m" "r = Failed (New ''noise: collision, wait for peer response'')"
  | (bad) s h0 h err where "GetSession m src = Some s" "\<not> IsReady (ns_Cipher s)"
      "ns_hs s = Some h0" "nl_read nl h0 data = (h, Inl err)" "m' = session_write src (s\<lparr>ns_hs := Some h\<rparr>) m" "r = Failed err"
  | (finish) s h h' k1 k2 c where "GetSession m src = Some s" "\<not> IsReady (ns_Cipher s)"
      "ns_hs s = Some h" "nl_read nl h data = (h', Inr (Some (k1, k2)))"
      "Init (nl_aead nl) k1 k2 (ns_Cipher s) = Some c"
      "m' = session_write src (finished_session s c) (m\<lparr>tunChan := tunChan m @ ch_items (pendingChan s)\<rparr>)"
      "r = Handled None None"
proof (cases "GetSession m src")
  case None
  with assms(2) show thesis by (intro that(1)) (simp add: HandleNoisePacket_none)
next
  case (Some s)
  have inv: "session_inv s" using assms(1) Some by (rule noise_inv_get)
  show thesis
  proof (cases "IsReady (ns_Cipher s)")
    case True
    with assms(2) Some show thesis by (intro that(2)) (auto simp: HandleNoisePacket_ready)
  next
    case False
    with inv obtain h where h: "isInitiator s" "ns_hs s = Some h" "\<not> ch_closed (pendingChan s)"
      by (auto simp: session_inv_def chan_open_def)
    consider "64 \<le> length data" "src < myVip m" | "64 \<le> length data" "\<not> src < myVip m" | "length data < 64"
      by linarith
    then show thesis
    proof cases
      case 1
      with assms(2) Some False h show thesis by (intro that(1)) (simp add: HandleNoisePacket_collision)
    next
      case 2
      with assms(2) Some False h show thesis by (intro that(3)) (auto simp: HandleNoisePacket_collision)
    next
      case 3
      obtain h' rr where rd: "nl_read nl h data = (h', rr)" by (cases "nl_read nl h data")
      show thesis
      proof (cases rr)
        case (Inl err)
        with assms(2) Some False h 3 rd show thesis
          by (intro that(4)) (auto simp: HandleNoisePacket_bad)
      next
        case (Inr ks)
        then obtain k1 k2 c where k: "rr = Inr (Some (k1, k2))" "Init (nl_aead nl) k1 k2 (ns_Cipher s) = Some c"
          using assms(2) Some False h 3 rd
          by (simp add: HandleNoisePacket_def split: option.splits prod.splits)
        with assms(2) Some False h 3 rd show thesis
          by (intro that(5)) (auto simp: HandleNoisePacket_response)
      qed
    qed
  qed
qed

section \<open>Sweeping idle sessions\<close>

lemma sweep_loop_eq:
  "gm_wf old \<Longrightarrow> fst ` set new \<inter> fst ` set old = {} \<Longrightarrow>
     sweep_loop timeout now old (new, ch) =
       (new @ filter (\<lambda>(k, v). \<not> isTimeout timeout now v) old,
        ch \<or> (\<exists>(k, v) \<in> set old. isTimeout timeout now v))"
proof (induction timeout now old "(new, ch)" arbitrary: new ch rule: sweep_loop.induct)
  case (2 timeout now k v old new changed)
  show ?case
  proof (cases "isTimeout timeout now v")
    case True
    with 2 show ?thesis by (auto simp: gm_wf_def)
  next
    case False
    have "gm_set k v new = new @ [(k, v)]" using 2 by (intro gm_set_fresh) auto
    with False 2 show ?thesis by (auto simp: gm_wf_def)
  qed
qed simp

lemma map_of_filter_value:
  "gm_wf m \<Longrightarrow> map_of (filter (\<lambda>(k, v). P v) m) k = (case map_of m k of Some v \<Rightarrow> if P v then Some v else None | None \<Rightarrow> None)"
  by (induction m) (auto simp: gm_wf_def map_of_eq_None_iff rev_image_eqI split: option.splits)

lemma sweepSessions_eq:
  assumes "gm_wf (sessions m)"
  shows "sweepSessions timeout now m = m\<lparr>sessions := filter (\<lambda>(k, v). \<not> isTimeout timeout now v) (sessions m)\<rparr>"
proof -
  have "filter (\<lambda>(k, v). \<not> isTimeout timeout now v) (sessions m) = sessions m"
    if "\<not> (\<exists>(k, v) \<in> set (sessions m). isTimeout timeout now v)"
    using that by (auto simp: filter_id_conv)
  then show ?thesis
    using assms by (cases m) (auto simp: sweepSessions_def sweep_loop_eq)
qed

interpretation noise_sweep: expiring_table GetSession "sweepSessions timeout" "isTimeout timeout" "\<lambda>m. gm_wf (sessions m)"
  for timeout
proof unfold_locales
  fix s :: "'h NoiseManager" and t k assume wf: "gm_wf (sessions s)"
  then show "GetSession (sweepSessions timeout t s) k =
      (case GetSession s k of None \<Rightarrow> None | Some v \<Rightarrow> if isTimeout timeout t v then None else Some v)"
    by (auto simp: sweepSessions_eq GetSession_def map_of_filter_value split: option.splits)
  from wf show "gm_wf (sessions (sweepSessions timeout t s))"
    by (simp add: sweepSessions_eq gm_wf_def distinct_map_filter)
qed (simp add: isTimeout_def)

lemma CheckSession_sweeps: "CheckSession ticks m = noise_sweep.sweeps 10 ticks m"
  by (induction ticks arbitrary: m) auto

text \<open>
  The session cleaner: after any number of ticks at non-decreasing times, the table holds
  exactly the sessions of the original table that were seen within the ten seconds before the
  last tick, unchanged.
\<close>

lemma CheckSession_keeps_recent:
  assumes "gm_wf (sessions m)" and "sorted (ticks @ [t])"
  shows "GetSession (CheckSession (ticks @ [t]) m) k =
    (case GetSession m k of None \<Rightarrow> None | Some s \<Rightarrow> if t - lastSeen s > 10 then None else Some s)"
  using assms
  by (simp add: CheckSession_sweeps noise_sweep.sweeps_last noise_sweep.get_sweep isTimeout_def split: option.splits)

section \<open>Every reachable manager satisfies the invariant\<close>

text \<open>
  The steps of a client's manager: starting a handshake, handling a packet (from anyone, with
  any bytes), queueing data on a session, touching a session, sealing a packet with it, a sweep,
  and a new address.
\<close>

inductive noise_step :: "'h noise_lib \<Rightarrow> 'h NoiseManager \<Rightarrow> 'h NoiseManager \<Rightarrow> bool" for nl where
  init: "HandshakeInit nl rnd now vip pub payload m = Some (m', r) \<Longrightarrow> noise_step nl m m'"
| packet: "HandleNoisePacket nl rnd now src data m = Some (m', h) \<Longrightarrow> noise_step nl m m'"
| queue: "GetSession m k = Some s \<Longrightarrow> AddPendingData data s = Some s' \<Longrightarrow> noise_step nl m (session_write k s' m)"
| touch: "GetSession m k = Some s \<Longrightarrow> noise_step nl m (session_write k (UpdateLastSeen now s) m)"
| seal: "GetSession m k = Some s \<Longrightarrow> Sender (ns_Cipher s) \<noteq> None \<Longrightarrow>
    noise_step nl m (session_write k (s\<lparr>ns_Cipher := (ns_Cipher s)\<lparr>Sender := Some cs\<rparr>\<rparr>) m)"
| sweep: "noise_step nl m (sweepSessions timeout now m)"
| rename: "noise_step nl m (SetVirtualIp vip m)"

lemma HandshakeInit_inv:
  assumes "noise_inv m" and "HandshakeInit nl rnd now vip pub payload m = Some (m', r)"
  shows "noise_inv m'"
proof -
  obtain h rr where w: "nl_write nl (nl_initiator nl (static_key m) pub rnd) = (h, rr)"
    by (cases "nl_write nl (nl_initiator nl (static_key m) pub rnd)")
  have "session_inv ((NewNoiseSession vip True (Some h') now)\<lparr>pendingChan := (make_chan 24)\<lparr>ch_items := [payload]\<rparr>\<rparr>)" for h'
    by (simp add: session_inv_def NewNoiseSession_def chan_open_def)
  from this [of h] this [of "nl_initiator nl (static_key m) pub rnd"] assms show ?thesis
    using HandshakeInit_eq [OF w, of now vip payload]
    by (auto simp: Let_def NewNoiseSession_def intro!: noise_inv_write noise_inv_set)
qed

lemma finished_inv: "Init na k1 k2 c0 = Some c \<Longrightarrow> session_inv (finished_session s c)"
  using Init_inv [of na k1 k2 c0 c] by (simp add: session_inv_def)

lemma HandleNoisePacket_inv:
  assumes "noise_inv m" and "HandleNoisePacket nl rnd now src data m = Some (m', r)"
  shows "noise_inv m'"
  using assms
proof (cases rule: HandleNoisePacket_cases)
  case responder
  then show ?thesis using assms(1) handleResponderFirst_inv by blast
next
  case (bad s h0 h err)
  then have "session_inv (s\<lparr>ns_hs := Some h\<rparr>)"
    using noise_inv_get [OF assms(1), of src s] by (simp add: session_inv_def)
  then show ?thesis using bad assms(1) by (simp add: noise_inv_write)
next
  case (finish s h h' k1 k2 c)
  then show ?thesis using assms(1) finished_inv [OF finish(5)] by (auto intro!: noise_inv_write)
qed (use assms in auto)

lemma noise_step_inv: "noise_step nl m m' \<Longrightarrow> noise_inv m \<Longrightarrow> noise_inv m'"
proof (induction rule: noise_step.induct)
  case (queue m k s data s')
  then show ?case
    using AddPendingData_inv [of s data s'] noise_inv_get [of m k s] by (simp add: noise_inv_write)
next
  case (touch m k s now)
  then have "session_inv (UpdateLastSeen now s)"
    using noise_inv_get [of m k s] by (simp add: session_inv_def UpdateLastSeen_def)
  then show ?case using touch by (simp add: noise_inv_write)
next
  case (seal m k s cs)
  then have "session_inv (s\<lparr>ns_Cipher := (ns_Cipher s)\<lparr>Sender := Some cs\<rparr>\<rparr>)"
    using noise_inv_get [of m k s] by (simp add: session_inv_def IsReady_def)
  then show ?case using seal by (simp add: noise_inv_write)
next
  case (sweep m timeout now)
  then show ?case
    using noise_sweep.get_sweep [of m timeout now] noise_sweep.ok_sweep [of m timeout now]
    by (auto simp: noise_inv_def split: option.splits if_splits)
next
  case (rename m vip)
  then show ?case by (simp add: SetVirtualIp_def noise_inv_def GetSession_def)
qed (auto intro: HandshakeInit_inv HandleNoisePacket_inv)

lemma noise_inv_new: "noise_inv (NewNoiseManager kp)"
  by (simp add: noise_inv_def NewNoiseManager_def GetSession_def)

interpretation noise_run: preserved "noise_step nl" noise_inv for nl
  by unfold_locales (rule noise_step_inv)

lemma noise_reachable: "(noise_step nl)\<^sup>*\<^sup>* (NewNoiseManager kp) m \<Longrightarrow> noise_inv m"
  using noise_run.reach_inv noise_inv_new by blast


section \<open>Agreement on keys\<close>

text \<open>
  What the Noise IK pattern promises: for key pairs of the library and the responder's true
  public key, the first message has 96 bytes and leaves the handshake open, the responder reads
  it and completes with a reply of 48 bytes, the initiator reads the reply and completes, and
  both sides obtain the same two transport keys, which are valid AEAD keys.
\<close>

definition noise_ok :: "'h noise_lib \<Rightarrow> (keys \<Rightarrow> bool) \<Rightarrow> bool" where
  "noise_ok nl keypair \<longleftrightarrow>
     (\<forall>si sr r r'. keypair si \<longrightarrow> keypair sr \<longrightarrow>
        (\<exists>h1 m1 g1 g2 m2 k1 k2 h2 a1 a2.
           nl_write nl (nl_initiator nl si (snd sr) r) = (h1, Inr (m1, None)) \<and> length m1 = 96 \<and>
           nl_read nl (nl_responder nl sr r') m1 = (g1, Inr None) \<and>
           nl_write nl g1 = (g2, Inr (m2, Some (k1, k2))) \<and> length m2 = 48 \<and>
           nl_read nl h1 m2 = (h2, Inr (Some (k1, k2))) \<and>
           nl_aead nl k1 = Inr a1 \<and> aead_ok a1 \<and> nl_aead nl k2 = Inr a2 \<and> aead_ok a2))"

lemma noise_okE:
  assumes "noise_ok nl keypair" and "keypair si" and "keypair sr"
  obtains h1 m1 g1 g2 m2 k1 k2 h2 a1 a2 where
    "nl_write nl (nl_initiator nl si (snd sr) r) = (h1, Inr (m1, None))" "length m1 = 96"
    "nl_read nl (nl_responder nl sr r') m1 = (g1, Inr None)"
    "nl_write nl g1 = (g2, Inr (m2, Some (k1, k2)))" "length m2 = 48"
    "nl_read nl h1 m2 = (h2, Inr (Some (k1, k2)))"
    "nl_aead nl k1 = Inr a1" "aead_ok a1" "nl_aead nl k2 = Inr a2" "aead_ok a2"
  using assms unfolding noise_ok_def by meson

abbreviation fresh_cipher :: "aead \<Rightarrow> CipherState" where
  "fresh_cipher a \<equiv> \<lparr>cs_aead = a, cs_nonce = 0\<rparr>"

definition session_keys :: "'h NoiseSession \<Rightarrow> aead \<Rightarrow> aead \<Rightarrow> bool" where
  "session_keys s recv send \<longleftrightarrow> IsReady (ns_Cipher s) \<and>
     Recver (ns_Cipher s) = Some (fresh_cipher recv) \<and> Sender (ns_Cipher s) = Some (fresh_cipher send)"

text \<open>Both sides run \<open>Init\<close> with the library's keys, in opposite roles.\<close>

lemma Init_keys:
  assumes "nl_aead nl rk = Inr ar" and "nl_aead nl sk = Inr as"
  shows "\<exists>c. Init (nl_aead nl) rk sk c0 = Some c \<and> IsReady c \<and>
    Recver c = Some (fresh_cipher ar) \<and> Sender c = Some (fresh_cipher as)"
  using assms by (simp add: Init_def cipher_ready_def IsReady_def)

text \<open>The state of an initiator whose first message is out.\<close>

definition awaiting :: "'h NoiseManager \<Rightarrow> ip4 \<Rightarrow> 'h \<Rightarrow> bytes list \<Rightarrow> bool" where
  "awaiting m peer h queue \<longleftrightarrow>
     (\<exists>s. GetSession m peer = Some s \<and> \<not> IsReady (ns_Cipher s) \<and> isInitiator s \<and> ns_hs s = Some h \<and>
          \<not> ch_closed (pendingChan s) \<and> ch_items (pendingChan s) = queue)"

lemma HandshakeInit_awaiting:
  assumes "gm_wf (sessions m)"
    and "nl_write nl (nl_initiator nl (static_key m) pub rnd) = (h, Inr (msg, None))"
  shows "\<exists>m'. HandshakeInit nl rnd now peer pub payload m = Some (m', Inr msg) \<and>
    awaiting m' peer h [payload] \<and> gm_wf (sessions m') \<and> myVip m' = myVip m \<and>
    static_key m' = static_key m \<and> tunChan m' = tunChan m"
  using HandshakeInit_eq [OF assms(2), of now peer payload] assms(1)
  by (auto simp: awaiting_def Let_def NewNoiseSession_def noise_tab.ok_put)

lemma responder_replies:
  assumes "gm_wf (sessions m)"
    and "nl_read nl (nl_responder nl (static_key m) rnd) msg = (g1, Inr None)"
    and "nl_write nl g1 = (g2, Inr (resp, Some (k1, k2)))"
    and "nl_aead nl k1 = Inr a1" and "nl_aead nl k2 = Inr a2"
  shows "\<exists>m' s. handleResponderFirst nl rnd now src msg m = Some (m', Handled (Some s) (Some resp)) \<and>
    GetSession m' src = Some s \<and> session_keys s a2 a1 \<and> tunChan m' = tunChan m \<and> gm_wf (sessions m') \<and> myVip m' = myVip m \<and>
    ch_items (pendingChan s) = []"
proof -
  obtain c where c: "Init (nl_aead nl) k2 k1 NewChaCha = Some c" "IsReady c"
    "Recver c = Some (fresh_cipher a2)" "Sender c = Some (fresh_cipher a1)"
    using Init_keys [OF assms(5,4)] by blast
  obtain m' r where h: "handleResponderFirst nl rnd now src msg m = Some (m', r)"
    using assms(2,3) c
    by (auto simp: handleResponderFirst_def NewNoiseSession_def closePending_def chan_close_def
        SendAllPendingData_def)
  from h show ?thesis
    by (cases rule: handleResponderFirst_cases)
      (use h assms(1-3) c in \<open>auto simp: session_keys_def noise_tab.ok_put\<close>)
qed

lemma awaiting_finishes:
  assumes "awaiting m peer h queue" and "length resp = 48" and "nl_read nl h resp = (h', Inr (Some (k1, k2)))"
    and "nl_aead nl k1 = Inr a1" and "nl_aead nl k2 = Inr a2"
  shows "\<exists>m' s. HandleNoisePacket nl rnd now peer resp m = Some (m', Handled None None) \<and>
    GetSession m' peer = Some s \<and> session_keys s a1 a2 \<and> tunChan m' = tunChan m @ queue \<and>
    (gm_wf (sessions m) \<longrightarrow> gm_wf (sessions m')) \<and> myVip m' = myVip m \<and> static_key m' = static_key m"
proof -
  obtain s where s: "GetSession m peer = Some s" "\<not> IsReady (ns_Cipher s)" "isInitiator s" "ns_hs s = Some h"
    "\<not> ch_closed (pendingChan s)" "ch_items (pendingChan s) = queue"
    using assms(1) by (auto simp: awaiting_def)
  obtain c where c: "Init (nl_aead nl) k1 k2 (ns_Cipher s) = Some c" "IsReady c"
    "Recver c = Some (fresh_cipher a1)" "Sender c = Some (fresh_cipher a2)"
    using Init_keys [OF assms(4,5)] by blast
  have "length resp < 64" using assms(2) by simp
  then show ?thesis
    using HandleNoisePacket_response [OF s(1,2,3) _ s(4) assms(3) c(1) s(5)] c s(6)
    by (auto simp: session_keys_def)
qed

text \<open>
  An undisturbed handshake: when \<open>A\<close> starts a handshake with \<open>B\<close> and \<open>B\<close> has no
  session with \<open>A\<close>, delivering \<open>A\<close>'s message to \<open>B\<close> and \<open>B\<close>'s reply to \<open>A\<close> leaves both
  with a ready session for the other; what one seals with the other opens with (each sender
  state is the peer's receiver state), and the packet that was waiting at \<open>A\<close> has moved to
  its TUN queue.
\<close>

lemma noise_handshake_agrees:
  assumes "noise_ok nl keypair" and "keypair (static_key A)" and "keypair (static_key B)"
    and "gm_wf (sessions A)" and "gm_wf (sessions B)" and "GetSession B (myVip A) = None"
  shows "\<exists>A1 msg B1 sB resp A2 sA a1 a2.
    HandshakeInit nl r t (myVip B) (GetPublicKey B) payload A = Some (A1, Inr msg) \<and>
    HandleNoisePacket nl r' t' (myVip A) msg B = Some (B1, Handled (Some sB) (Some resp)) \<and>
    HandleNoisePacket nl r'' t'' (myVip B) resp A1 = Some (A2, Handled None None) \<and>
    GetSession B1 (myVip A) = Some sB \<and> GetSession A2 (myVip B) = Some sA \<and>
    session_keys sA a1 a2 \<and> session_keys sB a2 a1 \<and> aead_ok a1 \<and> aead_ok a2 \<and>
    tunChan A2 = tunChan A @ [payload]"
proof -
  obtain h1 m1 g1 g2 m2 k1 k2 h2 a1 a2 where
    lib: "nl_write nl (nl_initiator nl (static_key A) (GetPublicKey B) r) = (h1, Inr (m1, None))" "length m1 = 96"
    "nl_read nl (nl_responder nl (static_key B) r') m1 = (g1, Inr None)"
    "nl_write nl g1 = (g2, Inr (m2, Some (k1, k2)))" "length m2 = 48"
    "nl_read nl h1 m2 = (h2, Inr (Some (k1, k2)))"
    "nl_aead nl k1 = Inr a1" "aead_ok a1" "nl_aead nl k2 = Inr a2" "aead_ok a2"
    using noise_okE [OF assms(1-3), of r r'] unfolding GetPublicKey_def by metis
  obtain A1 where A1: "HandshakeInit nl r t (myVip B) (GetPublicKey B) payload A = Some (A1, Inr m1)"
    "awaiting A1 (myVip B) h1 [payload]" "tunChan A1 = tunChan A"
    using HandshakeInit_awaiting [OF assms(4) lib(1)] by blast
  obtain B1 sB where B1: "HandleNoisePacket nl r' t' (myVip A) m1 B = Some (B1, Handled (Some sB) (Some m2))"
    "GetSession B1 (myVip A) = Some sB" "session_keys sB a2 a1"
    using responder_replies [OF assms(5) lib(3,4,7,9)] HandleNoisePacket_none [OF assms(6)] by metis
  obtain A2 sA where "HandleNoisePacket nl r'' t'' (myVip B) m2 A1 = Some (A2, Handled None None)"
    "GetSession A2 (myVip B) = Some sA" "session_keys sA a1 a2" "tunChan A2 = tunChan A1 @ [payload]"
    using awaiting_finishes [OF A1(2) lib(5,6,7,9)] by metis
  then show ?thesis using A1 B1 lib(8,10) by metis
qed

text \<open>
  C14. Simultaneous handshakes: when \<open>A\<close> and \<open>B\<close> have both sent a first message and the
  messages cross, the peer with the smaller address ignores the other's message and changes
  nothing, the one with the larger address answers as responder, and after that answer both
  sides hold matching keys. So a collision always ends in one agreed session. But only the
  packet that waited at \<open>A\<close> goes on to the sender; the one that waited at \<open>B\<close> was queued on the
  session that \<open>B\<close> gave up, and is gone.
\<close>

theorem noise_collision_agrees:
  assumes "noise_ok nl keypair" and "keypair (static_key A)" and "keypair (static_key B)"
    and "gm_wf (sessions A)" and "gm_wf (sessions B)" and "myVip A < myVip B"
  shows "\<exists>A1 mA B1 mB B2 sB resp A2 sA a1 a2.
    HandshakeInit nl r t (myVip B) (GetPublicKey B) pA A = Some (A1, Inr mA) \<and>
    HandshakeInit nl r2 t (myVip A) (GetPublicKey A) pB B = Some (B1, Inr mB) \<and>
    HandleNoisePacket nl r3 t' (myVip B) mB A1 =
      Some (A1, Failed (New ''noise: collision, wait for peer response'')) \<and>
    HandleNoisePacket nl r' t' (myVip A) mA B1 = Some (B2, Handled (Some sB) (Some resp)) \<and>
    HandleNoisePacket nl r'' t'' (myVip B) resp A1 = Some (A2, Handled None None) \<and>
    GetSession B2 (myVip A) = Some sB \<and> GetSession A2 (myVip B) = Some sA \<and>
    session_keys sA a1 a2 \<and> session_keys sB a2 a1 \<and> aead_ok a1 \<and> aead_ok a2 \<and>
    tunChan A2 = tunChan A @ [pA] \<and> tunChan B2 = tunChan B \<and> ch_items (pendingChan sB) = []"
proof -
  obtain h1 m1 g1 g2 m2 k1 k2 h2 a1 a2 where
    lib: "nl_write nl (nl_initiator nl (static_key A) (GetPublicKey B) r) = (h1, Inr (m1, None))" "length m1 = 96"
    "nl_read nl (nl_responder nl (static_key B) r') m1 = (g1, Inr None)"
    "nl_write nl g1 = (g2, Inr (m2, Some (k1, k2)))" "length m2 = 48"
    "nl_read nl h1 m2 = (h2, Inr (Some (k1, k2)))"
    "nl_aead nl k1 = Inr a1" "aead_ok a1" "nl_aead nl k2 = Inr a2" "aead_ok a2"
    using noise_okE [OF assms(1-3), of r r'] unfolding GetPublicKey_def by metis
  obtain j1 mB where libB: "nl_write nl (nl_initiator nl (static_key B) (GetPublicKey A) r2) = (j1, Inr (mB, None))"
    "length mB = 96"
    using noise_okE [OF assms(1,3,2), of r2 r'] unfolding GetPublicKey_def by metis
  obtain A1 where A1: "HandshakeInit nl r t (myVip B) (GetPublicKey B) pA A = Some (A1, Inr m1)"
    "awaiting A1 (myVip B) h1 [pA]" "myVip A1 = myVip A" "tunChan A1 = tunChan A"
    using HandshakeInit_awaiting [OF assms(4) lib(1)] by blast
  obtain B1 where B1: "HandshakeInit nl r2 t (myVip A) (GetPublicKey A) pB B = Some (B1, Inr mB)"
    "awaiting B1 (myVip A) j1 [pB]" "gm_wf (sessions B1)" "myVip B1 = myVip B" "static_key B1 = static_key B" "tunChan B1 = tunChan B"
    using HandshakeInit_awaiting [OF assms(5) libB(1)] by blast
  have waitA: "HandleNoisePacket nl r3 t' (myVip B) mB A1 =
      Some (A1, Failed (New ''noise: collision, wait for peer response''))"
    using A1(2,3) assms(6) libB(2) by (auto simp: awaiting_def HandleNoisePacket_collision)
  have "HandleNoisePacket nl r' t' (myVip A) m1 B1 = handleResponderFirst nl r' t' (myVip A) m1 B1"
    using B1(2,4) assms(6) lib(2) by (auto simp: awaiting_def HandleNoisePacket_collision)
  then obtain B2 sB where B2: "HandleNoisePacket nl r' t' (myVip A) m1 B1 = Some (B2, Handled (Some sB) (Some m2))"
    "GetSession B2 (myVip A) = Some sB" "session_keys sB a2 a1" "tunChan B2 = tunChan B" "ch_items (pendingChan sB) = []"
    using responder_replies [OF B1(3), unfolded B1(5), OF lib(3,4,7,9)] B1(6) by metis
  obtain A2 sA where "HandleNoisePacket nl r'' t'' (myVip B) m2 A1 = Some (A2, Handled None None)"
    "GetSession A2 (myVip B) = Some sA" "session_keys sA a1 a2" "tunChan A2 = tunChan A @ [pA]"
    using awaiting_finishes [OF A1(2) lib(5,6,7,9)] A1(4) by metis
  then show ?thesis using A1(1) B1(1) waitA B2 lib(8,10) by blast
qed

section \<open>Packets waiting for the key\<close>

text \<open>The sender queues packets one by one on the session of a peer whose key is not there yet.\<close>

fun queue_all :: "ip4 \<Rightarrow> bytes list \<Rightarrow> 'h NoiseManager \<Rightarrow> 'h NoiseManager option" where
  "queue_all peer [] m = Some m"
| "queue_all peer (d # ds) m =
     (case GetSession m peer of
        None \<Rightarrow> None
      | Some s \<Rightarrow> (case AddPendingData d s of
                    None \<Rightarrow> None
                  | Some s' \<Rightarrow> queue_all peer ds (session_write peer s' m)))"

lemma queue_all_items:
  assumes "GetSession m peer = Some s" and "\<not> pendingClosed s" and "chan_open (pendingChan s)"
  shows "\<exists>m'. queue_all peer ds m = Some m' \<and> tunChan m' = tunChan m \<and>
    GetSession m' peer = Some (s\<lparr>pendingChan := go_chan.offer_all ds (pendingChan s)\<rparr>)"
  using assms
proof (induction ds arbitrary: m s)
  case (Cons d ds)
  define s1 where "s1 = s\<lparr>pendingChan := fst (try_send d (pendingChan s))\<rparr>"
  have add: "AddPendingData d s = Some s1"
    using Cons.prems by (simp add: AddPendingData_open s1_def)
  have "\<exists>m'. queue_all peer ds (session_write peer s1 m) = Some m' \<and>
      tunChan m' = tunChan (session_write peer s1 m) \<and>
      GetSession m' peer = Some (s1\<lparr>pendingChan := go_chan.offer_all ds (pendingChan s1)\<rparr>)"
    using Cons.prems by (intro Cons.IH) (auto simp: s1_def go_chan.offer_ok)
  then show ?case using Cons.prems(1) add by (simp add: s1_def)
qed simp

text \<open>
  C27. Packets that wait for the key: everything queued on a pending session (up to the
  capacity of 24, the first ones win) is handed to the TUN queue exactly once and in the order
  it was queued when the peer's response arrives.
\<close>

theorem pending_delivered_in_order:
  assumes "GetSession m peer = Some s" and "session_inv s" and "\<not> IsReady (ns_Cipher s)"
    and "ch_cap (pendingChan s) = 24" and "ns_hs s = Some h"
    and "nl_read nl h resp = (h', Inr (Some (k1, k2)))" and "length resp = 48"
    and "nl_aead nl k1 = Inr a1" and "nl_aead nl k2 = Inr a2"
  shows "\<exists>m1 m2. queue_all peer ds m = Some m1 \<and>
    HandleNoisePacket nl rnd now peer resp m1 = Some (m2, Handled None None) \<and>
    tunChan m2 = tunChan m @ take 24 (ch_items (pendingChan s) @ ds)"
proof -
  have op: "isInitiator s" "\<not> pendingClosed s" "chan_open (pendingChan s)"
    using assms(2,3) by (auto simp: session_inv_def)
  obtain m1 where m1: "queue_all peer ds m = Some m1" "tunChan m1 = tunChan m"
    "GetSession m1 peer = Some (s\<lparr>pendingChan := go_chan.offer_all ds (pendingChan s)\<rparr>)"
    using queue_all_items [OF assms(1) op(2,3)] by blast
  have "chan_open (go_chan.offer_all ds (pendingChan s))"
    using go_chan.offer_all_ok [OF op(3)] by blast
  then have "awaiting m1 peer h (take 24 (ch_items (pendingChan s) @ ds))"
    using m1(3) assms(3,4,5) op by (simp add: awaiting_def go_chan.offer_all_items chan_open_def)
  from awaiting_finishes [OF this assms(7,6,8,9)] m1 show ?thesis by metis
qed

text \<open>
  The losing side of a collision: when a client with packets waiting for a peer yields and
  answers as responder, the session that held them is replaced by a new one with an empty
  queue and nothing is passed to the TUN queue, so those packets are gone.
\<close>

lemma collision_drops_pending:
  assumes "noise_inv m" and "GetSession m src = Some s" and "\<not> IsReady (ns_Cipher s)"
    and "64 \<le> length data" and "src < myVip m"
    and "HandleNoisePacket nl rnd now src data m = Some (m', Handled r resp)"
  shows "tunChan m' = tunChan m \<and>
    (\<exists>s'. GetSession m' src = Some s' \<and> ch_items (pendingChan s') = [] \<and> pendingClosed s')"
proof -
  have "isInitiator s" using noise_inv_get [OF assms(1,2)] assms(3) by (simp add: session_inv_def)
  then have "handleResponderFirst nl rnd now src data m = Some (m', Handled r resp)"
    using assms by (simp add: HandleNoisePacket_collision)
  then show ?thesis by (cases rule: handleResponderFirst_cases) auto
qed

text \<open>
  The check in \<open>AddPendingData\<close> does not protect its send: if the sending goroutine has
  seen the queue open, the receiving goroutine then closes it, and the send follows, the send
  is on a closed channel and panics.
\<close>

lemma pending_close_race:
  assumes "pending_check s" and "closePending s = Some s'"
  shows "pending_send data s' = None"
  using assms
  by (auto simp: closePending_def chan_close_def pending_send_def chan_send_def Let_def split: if_splits)

section \<open>A concrete library\<close>

text \<open>
  A handshake library whose state is a stage counter, whose messages are bytes of one of
  the right lengths and whose keys are constant: it satisfies the laws and lets the properties be
  evaluated.
\<close>

definition stage_noise :: "nat noise_lib" where
  "stage_noise =
     \<lparr>nl_initiator = (\<lambda>_ _ _. 0), nl_responder = (\<lambda>_ _. 10),
      nl_write = (\<lambda>h. if h = 0 then (1, Inr (replicate 96 1, None))
                      else if h = 11 then (12, Inr (replicate 48 1, Some ([1], [2])))
                      else (h, Inl (External ''unexpected call''))),
      nl_read = (\<lambda>h d. if h = 10 then (11, Inr None)
                       else if h = 1 then (2, Inr (Some ([1], [2])))
                       else (h, Inl (External ''unexpected call''))),
      nl_aead = (\<lambda>_. Inr zero_aead)\<rparr>"

lemma stage_noise_ok: "noise_ok stage_noise (\<lambda>_. True)"
  by (simp add: noise_ok_def stage_noise_def zero_aead_ok)

definition demo_client :: "byte \<Rightarrow> nat NoiseManager" where
  "demo_client n = SetVirtualIp (IP4 10 0 6 n) (NewNoiseManager ([n], [n]))"

lemma demo_client_sel [simp]:
  "myVip (demo_client n) = IP4 10 0 6 n" "sessions (demo_client n) = []" "tunChan (demo_client n) = []"
  "GetSession (demo_client n) k = None"
  by (simp_all add: demo_client_def SetVirtualIp_def NewNoiseManager_def GetSession_def)

theorem noise_collision_agrees_witness:
  "\<exists>A1 mA B1 mB B2 sB resp A2 sA a1 a2.
    HandshakeInit stage_noise 0 100 (IP4 10 0 6 3) (GetPublicKey (demo_client 3)) [9] (demo_client 2) = Some (A1, Inr mA) \<and>
    HandshakeInit stage_noise 1 100 (IP4 10 0 6 2) (GetPublicKey (demo_client 2)) [8] (demo_client 3) = Some (B1, Inr mB) \<and>
    HandleNoisePacket stage_noise 2 101 (IP4 10 0 6 3) mB A1 =
      Some (A1, Failed (New ''noise: collision, wait for peer response'')) \<and>
    HandleNoisePacket stage_noise 3 101 (IP4 10 0 6 2) mA B1 = Some (B2, Handled (Some sB) (Some resp)) \<and>
    HandleNoisePacket stage_noise 4 102 (IP4 10 0 6 3) resp A1 = Some (A2, Handled None None) \<and>
    GetSession B2 (IP4 10 0 6 2) = Some sB \<and> GetSession A2 (IP4 10 0 6 3) = Some sA \<and>
    session_keys sA a1 a2 \<and> session_keys sB a2 a1 \<and> aead_ok a1 \<and> aead_ok a2 \<and>
    tunChan A2 = [[9]] \<and> tunChan B2 = [] \<and> ch_items (pendingChan sB) = []"
proof -
  have "myVip (demo_client 2) < myVip (demo_client 3)" by (simp add: less_ip4_def)
  from noise_collision_agrees [OF stage_noise_ok _ _ _ _ this, of 0 100 "[9]" 1 "[8]" 2 101 3 4 102]
  show ?thesis by simp
qed

text \<open>The client 10.0.6.3 after it has sent its first message to 10.0.6.2.\<close>

definition waiting_client :: "nat NoiseManager" where
  "waiting_client = fst (the (HandshakeInit stage_noise 0 100 (IP4 10 0 6 2) [2] [9] (demo_client 3)))"

definition waiting_session :: "nat NoiseSession" where
  "waiting_session = (NewNoiseSession (IP4 10 0 6 2) True (Some 1) 100)
     \<lparr>pendingChan := (make_chan 24)\<lparr>ch_items := [[9]]\<rparr>\<rparr>"

lemma waiting_client_sel [simp]:
  "GetSession waiting_client (IP4 10 0 6 2) = Some waiting_session"
  "myVip waiting_client = IP4 10 0 6 3" "tunChan waiting_client = []"
  by (simp_all add: waiting_client_def HandshakeInit_eq stage_noise_def waiting_session_def NewNoiseSession_def Let_def)

lemma waiting_client_inv: "noise_inv waiting_client"
proof (rule HandshakeInit_inv)
  show "noise_inv (demo_client 3)" by (simp add: noise_inv_def)
  show "HandshakeInit stage_noise 0 100 (IP4 10 0 6 2) [2] [9] (demo_client 3) = Some (waiting_client, Inr (replicate 96 1))"
    by (simp add: waiting_client_def HandshakeInit_eq stage_noise_def Let_def)
qed

lemma waiting_session_sel [simp]:
  "\<not> IsReady (ns_Cipher waiting_session)" "ch_items (pendingChan waiting_session) = [[9]]"
  "ch_cap (pendingChan waiting_session) = 24" "ns_hs waiting_session = Some 1" "isInitiator waiting_session"
  "\<not> pendingClosed waiting_session" "\<not> ch_closed (pendingChan waiting_session)"
  by (simp_all add: waiting_session_def NewNoiseSession_def)

lemma waiting_session_inv: "session_inv waiting_session"
  by (simp add: session_inv_def chan_open_def)

theorem pending_delivered_in_order_witness:
  "\<exists>m1 m2. queue_all (IP4 10 0 6 2) [[7], [8]] waiting_client = Some m1 \<and>
    HandleNoisePacket stage_noise 0 101 (IP4 10 0 6 2) (replicate 48 1) m1 = Some (m2, Handled None None) \<and>
    tunChan m2 = [[9], [7], [8]]"
  using pending_delivered_in_order [of waiting_client "IP4 10 0 6 2" waiting_session 1 stage_noise
      "replicate 48 1" 2 "[1]" "[2]" zero_aead zero_aead "[[7], [8]]" 0 101]
  by (simp add: waiting_session_inv) (simp add: stage_noise_def)


end
