(* ===== verification/NetUtil.thy ===== *)
theory NetUtil
  imports GoMap
begin

text \<open>
  The helpers of \<^verbatim>\<open>internal/util\<close>: addresses as map keys and as the seven bytes of a
  hole-punching command (\<^verbatim>\<open>ipTransform.go\<close>), byte counts for the display and unique
  host names (\<^verbatim>\<open>format.go\<close>). Go strings are byte sequences; \<open>Itoa\<close> is the
  decimal printer of \<^verbatim>\<open>strconv\<close> on the non-negative counters the code prints.
\<close>

section \<open>Addresses (internal/util/ipTransform.go)\<close>

definition IpToKey :: "netip \<Rightarrow> ip4" where
  "IpToKey ip = (case To4 ip of None \<Rightarrow> ip4_zero | Some v \<Rightarrow> IP4 (v ! 0) (v ! 1) (v ! 2) (v ! 3))"

lemma IpToKey_bytes [simp]: "IpToKey (ip4_bytes a) = a"
  by (cases a) (simp add: IpToKey_def)

lemma IpToKey_four [simp]: "IpToKey [a, b, c, d] = IP4 a b c d"
  by (simp add: IpToKey_def)

lemma IpToKey_Nil [simp]: "IpToKey [] = ip4_zero"
  by (simp add: IpToKey_def)

text \<open>The panic of \<^verbatim>\<open>As4\<close> on an address that is no IPv4 address is the result \<open>None\<close>.\<close>

definition UDPAddrPortToBytes :: "addrport \<Rightarrow> byte \<Rightarrow> bytes option" where
  "UDPAddrPortToBytes addr natType =
     (case As4 (ap_addr addr) of
        None \<Rightarrow> None
      | Some ip \<Rightarrow> Some (ip4_bytes ip @ be16 (ap_port addr) @ [natType]))"

record UDPAddr =
  ua_IP :: netip
  ua_Port :: int

text \<open>The slice expressions panic (\<open>None\<close>) on fewer than six bytes.\<close>

definition BytesToIP :: "bytes \<Rightarrow> UDPAddr option" where
  "BytesToIP buf =
     (if length buf < 6 then None
      else Some \<lparr>ua_IP = take 4 buf, ua_Port = uint (get_be16 (buf ! 4) (buf ! 5))\<rparr>)"

text \<open>
  A public address survives the command that carries it: the bytes the server writes for an
  IPv4 (or IPv4-mapped) address are seven, end with the NAT type, and the client reads back the
  same address and port from the first six; for an address without an IPv4 form the writer
  panics instead.
\<close>

lemma punch_address_roundtrip:
  "case UDPAddrPortToBytes addr natType of
     None \<Rightarrow> As4 (ap_addr addr) = None
   | Some buf \<Rightarrow> (\<exists>ip. As4 (ap_addr addr) = Some ip \<and> length buf = 7 \<and> buf ! 6 = natType \<and>
       BytesToIP (take 6 buf) = Some \<lparr>ua_IP = ip4_bytes ip, ua_Port = uint (ap_port addr)\<rparr>)"
proof (cases "As4 (ap_addr addr)")
  case None
  then show ?thesis by (simp add: UDPAddrPortToBytes_def)
next
  case (Some ip)
  then show ?thesis
    by (cases ip) (simp add: UDPAddrPortToBytes_def BytesToIP_def be16_def get_be16_split)
qed

section \<open>Decimal numbers\<close>

type_synonym gostring = bytes

fun Itoa :: "nat \<Rightarrow> gostring" where
  "Itoa n = (if n < 10 then [of_nat (48 + n)] else Itoa (n div 10) @ [of_nat (48 + n mod 10)])"

declare Itoa.simps [simp del]

text \<open>The reader of decimal digits, a left inverse.\<close>

definition digits_value :: "gostring \<Rightarrow> nat" where
  "digits_value s = foldl (\<lambda>v b. 10 * v + (unat b - 48)) 0 s"

lemma digit_value: "d < 10 \<Longrightarrow> unat (of_nat (48 + d) :: byte) - 48 = d"
  by (simp only: unat_of_nat) simp

lemma digits_value_Itoa [simp]: "digits_value (Itoa n) = n"
proof (induction n rule: Itoa.induct)
  case (1 n)
  show ?case
  proof (cases "n < 10")
    case True
    then show ?thesis
      using digit_value [of n] by (simp add: Itoa.simps [of n] digits_value_def)
  next
    case False
    then have "digits_value (Itoa (n div 10)) = n div 10" by (rule 1)
    then show ?thesis
      using False digit_value [of "n mod 10"] by (simp add: Itoa.simps [of n] digits_value_def)
  qed
qed

lemma Itoa_inj [simp]: "Itoa m = Itoa n \<longleftrightarrow> m = n"
  by (metis digits_value_Itoa)

lemma Itoa_nonempty [simp]: "Itoa n \<noteq> []"
  by (subst Itoa.simps) simp

section \<open>Unique host names (internal/util/format.go)\<close>

abbreviation numbered :: "gostring \<Rightarrow> nat \<Rightarrow> gostring" where
  "numbered hostname i \<equiv> hostname @ [45] @ Itoa i"

text \<open>
  The search loop. It ends because the table is finite: every step leaves one numbered name of
  the table behind.
\<close>

definition names_ahead :: "gostring \<Rightarrow> (gostring, 'v) gomap \<Rightarrow> nat \<Rightarrow> nat set" where
  "names_ahead hostname m i = {j. i \<le> j \<and> numbered hostname j \<in> fst ` set m}"

lemma finite_names_ahead: "finite (names_ahead hostname m i)"
proof (rule finite_imageD)
  have "numbered hostname ` names_ahead hostname m i \<subseteq> fst ` set m"
    by (auto simp: names_ahead_def)
  then show "finite (numbered hostname ` names_ahead hostname m i)"
    by (rule finite_subset) simp
  show "inj_on (numbered hostname) (names_ahead hostname m i)"
    by (rule inj_onI) simp
qed

lemma names_ahead_step:
  assumes "numbered hostname i \<in> fst ` set m"
  shows "card (names_ahead hostname m (Suc i)) < card (names_ahead hostname m i)"
proof (rule psubset_card_mono [OF finite_names_ahead])
  have "i \<in> names_ahead hostname m i" using assms by (simp add: names_ahead_def)
  moreover have "i \<notin> names_ahead hostname m (Suc i)" by (simp add: names_ahead_def)
  moreover have "names_ahead hostname m (Suc i) \<subseteq> names_ahead hostname m i"
    by (auto simp: names_ahead_def)
  ultimately show "names_ahead hostname m (Suc i) \<subset> names_ahead hostname m i" by blast
qed

function unique_from :: "gostring \<Rightarrow> (gostring, 'v) gomap \<Rightarrow> nat \<Rightarrow> gostring" where
  "unique_from hostname m i =
     (if gm_get m (numbered hostname i) = None then numbered hostname i
      else unique_from hostname m (i + 1))"
  by pat_completeness auto

termination
proof (relation "measure (\<lambda>(hostname, m, i). card (names_ahead hostname m i))")
  fix hostname i and m :: "(gostring, 'v) gomap"
  assume "gm_get m (numbered hostname i) \<noteq> None"
  then have "numbered hostname i \<in> fst ` set m" by (auto simp: map_of_eq_None_iff)
  then show "((hostname, m, i + 1), hostname, m, i) \<in> measure (\<lambda>(hostname, m, i). card (names_ahead hostname m i))"
    using names_ahead_step by simp
qed simp

declare unique_from.simps [simp del]

definition UniqueHostName :: "gostring \<Rightarrow> (gostring, 'v) gomap \<Rightarrow> gostring" where
  "UniqueHostName hostname dnsMap =
     (if gm_get dnsMap hostname = None then hostname else unique_from hostname dnsMap 1)"

lemma unique_from_spec:
  "\<exists>k\<ge>i. unique_from hostname m i = numbered hostname k \<and> gm_get m (numbered hostname k) = None \<and>
     {i..<k} \<subseteq> {j. gm_get m (numbered hostname j) \<noteq> None}"
proof (induction hostname m i rule: unique_from.induct)
  case (1 hostname m i)
  show ?case
  proof (cases "gm_get m (numbered hostname i) = None")
    case True
    then show ?thesis
      by (intro exI [of _ i]) (simp add: unique_from.simps [of hostname m i])
  next
    case False
    from 1 [OF False] obtain k where k: "i + 1 \<le> k" "unique_from hostname m (i + 1) = numbered hostname k"
      "gm_get m (numbered hostname k) = None" "{i + 1..<k} \<subseteq> {j. gm_get m (numbered hostname j) \<noteq> None}"
      by blast
    moreover have "{i..<k} = insert i {i + 1..<k}" using k(1) by auto
    ultimately show ?thesis using False
      by (intro exI [of _ k]) (simp add: unique_from.simps [of hostname m i])
  qed
qed

lemma UniqueHostName_fresh [simp]: "gm_get m (UniqueHostName hostname m) = None"
  using unique_from_spec [of 1 hostname m] by (auto simp: UniqueHostName_def)

text \<open>
  Host names: the search always ends; the name it returns is not in the table; it is the
  requested name when that is free, and otherwise the requested name with the smallest free
  number from 1 on.
\<close>

lemma UniqueHostName_smallest:
  "gm_get m (UniqueHostName hostname m) = None \<and>
   (if gm_get m hostname = None then UniqueHostName hostname m = hostname
    else \<exists>k\<ge>1. UniqueHostName hostname m = numbered hostname k \<and>
           {1..<k} \<subseteq> {j. gm_get m (numbered hostname j) \<noteq> None})"
  using unique_from_spec [of 1 hostname m] by (auto simp: UniqueHostName_def)

section \<open>Byte counts (internal/util/format.go)\<close>

text \<open>
  \<^verbatim>\<open>%.2f\<close> of a quotient: the conversion of an unsigned integer to
  \<^verbatim>\<open>float64\<close> keeps 53 significant bits, dividing by a power of two is exact, and the
  printer rounds the exact value to hundredths; both round half to even.
\<close>

definition div_half_even :: "nat \<Rightarrow> nat \<Rightarrow> nat" where
  "div_half_even a b =
     (let q = a div b; r = a mod b
      in if 2 * r < b then q else if b < 2 * r then q + 1 else if even q then q else q + 1)"

fun bit_length :: "nat \<Rightarrow> nat" where
  "bit_length n = (if n = 0 then 0 else Suc (bit_length (n div 2)))"

declare bit_length.simps [simp del]

definition float64 :: "nat \<Rightarrow> nat" where
  "float64 n = (let e = bit_length n - 53 in div_half_even n (2 ^ e) * 2 ^ e)"

abbreviation str :: "string \<Rightarrow> gostring" where
  "str s \<equiv> map of_char s"

definition two_decimals :: "nat \<Rightarrow> gostring" where
  "two_decimals h = Itoa (h div 100) @ str ''.'' @ Itoa (h mod 100 div 10) @ Itoa (h mod 10)"

lemma unat_div_1024: "unat (n div 1024 :: u64) = unat n div 1024"
  by (simp add: unat_div)

lemma le_1024_unat: "(1024 :: u64) \<le> n \<longleftrightarrow> 1024 \<le> unat n"
  by (simp add: word_le_nat_alt)

function format_loop :: "u64 \<Rightarrow> u64 \<Rightarrow> nat \<Rightarrow> u64 \<times> nat" where
  "format_loop n dv ex = (if 1024 \<le> n then format_loop (n div 1024) (dv * 1024) (ex + 1) else (dv, ex))"
  by pat_completeness auto

termination
  by (relation "measure (\<lambda>(n, dv, ex). unat n)") (auto simp: unat_div_1024 le_1024_unat)

declare format_loop.simps [simp del]

definition suffix :: "gostring list" where
  "suffix = [str ''KB'', str ''MB'', str ''GB'', str ''TB'', str ''PB'', str ''EB'']"

text \<open>An index outside \<^verbatim>\<open>suffix\<close> panics (\<open>None\<close>).\<close>

definition FormatBytes :: "u64 \<Rightarrow> gostring option" where
  "FormatBytes b =
     (if b < 1024 then Some (Itoa (unat b) @ str '' B'')
      else let (dv, ex) = format_loop (b div 1024) 1024 0
           in if ex < length suffix
              then Some (two_decimals (div_half_even (100 * float64 (unat b)) (unat dv)) @ str '' '' @ suffix ! ex)
              else None)"

lemma format_loop_spec:
  assumes "unat n = B div 1024 ^ (ex + 1)" and "unat dv = 1024 ^ (ex + 1)" and "1024 ^ (ex + 1) \<le> B" and "B < 2 ^ 64"
  shows "\<exists>dv' k. format_loop n dv ex = (dv', k) \<and> unat dv' = 1024 ^ (k + 1) \<and>
    1024 ^ (k + 1) \<le> B \<and> B < 1024 ^ (k + 2)"
  using assms
proof (induction n dv ex rule: format_loop.induct)
  case (1 n dv ex)
  show ?case
  proof (cases "1024 \<le> n")
    case True
    have "1024 ^ (ex + 1) * 1024 \<le> B"
      using True 1(2) by (simp add: le_1024_unat less_eq_div_iff_mult_less_eq mult.commute)
    moreover from this have "unat (dv * 1024) = 1024 ^ (ex + 1 + 1)"
      using 1(3,5) by (simp add: unat_mult_lem [THEN iffD1] unat_word_ariths mult.commute)
    ultimately show ?thesis
      using 1(1) [OF True] 1(2,5) True
      by (simp add: format_loop.simps [of n dv ex] unat_div_1024 div_mult2_eq [symmetric] mult.commute)
  next
    case False
    then have "B div 1024 ^ (ex + 1) < 1024" using 1(2) by (simp add: le_1024_unat)
    then have "B < 1024 ^ (ex + 2)" by (simp add: div_less_iff_less_mult)
    then show ?thesis using 1(3,4) False by (simp add: format_loop.simps [of n dv ex])
  qed
qed

text \<open>
  Byte counts: the formatter never panics, for any 64-bit count. From 1024 on, the unit is
  the one with \<open>1024 ^ (k + 1) \<le> b < 1024 ^ (k + 2)\<close>, which is always one of the six, and the
  number is the quotient rounded to two decimals.
\<close>

lemma FormatBytes_unit:
  "if b < 1024 then FormatBytes b = Some (Itoa (unat b) @ str '' B'')
   else \<exists>k<6. 1024 ^ (k + 1) \<le> unat b \<and> unat b < 1024 ^ (k + 2) \<and>
     FormatBytes b = Some (two_decimals (div_half_even (100 * float64 (unat b)) (1024 ^ (k + 1))) @ str '' '' @ suffix ! k)"
proof (cases "b < 1024")
  case False
  then have b: "1024 ^ (0 + 1) \<le> unat b" by (simp add: le_1024_unat linorder_not_less)
  have "unat b < 2 ^ LENGTH(64)" by (rule unsigned_less)
  then have lt: "unat b < 2 ^ 64" by simp
  obtain dv k where k: "format_loop (b div 1024) 1024 0 = (dv, k)" "unat dv = 1024 ^ (k + 1)"
    "1024 ^ (k + 1) \<le> unat b" "unat b < 1024 ^ (k + 2)"
    using format_loop_spec [of "b div 1024" "unat b" 0 1024] b lt by (auto simp: unat_div_1024)
  have "k < 6"
  proof (rule ccontr)
    assume "\<not> k < 6"
    then have "(1024 :: nat) ^ 7 \<le> 1024 ^ (k + 1)" by (intro power_increasing) auto
    with k(3) lt show False by simp
  qed
  then show ?thesis using False k
    by (intro if_not_P [THEN iffD2]) (auto intro!: exI [of _ k] simp: FormatBytes_def suffix_def)
qed (simp add: FormatBytes_def)

lemma FormatBytes_total: "\<exists>s. FormatBytes b = Some s"
  using FormatBytes_unit [of b] by (auto split: if_splits)

section \<open>The standard library's net.IP and net.IPNet\<close>

record IPNet =
  net_IP :: netip
  net_Mask :: bytes

text \<open>\<^verbatim>\<open>net.IPNet.Contains\<close> for the four-byte mask of the hub, \<^verbatim>\<open>net.IP.IsMulticast\<close>
  and \<^verbatim>\<open>net.IP.IsLoopback\<close>.\<close>

definition mask_bytes :: "bytes \<Rightarrow> bytes \<Rightarrow> bytes" where
  "mask_bytes m s = map2 (AND) s m"

lemma and_255 [simp]: "(a :: byte) AND 255 = a"
proof -
  have "(255 :: byte) = mask LENGTH(8)" by (simp add: mask_eq_exp_minus_1)
  then show ?thesis by (simp only: take_bit_eq_mask [symmetric] take_bit_word_eq_self)
qed

definition Contains :: "IPNet \<Rightarrow> netip \<Rightarrow> bool" where
  "Contains n ip =
     (let nn = (case To4 (net_IP n) of Some v \<Rightarrow> v | None \<Rightarrow> net_IP n);
          x = (case To4 ip of Some v \<Rightarrow> v | None \<Rightarrow> ip)
      in length x = length nn \<and> mask_bytes (net_Mask n) nn = mask_bytes (net_Mask n) x)"

definition IsMulticast :: "netip \<Rightarrow> bool" where
  "IsMulticast ip = (case To4 ip of
       Some v \<Rightarrow> v ! 0 AND 0xf0 = 0xe0
     | None \<Rightarrow> length ip = 16 \<and> ip ! 0 = 0xff)"

definition IsLoopback :: "netip \<Rightarrow> bool" where
  "IsLoopback ip = (case To4 ip of
       Some v \<Rightarrow> v ! 0 = 127
     | None \<Rightarrow> ip = replicate 15 0 @ [1])"

text \<open>\<^verbatim>\<open>net.IP.String\<close> of an IPv4 address; the name table holds no others.\<close>

definition ip_String :: "netip \<Rightarrow> gostring" where
  "ip_String ip =
     (case To4 ip of
        Some v \<Rightarrow> Itoa (unat (v ! 0)) @ str ''.'' @ Itoa (unat (v ! 1)) @ str ''.'' @
                  Itoa (unat (v ! 2)) @ str ''.'' @ Itoa (unat (v ! 3))
      | None \<Rightarrow> [])"

text \<open>\<^verbatim>\<open>net.IP.Equal\<close>: a four-byte address equals its sixteen-byte form.
  \<^verbatim>\<open>net.IP.Mask\<close> for a four-byte mask; other lengths give nil.\<close>

definition ip_Equal :: "netip \<Rightarrow> netip \<Rightarrow> bool" where
  "ip_Equal x y \<longleftrightarrow>
     (if length x = length y then x = y
      else if length x = 4 \<and> length y = 16 then y = v4InV6Prefix @ x
      else if length x = 16 \<and> length y = 4 then x = v4InV6Prefix @ y
      else False)"

definition ip_Mask :: "netip \<Rightarrow> bytes \<Rightarrow> netip" where
  "ip_Mask ip m =
     (let ip = (if length m = 4 \<and> length ip = 16 \<and> take 12 ip = v4InV6Prefix then drop 12 ip else ip)
      in if length ip \<noteq> length m then [] else mask_bytes m ip)"

definition IPv4bcast :: netip where
  "IPv4bcast = net_IPv4 255 255 255 255"

lemma ip_Equal_four [simp]: "length x = 4 \<Longrightarrow> length y = 4 \<Longrightarrow> ip_Equal x y \<longleftrightarrow> x = y"
  by (simp add: ip_Equal_def)

end
