(* ===== verification/Socket.thy ===== *)
theory Socket
  imports Packet GoChan NetUtil
begin

text \<open>
  What the loops of client and server exchange with their sockets. One turn of a loop takes what
  the socket delivers and returns what it hands out, so the sockets themselves are outside the
  model.
\<close>

section \<open>WebSocket\<close>

text \<open>
  What \<^verbatim>\<open>NextReader\<close> and the reader deliver to one turn: a binary message, a message of
  another type, a ping (through the ping handler), a read that ran into its deadline, a message
  whose body could not be read, or the end of the connection.
\<close>

datatype ws_event =
    WsBinary bytes
  | WsOther
  | WsPing
  | WsTimeout
  | WsReadError
  | WsClosed

datatype ws_frame = CloseFrame | PingFrame | PongFrame | BinaryFrame bytes

text \<open>
  A turn goes on, waits for room in a queue, ends the loop and cancels the connection, or only
  ends the loop.
\<close>

datatype pump = PumpContinue | PumpBlocked | PumpStop | PumpReturn

section \<open>UDP\<close>

type_synonym datagram = "bytes \<times> UDPAddr"

text \<open>
  \<^verbatim>\<open>WriteToUDP\<close>: a nil address is an error; otherwise the operating system accepts the
  datagram or not. The result is what was sent and the number of bytes, or the error.
\<close>

definition WriteToUDP :: "(bytes \<Rightarrow> UDPAddr \<Rightarrow> bool) \<Rightarrow> bytes \<Rightarrow> UDPAddr option \<Rightarrow> datagram list \<times> nat option" where
  "WriteToUDP accept data addr =
     (case addr of
        None \<Rightarrow> ([], None)
      | Some a \<Rightarrow> if accept data a then ([(data, a)], Some (length data)) else ([], None))"

text \<open>The operating system sends only to ports of sixteen bits.\<close>

definition udp_ok :: "(bytes \<Rightarrow> UDPAddr \<Rightarrow> bool) \<Rightarrow> bool" where
  "udp_ok accept \<longleftrightarrow> (\<forall>data a. accept data a \<longrightarrow> 0 \<le> ua_Port a \<and> ua_Port a \<le> 65535)"

section \<open>The addresses of a packet\<close>

lemma To4_Destination [simp]: "To4 (Destination gp) = Some (ip4_bytes (gp_dst gp))"
  by (cases "gp_dst gp") (simp add: Destination_def)

lemma To4_SourceVirtualIp [simp]: "To4 (SourceVirtualIp gp) = Some (ip4_bytes (gp_src gp))"
  by (cases "gp_src gp") (simp add: SourceVirtualIp_def)

lemma key_Destination [simp]: "IpToKey (Destination gp) = gp_dst gp"
  by (cases "gp_dst gp") (simp add: IpToKey_def)

lemma key_SourceVirtualIp [simp]: "IpToKey (SourceVirtualIp gp) = gp_src gp"
  by (cases "gp_src gp") (simp add: IpToKey_def)

end
