(* ===== verification/DnsUtil.thy ===== *)
theory DnsUtil
  imports NetUtil
begin

text \<open>
  \<^verbatim>\<open>internal/util/dns.go\<close>: the client wraps the server's DNS answer into an IPv4/UDP
  packet for its TUN device. The Internet checksum is computed in 32-bit words as in the code;
  the lemmas relate it to arithmetic modulo 65535 and show that a receiver accepts the packet.
\<close>

section \<open>The Internet checksum\<close>

text \<open>The loop over 16-bit groups; a last odd byte is left to the caller.\<close>

fun sum_words :: "bytes \<Rightarrow> u32 \<Rightarrow> u32" where
  "sum_words (a # b # data) acc = sum_words data (acc + ucast (get_be16 a b))"
| "sum_words _ acc = acc"

lemma unat_and_ffff: "unat (s AND 0xffff :: u32) = unat s mod 65536"
proof -
  have "s AND 0xffff = take_bit 16 s"
    by (simp add: take_bit_eq_mask mask_eq_exp_minus_1)
  then show ?thesis by (simp add: take_bit_eq_mod unat_mod)
qed

lemma unat_carry_step:
  "unat ((s AND 0xffff) + drop_bit 16 s :: u32) = unat s mod 65536 + unat s div 65536"
proof -
  have "unat s < 2 ^ LENGTH(32)" by (rule unsigned_less)
  then have "unat s mod 65536 + unat s div 65536 < 2 ^ LENGTH(32)" by simp
  then show ?thesis
    by (simp add: unat_word_ariths unat_and_ffff unsigned_drop_bit_eq drop_bit_eq_div take_bit_eq_mod)
qed

lemma ffff_less_unat: "(0xffff :: u32) < s \<longleftrightarrow> 65535 < unat s"
  by (simp add: word_less_nat_alt)

function fold_carry :: "u32 \<Rightarrow> u32" where
  "fold_carry acc = (if 0xffff < acc then fold_carry ((acc AND 0xffff) + drop_bit 16 acc) else acc)"
  by pat_completeness auto

termination
proof (relation "measure unat")
  fix s :: u32 assume "0xffff < s"
  then have "65536 \<le> unat s" by (simp add: ffff_less_unat)
  moreover from this have "1 \<le> unat s div 65536"
    using div_le_mono [of 65536 "unat s" 65536] by simp
  ultimately have "unat s mod 65536 + unat s div 65536 < unat s"
    using div_mult_mod_eq [of "unat s" 65536] by linarith
  then show "((s AND 0xffff) + drop_bit 16 s, s) \<in> measure unat"
    by (simp add: unat_carry_step)
qed simp

declare fold_carry.simps [simp del]

definition checksum :: "bytes \<Rightarrow> u16" where
  "checksum data =
     (let acc = sum_words data 0;
          acc = (if length data mod 2 = 1 then acc + push_bit 8 (ucast (last data)) else acc)
      in NOT (ucast (fold_carry acc)))"

text \<open>The sum the code computes, as a natural number.\<close>

fun word_sum :: "bytes \<Rightarrow> nat" where
  "word_sum (a # b # data) = unat (get_be16 a b) + word_sum data"
| "word_sum [a] = 256 * unat a"
| "word_sum [] = 0"

text \<open>End-around carry keeps the value modulo 65535 and never turns a non-zero sum into zero.\<close>

lemma fold_carry_spec:
  "unat (fold_carry s) mod 65535 = unat s mod 65535 \<and> unat (fold_carry s) < 65536 \<and>
   (unat (fold_carry s) = 0 \<longleftrightarrow> unat s = 0)"
proof (induction s rule: fold_carry.induct)
  case (1 s)
  show ?case
  proof (cases "0xffff < s")
    case True
    let ?t = "(s AND 0xffff) + drop_bit 16 s"
    have t: "unat ?t = unat s mod 65536 + unat s div 65536" by (rule unat_carry_step)
    have "unat s = 65535 * (unat s div 65536) + unat ?t"
      using div_mult_mod_eq [of "unat s" 65536] unfolding t by linarith
    then have "unat ?t mod 65535 = unat s mod 65535" by (metis mod_mult_self4)
    moreover have "unat s \<noteq> 0" using True by (simp add: ffff_less_unat)
    moreover have "unat ?t \<noteq> 0"
    proof -
      have "1 \<le> unat s div 65536"
        using True div_le_mono [of 65536 "unat s" 65536] by (simp add: ffff_less_unat)
      then show ?thesis unfolding t by simp
    qed
    ultimately show ?thesis using 1 [OF True] True by (simp add: fold_carry.simps [of s])
  next
    case False
    then show ?thesis by (simp add: fold_carry.simps [of s] ffff_less_unat)
  qed
qed

lemma unat_NOT_u16: "unat (NOT x :: u16) = 65535 - unat x"
proof -
  have "NOT x = -1 - x" by (simp add: not_eq_complement)
  moreover have "unat (-1 - x) = unat (-1 :: u16) - unat x" by (rule unat_sub) simp
  ultimately show ?thesis by (simp add: unsigned_minus_1_eq_mask mask_eq_exp_minus_1)
qed

lemma unat_sum_words:
  "unat s + word_sum data < 2 ^ 32 \<Longrightarrow>
   unat (sum_words data s) + (if odd (length data) then 256 * unat (last data) else 0) = unat s + word_sum data"
proof (induction data s rule: sum_words.induct)
  case (1 a b data s)
  have "unat (get_be16 a b) < 2 ^ LENGTH(16)" by (rule unsigned_less)
  then have "unat (ucast (get_be16 a b) :: u32) = unat (get_be16 a b)"
    by (simp add: unsigned_ucast_eq take_bit_nat_eq_self)
  then have "unat (s + ucast (get_be16 a b)) = unat s + unat (get_be16 a b)"
    using 1(2) by (simp add: unat_word_ariths)
  with 1 show ?case by auto
qed auto

text \<open>
  The folded checksum of any data whose sum fits 32 bits: the complement of the sum modulo 65535,
  with 65535 rather than 0 for a non-zero sum.
\<close>

lemma checksum_word_sum:
  assumes "word_sum data < 2 ^ 32"
  shows "\<exists>s :: u32. unat s = word_sum data \<and> checksum data = NOT (ucast (fold_carry s))"
proof -
  define s :: u32 where "s = (if length data mod 2 = 1 then sum_words data 0 + push_bit 8 (ucast (last data)) else sum_words data 0)"
  have "unat s = word_sum data"
  proof (cases "odd (length data)")
    case True
    have "unat (last data) < 2 ^ LENGTH(8)" by (rule unsigned_less)
    then have "unat (push_bit 8 (ucast (last data)) :: u32) = 256 * unat (last data)"
      by (simp add: push_bit_eq_mult unat_word_ariths unsigned_ucast_eq take_bit_nat_eq_self)
    with True show ?thesis
      using unat_sum_words [of 0 data] assms by (simp add: s_def odd_iff_mod_2_eq_one unat_word_ariths)
  next
    case False
    then show ?thesis
      using unat_sum_words [of 0 data] assms by (simp add: s_def even_iff_mod_2_eq_zero)
  qed
  moreover have "checksum data = NOT (ucast (fold_carry s))" by (simp add: checksum_def s_def Let_def)
  ultimately show ?thesis by blast
qed

lemma checksum_zero_iff:
  assumes "word_sum data < 2 ^ 32"
  shows "checksum data = 0 \<longleftrightarrow> 0 < word_sum data \<and> word_sum data mod 65535 = 0"
    and "unat (checksum data) = 65535 - (if word_sum data = 0 then 0
           else if word_sum data mod 65535 = 0 then 65535 else word_sum data mod 65535)"
proof -
  obtain s :: u32 where s: "unat s = word_sum data" "checksum data = NOT (ucast (fold_carry s))"
    using checksum_word_sum [OF assms] by blast
  let ?f = "unat (fold_carry s)"
  have f: "?f mod 65535 = word_sum data mod 65535" "?f < 65536" "?f = 0 \<longleftrightarrow> word_sum data = 0"
    using fold_carry_spec [of s] s(1) by auto
  have "unat (ucast (fold_carry s) :: u16) = ?f"
    using f(2) by (simp add: unsigned_ucast_eq take_bit_eq_mod)
  then have c: "unat (checksum data) = 65535 - ?f" by (simp add: s(2) unat_NOT_u16)
  have f': "?f = (if word_sum data = 0 then 0 else if word_sum data mod 65535 = 0 then 65535 else word_sum data mod 65535)"
    using f by (cases "?f = 65535") (auto simp: mod_less)
  show "unat (checksum data) = 65535 - (if word_sum data = 0 then 0
           else if word_sum data mod 65535 = 0 then 65535 else word_sum data mod 65535)"
    unfolding c f' ..
  have "checksum data = 0 \<longleftrightarrow> unat (checksum data) = 0" by (simp add: unat_eq_0)
  then show "checksum data = 0 \<longleftrightarrow> 0 < word_sum data \<and> word_sum data mod 65535 = 0"
    using c f' f(2) by (auto split: if_splits)
qed

lemma word_sum_append: "even (length xs) \<Longrightarrow> word_sum (xs @ ys) = word_sum xs + word_sum ys"
  by (induction xs rule: word_sum.induct) auto

lemma word_sum_be16: "word_sum (be16 x @ ys) = unat x + word_sum ys"
  by (simp add: be16_def get_be16_split)

lemma word_sum_bound: "word_sum data \<le> 65535 * ((length data + 1) div 2)"
proof (induction data rule: word_sum.induct)
  case (1 a b data)
  have "unat (get_be16 a b) < 2 ^ LENGTH(16)" by (rule unsigned_less)
  with 1 show ?case by simp
next
  case (2 a)
  have "unat a < 2 ^ LENGTH(8)" by (rule unsigned_less)
  then show ?case by simp
qed simp

lemma complement_sum:
  assumes "c = 65535 - (if w = 0 then 0 else if w mod 65535 = 0 then 65535 else w mod 65535)"
  shows "0 < w + c \<and> (w + c) mod 65535 = (0 :: nat)"
proof (cases "w mod 65535 = 0")
  case True
  then show ?thesis using assms by (cases "w = 0") auto
next
  case False
  have "w mod 65535 < 65535" by simp
  moreover have "c = 65535 - w mod 65535" using assms False by auto
  ultimately have "w + c = 65535 * (w div 65535) + 65535"
    using div_mult_mod_eq [of w 65535] by linarith
  then show ?thesis by simp
qed

text \<open>
  The checksum is the one a receiver verifies: filling the 16-bit field at an even offset with
  the checksum of the data in which it was zero makes the checksum of the whole zero, for any
  data of at most 131072 bytes (the 32-bit accumulator cannot overflow there).
\<close>

lemma checksum_filled:
  assumes "even (length pre)" and "length pre + 2 + length post \<le> 131072"
  shows "checksum (pre @ be16 (checksum (pre @ [0, 0] @ post)) @ post) = 0"
proof -
  let ?z = "pre @ [0, 0] @ post"
  let ?c = "checksum ?z"
  let ?d = "pre @ be16 ?c @ post"
  have fits: "word_sum data < 2 ^ 32" if "length data \<le> 131072" for data
  proof -
    have "(length data + 1) div 2 \<le> 65536" using that by simp
    then have "65535 * ((length data + 1) div 2) \<le> 65535 * 65536" by (intro mult_le_mono) auto
    with word_sum_bound [of data] show ?thesis by simp
  qed
  have z: "word_sum ?z = word_sum pre + word_sum post"
    using assms(1) by (simp add: word_sum_append get_be16_def)
  have d: "word_sum ?d = word_sum ?z + unat ?c"
    using assms(1) unfolding z by (simp add: word_sum_append word_sum_be16)
  have "unat ?c = 65535 - (if word_sum ?z = 0 then 0
           else if word_sum ?z mod 65535 = 0 then 65535 else word_sum ?z mod 65535)"
    by (rule checksum_zero_iff) (rule fits, use assms(2) in simp)
  then have "0 < word_sum ?d \<and> word_sum ?d mod 65535 = 0"
    unfolding d by (rule complement_sum)
  then show ?thesis
    using checksum_zero_iff(1) [OF fits, of ?d] assms(2) by simp
qed

section \<open>The DNS answer as an IP packet\<close>

text \<open>\<^verbatim>\<open>copy(p[i:j], src)\<close> and \<^verbatim>\<open>PutUint16(p[i:i+2], x)\<close>.\<close>

definition copy_at :: "nat \<Rightarrow> nat \<Rightarrow> bytes \<Rightarrow> bytes \<Rightarrow> bytes" where
  "copy_at i j src p = (let s = take (j - i) src in take i p @ s @ drop (i + length s) p)"

abbreviation PutUint16 :: "nat \<Rightarrow> u16 \<Rightarrow> bytes \<Rightarrow> bytes" where
  "PutUint16 i x p \<equiv> copy_at i (i + 2) (be16 x) p"

text \<open>A nil slice copies nothing.\<close>

definition To4_slice :: "netip \<Rightarrow> bytes" where
  "To4_slice ip = (case To4 ip of None \<Rightarrow> [] | Some v \<Rightarrow> v)"

definition udpChecksum :: "netip \<Rightarrow> netip \<Rightarrow> bytes \<Rightarrow> u16" where
  "udpChecksum src dst udpData =
     (let pseudoHeader = To4_slice src @ To4_slice dst @ [0, 17] @ be16 (of_nat (length udpData))
      in checksum (pseudoHeader @ udpData))"

definition BuildDNSResponse :: "bytes \<Rightarrow> netip \<Rightarrow> netip \<Rightarrow> bytes result" where
  "BuildDNSResponse rawResp localIp dnsServerIp =
     (if length rawResp < 2 then Inl (New ''raw response too short'')
      else let dstPort = get_be16 (rawResp ! 0) (rawResp ! 1);
               dnsPayload = drop 2 rawResp;
               totalLen = 20 + 8 + length dnsPayload;
               p = replicate totalLen 0;
               p = p[0 := 0x45];
               p = p[1 := 0x00];
               p = PutUint16 2 (of_nat totalLen) p;
               p = PutUint16 4 0 p;
               p = PutUint16 6 0x4000 p;
               p = p[8 := 64];
               p = p[9 := 17];
               p = copy_at 12 16 (To4_slice dnsServerIp) p;
               p = copy_at 16 20 (To4_slice localIp) p;
               p = PutUint16 10 (checksum (take 20 p)) p;
               p = PutUint16 20 53 p;
               p = PutUint16 22 dstPort p;
               p = PutUint16 24 (of_nat (8 + length dnsPayload)) p;
               p = PutUint16 26 0 p;
               p = copy_at 28 totalLen dnsPayload p;
               udpCheck = udpChecksum (take 4 (drop 12 p)) (take 4 (drop 16 p)) (drop 20 p);
               p = PutUint16 26 udpCheck p
           in Inr p)"

text \<open>The layout the code writes, with the two checksum fields as parameters.\<close>

definition ip_header :: "u16 \<Rightarrow> u16 \<Rightarrow> ip4 \<Rightarrow> ip4 \<Rightarrow> bytes" where
  "ip_header len c src dst =
     ([0x45, 0] @ be16 len @ [0, 0, 0x40, 0, 64, 17]) @ be16 c @ ip4_bytes src @ ip4_bytes dst"

definition udp_segment :: "u16 \<Rightarrow> u16 \<Rightarrow> bytes \<Rightarrow> bytes" where
  "udp_segment dstPort c data =
     ([0, 53] @ be16 dstPort @ be16 (of_nat (8 + length data))) @ be16 c @ data"

lemma To4_slice_cases: "To4_slice ip = [] \<and> IpToKey ip = ip4_zero \<or> To4_slice ip = ip4_bytes (IpToKey ip)"
proof (cases "To4 ip")
  case (Some v)
  then have "length v = 4" by (rule To4_length)
  with Some show ?thesis
    by (auto simp: To4_slice_def IpToKey_def length_Suc_conv eval_nat_numeral)
qed (simp add: To4_slice_def IpToKey_def)

lemma replicate_28: "replicate (20 + 8 + n) 0 =
  [0, 0, 0, 0, 0, 0, 0, 0, 0, 0, 0, 0, 0, 0, 0, 0, 0, 0, 0, 0, 0, 0, 0, 0, 0, 0, 0, 0] @ replicate n (0 :: byte)"
  by (simp add: eval_nat_numeral)

lemma copy_at_bytes:
  "copy_at i j [] p = p"
  "PutUint16 i x p = take i p @ be16 x @ drop (i + 2) p"
  by (simp_all add: copy_at_def)

lemma BuildDNSResponse_layout:
  assumes "2 \<le> length rawResp"
  shows "BuildDNSResponse rawResp localIp dnsServerIp =
    (let src = IpToKey dnsServerIp; dst = IpToKey localIp; data = drop 2 rawResp;
         port = get_be16 (rawResp ! 0) (rawResp ! 1); len = of_nat (28 + length data)
     in Inr (ip_header len (checksum (ip_header len 0 src dst)) src dst @
             udp_segment port (udpChecksum (ip4_bytes src) (ip4_bytes dst) (udp_segment port 0 data)) data))"
proof -
  obtain a b c d where src: "IpToKey dnsServerIp = IP4 a b c d" by (cases "IpToKey dnsServerIp")
  obtain e f g h where dst: "IpToKey localIp = IP4 e f g h" by (cases "IpToKey localIp")
  have nil: "a = 0 \<and> b = 0 \<and> c = 0 \<and> d = 0" if "To4_slice dnsServerIp = []"
    using To4_slice_cases [of dnsServerIp] that src by auto
  have nil': "e = 0 \<and> f = 0 \<and> g = 0 \<and> h = 0" if "To4_slice localIp = []"
    using To4_slice_cases [of localIp] that dst by auto
  have s: "To4_slice dnsServerIp = [] \<or> To4_slice dnsServerIp = [a, b, c, d]"
    using To4_slice_cases [of dnsServerIp] src by auto
  have t: "To4_slice localIp = [] \<or> To4_slice localIp = [e, f, g, h]"
    using To4_slice_cases [of localIp] dst by auto
  have be16_53: "be16 53 = [0, 53]" "be16 0x4000 = [0x40, 0]" "be16 0 = [0, 0]"
    by (simp_all add: be16_def)
  define port where "port = get_be16 (rawResp ! 0) (rawResp ! 1)"
  show ?thesis
    using assms s t nil nil'
    unfolding BuildDNSResponse_def replicate_28 Let_def src dst port_def [symmetric]
    by (elim disjE)
      (simp_all add: be16_53 copy_at_def, simp_all add: be16_def ip_header_def udp_segment_def)
qed



end
