(* ===== verification/TunDev.thy ===== *)
theory TunDev
  imports Socket DnsUtil
begin

text \<open>
  The TUN devices of the client (\<^verbatim>\<open>internal/tun\<close>): the state \<^verbatim>\<open>NewTun\<close>
  computes, the commands it runs on Linux, the loop that reads IP packets from the device and
  the loop that writes them, and the other methods of the interface
  \<^verbatim>\<open>Device\<close>, for Linux (\<^verbatim>\<open>device_linux.go\<close>) and for Windows
  (\<^verbatim>\<open>device_windows.go\<close>). The operating system is outside: a turn takes what a read
  delivers and returns what is written. The locale \<open>device_port\<close> is the contract of the interface
  for the writer of name service answers.
\<close>

section \<open>Creation\<close>

record Tun =
  tun_DeviceName :: gostring
  tun_Ip :: netip
  DnsIp :: netip
  tun_Subnet :: IPNet
  tun_domain :: gostring

text \<open>\<^verbatim>\<open>net.CIDRMask(24, 32)\<close>\<close>

definition mask24 :: bytes where
  "mask24 = [255, 255, 255, 0]"

definition tun_state :: "gostring \<Rightarrow> gostring \<Rightarrow> netip \<Rightarrow> Tun" where
  "tun_state name domain ip =
     \<lparr>tun_DeviceName = name, tun_Ip = ip, DnsIp = [ip ! 0, ip ! 1, ip ! 2, 1],
      tun_Subnet = \<lparr>net_IP = ip_Mask ip mask24, net_Mask = mask24\<rparr>, tun_domain = domain\<rparr>"

text \<open>The commands of \<^verbatim>\<open>NewTun\<close> on Linux whose failure is a panic, in order.\<close>

definition clean_domain :: "gostring \<Rightarrow> gostring" where
  "clean_domain domain = (if domain \<noteq> [] \<and> domain ! 0 = 46 then drop 1 domain else domain)"

definition linux_commands :: "gostring \<Rightarrow> gostring \<Rightarrow> netip \<Rightarrow> netip \<Rightarrow> gostring list list" where
  "linux_commands name domain ip dnsIp =
     [[str ''ip'', str ''addr'', str ''add'', ip_String ip @ str ''/24'', str ''dev'', name],
      [str ''ip'', str ''link'', str ''set'', str ''dev'', name, str ''mtu'', str ''1280'', str ''up''],
      [str ''resolvectl'', str ''dns'', name, ip_String dnsIp],
      [str ''resolvectl'', str ''domain'', name, str ''~'' @ clean_domain domain]]"

text \<open>
  \<open>open_ok\<close> and \<open>ioctl_ok\<close> are the outcomes of opening and registering the device, \<open>runs\<close> that of
  a command; \<open>None\<close> is a panic, which an address of fewer than three bytes causes as well.
\<close>

definition NewTun :: "bool \<Rightarrow> bool \<Rightarrow> (gostring list \<Rightarrow> bool) \<Rightarrow> gostring \<Rightarrow> gostring \<Rightarrow> netip \<Rightarrow> Tun option" where
  "NewTun open_ok ioctl_ok runs name domain ip =
     (if length ip < 3 then None
      else if \<not> open_ok then None
      else if \<not> ioctl_ok then None
      else let dev = tun_state name domain ip
           in if list_all runs (linux_commands name domain ip (DnsIp dev)) then Some dev else None)"

text \<open>
  On Windows the driver library is put beside the program first (\<^verbatim>\<open>dll_loader.go\<close>): \<open>arch\<close> is
  the architecture, \<open>exe_ok\<close> says whether the program's own path is known, \<open>there\<close> whether the library
  file exists and \<open>write_ok\<close> whether it can be written. The result says whether it was written. The
  texts of the errors are translated.
\<close>

definition InitWintunDLL :: "gostring \<Rightarrow> bool \<Rightarrow> bool \<Rightarrow> bool \<Rightarrow> bool \<times> error option" where
  "InitWintunDLL arch exe_ok there write_ok =
     (if arch \<noteq> str ''amd64'' then (False, Some (New ''unsupported architecture''))
      else if \<not> exe_ok then (False, Some (External ''executable''))
      else if there then (False, None)
      else if \<not> write_ok then (False, Some (New ''cannot write wintun.dll''))
      else (True, None))"

text \<open>The commands on Windows whose failure is a panic, in order; the byte 39 is the quote.\<close>

definition nrpt_command :: "gostring \<Rightarrow> gostring \<Rightarrow> gostring list" where
  "nrpt_command domain dnsServer =
     [str ''powershell'', str ''-Command'',
      str ''Add-DnsClientNrptRule -Namespace '' @ [39] @ domain @ [39] @
      str '' -NameServers '' @ [39] @ dnsServer @ [39]]"

text \<open>Old rules for the domain are removed first; the result of that command is ignored.\<close>

definition nrpt_clear :: "gostring \<Rightarrow> gostring list" where
  "nrpt_clear domain =
     [str ''powershell'', str ''-Command'',
      str ''Get-DnsClientNrptRule | Where-Object {$_.Namespace -eq '' @ [39] @ domain @ [39] @
      str ''} | Remove-DnsClientNrptRule -ErrorAction SilentlyContinue -Force'']"

text \<open>The commands that were run; \<open>None\<close> is the panic when the rule cannot be added.\<close>

definition setupDnsNrpt :: "(gostring list \<Rightarrow> bool) \<Rightarrow> gostring \<Rightarrow> gostring \<Rightarrow> gostring list list option" where
  "setupDnsNrpt runs domain dnsServer =
     (let clearCmd = nrpt_clear domain; addCmd = nrpt_command domain dnsServer
      in if runs addCmd then Some [clearCmd, addCmd] else None)"

definition windows_commands :: "gostring \<Rightarrow> netip \<Rightarrow> gostring list list" where
  "windows_commands name ip =
     [[str ''netsh'', str ''interface'', str ''ip'', str ''set'', str ''address'', name, str ''static'',
       ip_String ip, ip_String mask24],
      [str ''netsh'', str ''interface'', str ''ipv4'', str ''set'', str ''subinterface'', name, str ''mtu=1280'',
       str ''store=persistent''],
      [str ''powershell'', str ''-Command'',
       str ''[Console]::OutputEncoding = [System.Text.Encoding]::UTF8; Set-NetConnectionProfile -InterfaceAlias '' @
       [39] @ name @ [39] @ str '' -NetworkCategory Private'']]"

text \<open>
  \<open>dll\<close> is what \<^verbatim>\<open>InitWintunDLL\<close> returns, \<open>adapter_ok\<close> and \<open>session_ok\<close> are the outcomes of
  the driver's calls; \<open>None\<close> is a panic or the end of the program.
\<close>

definition NewTun_windows :: "error option \<Rightarrow> bool \<Rightarrow> bool \<Rightarrow> (gostring list \<Rightarrow> bool) \<Rightarrow> gostring \<Rightarrow> gostring \<Rightarrow> netip \<Rightarrow> Tun option" where
  "NewTun_windows dll adapter_ok session_ok runs name domain ip =
     (if length ip < 3 then None
      else if dll \<noteq> None then None
      else if \<not> adapter_ok then None
      else if \<not> session_ok then None
      else let dev = tun_state name domain ip
           in if list_all runs (windows_commands name ip)
              then (case setupDnsNrpt runs domain (ip_String (DnsIp dev)) of None \<Rightarrow> None | Some _ \<Rightarrow> Some dev)
              else None)"

definition Dns :: "Tun \<Rightarrow> netip" where
  "Dns dev = DnsIp dev"

definition tun_Name :: "Tun \<Rightarrow> gostring" where
  "tun_Name dev = tun_DeviceName dev"

section \<open>Answers and closing\<close>

text \<open>
  The device file on Linux: whether it is open and what was written to it. \<open>accept\<close> says which
  packets the kernel takes. A file that is closed refuses every write, and closing it again is an
  error.
\<close>

record tun_file =
  tf_open :: bool
  tf_written :: "bytes list"

definition file_Write :: "(bytes \<Rightarrow> bool) \<Rightarrow> bytes \<Rightarrow> tun_file \<Rightarrow> tun_file \<times> error option" where
  "file_Write accept data f =
     (if \<not> tf_open f then (f, Some (External ''closed''))
      else if accept data then (f\<lparr>tf_written := tf_written f @ [data]\<rparr>, None)
      else (f, Some (External ''write'')))"

definition file_Close :: "tun_file \<Rightarrow> tun_file \<times> error option" where
  "file_Close f = (f\<lparr>tf_open := False\<rparr>, if tf_open f then None else Some (External ''closed''))"

definition SendDNS :: "(bytes \<Rightarrow> bool) \<Rightarrow> bytes \<Rightarrow> tun_file \<Rightarrow> tun_file \<times> error option" where
  "SendDNS accept resp fd = file_Write accept resp fd"

text \<open>The command that is run first and whose result is ignored, and the result.\<close>

definition tun_Close :: "Tun \<Rightarrow> tun_file \<Rightarrow> gostring list \<times> tun_file \<times> error option" where
  "tun_Close dev fd = ([str ''resolvectl'', str ''revert'', tun_DeviceName dev], file_Close fd)"

text \<open>There is no such number on Linux.\<close>

definition tun_LUID :: u64 where
  "tun_LUID = 0"

text \<open>
  The adapter and the session on Windows. \<^verbatim>\<open>AllocateSendPacket(n)\<close> is documented to
  lend \<open>n\<close> bytes of the ring or to fail when there is no room: \<open>room\<close> says when there is, and
  \<open>old\<close> what the bytes of the ring are. \<open>close_err\<close> is what closing the adapter returns.
\<close>

record wintun =
  wt_luid :: u64
  wt_session :: bool
  wt_adapter :: bool
  wt_sent :: "bytes list"

definition AllocateSendPacket :: "(nat \<Rightarrow> bool) \<Rightarrow> (nat \<Rightarrow> byte) \<Rightarrow> nat \<Rightarrow> bytes result" where
  "AllocateSendPacket room old n = (if room n then Inr (map old [0..<n]) else Inl (External ''allocate''))"

definition SendDNS_windows :: "(nat \<Rightarrow> bool) \<Rightarrow> (nat \<Rightarrow> byte) \<Rightarrow> bytes \<Rightarrow> wintun \<Rightarrow> wintun \<times> error option" where
  "SendDNS_windows room old resp w =
     (case AllocateSendPacket room old (length resp) of
        Inr packetBuffer \<Rightarrow>
          (w\<lparr>wt_sent := wt_sent w @ [copy_at 0 (length packetBuffer) resp packetBuffer]\<rparr>, None)
      | Inl err \<Rightarrow> (w, Some err))"

definition tun_Close_windows :: "error option \<Rightarrow> Tun \<Rightarrow> wintun \<Rightarrow> gostring list \<times> wintun \<times> error option" where
  "tun_Close_windows close_err dev w =
     (let w = w\<lparr>wt_session := False\<rparr>;
          w = w\<lparr>wt_adapter := False\<rparr>
      in (nrpt_clear (tun_domain dev), w, close_err))"

definition tun_LUID_windows :: "wintun \<Rightarrow> u64" where
  "tun_LUID_windows w = wt_luid w"

section \<open>The contract of a device\<close>

text \<open>
  What the interface promises to the writer of answers (\<^verbatim>\<open>interface.go\<close>): an answer without
  an error has reached the device unchanged, behind all earlier ones, and one with an error has
  not; closing withdraws nothing.
\<close>

definition delivered :: "bytes list \<Rightarrow> error option list \<Rightarrow> bytes list" where
  "delivered rs es = map fst (filter (\<lambda>(resp, e). e = None) (zip rs es))"

locale device_port =
  fixes send :: "bytes \<Rightarrow> 'd \<Rightarrow> 'd \<times> error option"
    and close :: "'d \<Rightarrow> 'd"
    and sent :: "'d \<Rightarrow> bytes list"
  assumes send_ok: "send resp d = (d', None) \<Longrightarrow> sent d' = sent d @ [resp]"
    and send_error: "send resp d = (d', Some e) \<Longrightarrow> sent d' = sent d"
    and close_keeps: "sent (close d) = sent d"
begin

fun answer_all :: "bytes list \<Rightarrow> 'd \<Rightarrow> 'd \<times> error option list" where
  "answer_all [] d = (d, [])"
| "answer_all (resp # rs) d =
     (case send resp d of (d, e) \<Rightarrow> (case answer_all rs d of (d, es) \<Rightarrow> (d, e # es)))"

lemma answer_all_sent:
  "answer_all rs d = (d', es) \<Longrightarrow>
   sent (close d') = sent d @ delivered rs es"
proof (induction rs arbitrary: d es)
  case (Cons resp rs)
  obtain d1 e where 1: "send resp d = (d1, e)" by (cases "send resp d")
  obtain es2 where 2: "answer_all rs d1 = (d', es2)" "es = e # es2"
    using Cons.prems 1 by (auto split: prod.splits)
  show ?case using Cons.IH [OF 2(1)] 1 2(2) send_ok [of resp d d1] send_error [of resp d d1]
    by (cases e) (auto simp: delivered_def)
qed (simp add: close_keeps delivered_def)

end

interpretation linux_port: device_port "SendDNS accept" "\<lambda>f. fst (snd (tun_Close dev f))" tf_written for accept dev
  by unfold_locales
    (auto simp: SendDNS_def file_Write_def tun_Close_def file_Close_def split: if_split_asm)

interpretation windows_port: device_port "SendDNS_windows room old" "\<lambda>w. fst (snd (tun_Close_windows e dev w))" wt_sent
  for room old e dev
  by unfold_locales
    (auto simp: SendDNS_windows_def AllocateSendPacket_def tun_Close_windows_def copy_at_def split: if_split_asm)

section \<open>From the device to the network\<close>

text \<open>The condition on the destination, the same on both systems.\<close>

definition wanted :: "IPNet \<Rightarrow> netip \<Rightarrow> bool" where
  "wanted net dstIp \<longleftrightarrow>
     ip_Equal dstIp IPv4bcast \<or> dstIp ! 3 = 255 \<or> IsMulticast dstIp \<or>
     (Contains net dstIp \<and> \<not> IsLoopback dstIp)"

datatype tun_read = TunPacket bytes | TunReadError | TunClosed

definition tunRecv :: "bool \<Rightarrow> Tun \<Rightarrow> tun_read \<Rightarrow> bytes chan \<Rightarrow> bytes chan \<times> pump" where
  "tunRecv stop dev ev toNet =
     (case ev of
        TunClosed \<Rightarrow> (toNet, PumpReturn)
      | TunReadError \<Rightarrow> (toNet, PumpContinue)
      | TunPacket packet \<Rightarrow>
          if length packet < 20 \<or> drop_bit 4 (packet ! 0) \<noteq> 4 then (toNet, PumpContinue)
          else if wanted (tun_Subnet dev) (take 4 (drop 16 packet)) then
            (case select_send stop packet toNet of
               (ch, SelSent) \<Rightarrow> (ch, PumpContinue)
             | (ch, SelDone) \<Rightarrow> (ch, PumpReturn)
             | (ch, SelDefault) \<Rightarrow> (ch, PumpContinue))
          else (toNet, PumpContinue))"

text \<open>
  The Windows driver lends a packet, which is copied into a pool buffer; when the ring is empty
  the loop waits for an event.
\<close>

datatype win_read = WinPacket bytes | WinEmpty bool | WinError

definition copied :: "slice \<Rightarrow> bytes \<Rightarrow> bytes" where
  "copied buf packet =
     (let packetLen = length packet;
          buf = (if sl_cap buf < packetLen then make_slice packetLen else buf);
          dst = take packetLen (sl_data buf @ replicate (packetLen - length (sl_data buf)) 0)
      in copy_at 0 packetLen packet dst)"

definition tunRecv_windows :: "slice \<Rightarrow> bool \<Rightarrow> Tun \<Rightarrow> win_read \<Rightarrow> bytes chan \<Rightarrow> bytes chan \<times> pump" where
  "tunRecv_windows buf stop dev ev toNet =
     (case ev of
        WinPacket packet \<Rightarrow>
          if length packet < 20 \<or> drop_bit 4 (packet ! 0) \<noteq> 4 then (toNet, PumpContinue)
          else if wanted (tun_Subnet dev) (take 4 (drop 16 packet)) then
            (case select_send stop (copied buf packet) toNet of
               (ch, SelSent) \<Rightarrow> (ch, PumpContinue)
             | (ch, SelDone) \<Rightarrow> (ch, PumpContinue)
             | (ch, SelDefault) \<Rightarrow> (ch, PumpContinue))
          else (toNet, PumpContinue)
      | WinEmpty ok \<Rightarrow> (toNet, if ok then PumpContinue else PumpReturn)
      | WinError \<Rightarrow> (toNet, PumpContinue))"

section \<open>From the network to the device\<close>

text \<open>One payload on Linux: what is written to the device.\<close>

definition tunSend :: "nat \<Rightarrow> bytes chan \<Rightarrow> (bytes list \<times> bytes chan) option" where
  "tunSend headerLength fromNet =
     (case chan_recv fromNet of
        None \<Rightarrow> None
      | Some (payload, ch) \<Rightarrow>
          Some (if length payload > headerLength then [drop headerLength payload] else [], ch))"

text \<open>
  One batch on Windows: after a first payload that is long enough, up to sixty-three more without
  waiting.
\<close>

fun win_drain :: "nat \<Rightarrow> bytes list \<Rightarrow> bytes list \<Rightarrow> bytes list \<times> bytes list" where
  "win_drain headerLength batch [] = (batch, [])"
| "win_drain headerLength batch (p # queue) =
     (if length batch < 64
      then win_drain headerLength (if length p > headerLength then batch @ [p] else batch) queue
      else (batch, p # queue))"

definition tunSend_windows :: "nat \<Rightarrow> bytes chan \<Rightarrow> (bytes list \<times> bytes chan) option" where
  "tunSend_windows headerLength fromNet =
     (case chan_recv fromNet of
        None \<Rightarrow> None
      | Some (payload, ch) \<Rightarrow>
          (case (if length payload > headerLength then win_drain headerLength [payload] (ch_items ch)
                 else ([], ch_items ch)) of
             (batch, queue) \<Rightarrow> Some (map (drop headerLength) batch, ch\<lparr>ch_items := queue\<rparr>)))"

section \<open>The two systems agree\<close>

lemma copied_packet [simp]: "copied buf packet = packet"
  by (simp add: copied_def copy_at_def Let_def)

lemma tunRecv_agree: "tunRecv_windows buf False dev (WinPacket p) ch = tunRecv False dev (TunPacket p) ch"
  by (simp add: tunRecv_windows_def tunRecv_def select_send_def split: prod.split bool.split)

lemma NewTun_agree:
  assumes "NewTun open_ok ioctl_ok runs name domain ip = Some dev"
    and "NewTun_windows dll adapter_ok session_ok runs' name domain ip = Some dev'"
  shows "dev' = dev"
  using assms by (simp add: NewTun_def NewTun_windows_def Let_def split: if_split_asm option.split_asm)

text \<open>What has to be written for the payloads of a queue.\<close>

definition device_writes :: "nat \<Rightarrow> bytes list \<Rightarrow> bytes list" where
  "device_writes headerLength ps = map (drop headerLength) (filter (\<lambda>p. length p > headerLength) ps)"

lemma device_writes_append: "device_writes n (xs @ ys) = device_writes n xs @ device_writes n ys"
  by (simp add: device_writes_def)

interpretation linux_tun: queue_writer "tunSend n" "device_writes n" for n
proof
  fix ch :: "bytes chan" and out ch'
  show "tunSend n ch = None \<longleftrightarrow> ch_items ch = []"
    by (simp add: tunSend_def chan_recv_def split: list.split)
  assume "tunSend n ch = Some (out, ch')"
  then show "\<exists>pre. pre \<noteq> [] \<and> ch_items ch = pre @ ch_items ch' \<and> out = device_writes n pre"
    by (auto simp: tunSend_def chan_recv_def device_writes_def split: list.splits intro!: exI [of _ "[hd (ch_items ch)]"])
qed (rule device_writes_append)

lemma win_drain_spec:
  "win_drain n batch queue = (batch', queue') \<Longrightarrow>
   \<exists>pre. queue = pre @ queue' \<and> batch' = batch @ filter (\<lambda>p. length p > n) pre"
proof (induction n batch queue rule: win_drain.induct)
  case (2 n batch p queue)
  show ?case
  proof (cases "length batch < 64")
    case True
    then obtain pre where "queue = pre @ queue'"
      "batch' = (if length p > n then batch @ [p] else batch) @ filter (\<lambda>p. length p > n) pre"
      using 2 by fastforce
    then show ?thesis by (intro exI [of _ "p # pre"]) simp
  qed (use 2 in auto)
qed simp

interpretation windows_tun: queue_writer "tunSend_windows n" "device_writes n" for n
proof
  fix ch :: "bytes chan" and out ch'
  show "tunSend_windows n ch = None \<longleftrightarrow> ch_items ch = []"
    by (simp add: tunSend_windows_def chan_recv_def split: list.split prod.split)
  assume s: "tunSend_windows n ch = Some (out, ch')"
  then obtain p queue where q: "ch_items ch = p # queue"
    by (cases "ch_items ch") (auto simp: tunSend_windows_def chan_recv_def)
  show "\<exists>pre. pre \<noteq> [] \<and> ch_items ch = pre @ ch_items ch' \<and> out = device_writes n pre"
  proof (cases "length p > n")
    case True
    obtain batch rest where w: "win_drain n [p] queue = (batch, rest)" by (cases "win_drain n [p] queue")
    obtain pre where "queue = pre @ rest" "batch = p # filter (\<lambda>p. length p > n) pre"
      using win_drain_spec [OF w] by auto
    then show ?thesis using s q w True
      by (intro exI [of _ "p # pre"]) (auto simp: tunSend_windows_def chan_recv_def device_writes_def)
  next
    case False
    then show ?thesis using s q
      by (intro exI [of _ "[p]"]) (auto simp: tunSend_windows_def chan_recv_def device_writes_def)
  qed
qed (rule device_writes_append)


section \<open>What passes the filter\<close>

lemma mask24_four: "length ip = 4 \<Longrightarrow> ip_Mask ip mask24 = [ip ! 0, ip ! 1, ip ! 2, 0]"
  by (auto simp: ip_Mask_def mask24_def mask_bytes_def length_Suc_conv numeral_eq_Suc)

lemma wanted_iff:
  assumes "length ip = 4"
  shows "wanted (tun_Subnet (tun_state name domain ip)) [a, b, c, d] \<longleftrightarrow>
    d = 255 \<or> a AND 0xf0 = 0xe0 \<or> (a \<noteq> 127 \<and> a = ip ! 0 \<and> b = ip ! 1 \<and> c = ip ! 2)"
proof -
  have "Contains (tun_Subnet (tun_state name domain ip)) [a, b, c, d] \<longleftrightarrow> a = ip ! 0 \<and> b = ip ! 1 \<and> c = ip ! 2"
    using mask24_four [OF assms] by (auto simp: Contains_def tun_state_def mask24_def mask_bytes_def)
  moreover have "ip_Equal [a, b, c, d] IPv4bcast \<longleftrightarrow> a = 255 \<and> b = 255 \<and> c = 255 \<and> d = 255"
    by (auto simp: ip_Equal_def IPv4bcast_def net_IPv4_def)
  ultimately show ?thesis
    by (auto simp: wanted_def IsMulticast_def IsLoopback_def)
qed

end
