(* ===== verification/Board.thy ===== *)
theory Board
  imports NetUtil
begin

text \<open>
  The status board of the client (\<^verbatim>\<open>internal/ui/performance.go\<close>). The transport and the
  board share the status word and the counters by pointer; here they are fields of the board,
  which is part of the transport. Rendering (\<^verbatim>\<open>pterm\<close>) is outside: the colouring and
  boxing functions are parameters, and a turn returns the texts and values it renders.
\<close>

section \<open>Data\<close>

definition INIT :: u32 where "INIT = 0"
definition TESTNAT :: u32 where "TESTNAT = 1"
definition CONNECT :: u32 where "CONNECT = 2"
definition INTINETWORK :: u32 where "INTINETWORK = 3"
definition RUNNING :: u32 where "RUNNING = 4"
definition RECONNECTING :: u32 where "RECONNECTING = 5"
definition CLOSING :: u32 where "CLOSING = 6"

lemmas status_defs = INIT_def TESTNAT_def CONNECT_def INTINETWORK_def RUNNING_def RECONNECTING_def CLOSING_def

definition STAT :: "(u32, gostring) gomap" where
  "STAT =
     gm_set CLOSING (str ''Closing'') (gm_set RECONNECTING (str ''Reconnecting'')
     (gm_set RUNNING (str ''Running'') (gm_set INTINETWORK (str ''Init Virtual Work'')
     (gm_set CONNECT (str ''Connecting Server'') (gm_set TESTNAT (str ''Test Nat'')
     (gm_set INIT (str ''Init'') []))))))"

record Info =
  info_key :: gostring
  info_val :: gostring
  info_color :: "(gostring \<Rightarrow> gostring) option"

record Board =
  bd_status :: u32
  sendCounter :: u64
  recvCounter :: u64
  bd_sendBytes :: u64
  bd_recvBytes :: u64
  bd_hostname :: gostring
  bd_localIp :: ip4
  bd_infos :: "Info list"

definition NewBoard :: "u32 \<Rightarrow> u64 \<Rightarrow> u64 \<Rightarrow> u64 \<Rightarrow> u64 \<Rightarrow> Board" where
  "NewBoard status sc rc sb rb =
     \<lparr>bd_status = status, sendCounter = sc, recvCounter = rc, bd_sendBytes = sb, bd_recvBytes = rb,
      bd_hostname = [], bd_localIp = ip4_zero, bd_infos = []\<rparr>"

definition InitLocalIp :: "ip4 \<Rightarrow> Board \<Rightarrow> Board" where
  "InitLocalIp ip b = b\<lparr>bd_localIp := ip\<rparr>"

definition InitHostName :: "gostring \<Rightarrow> Board \<Rightarrow> Board" where
  "InitHostName name b = b\<lparr>bd_hostname := name\<rparr>"

definition AddInfo :: "gostring \<Rightarrow> gostring \<Rightarrow> (gostring \<Rightarrow> gostring) option \<Rightarrow> Board \<Rightarrow> Board" where
  "AddInfo key val color b =
     b\<lparr>bd_infos := bd_infos b @ [\<lparr>info_key = key, info_val = val, info_color = color\<rparr>]\<rparr>"

section \<open>Rendering\<close>

text \<open>The bars of one chart; an index outside the history is a panic.\<close>

definition bar_label :: "nat \<Rightarrow> gostring" where
  "bar_label i = (if i = 4 then str ''NOW'' else str ''  -'' @ Itoa (4 - i) @ str ''s  '')"

function make_bars :: "nat \<Rightarrow> int list \<Rightarrow> (gostring \<times> int) list option" where
  "make_bars i history =
     (if i < 5 then
        if i < length history then
          map_option (\<lambda>bars. (bar_label i, history ! i) # bars) (make_bars (i + 1) history)
        else None
      else Some [])"
  by pat_completeness auto

termination
  by (relation "measure (\<lambda>(i, history). 5 - i)") auto

declare make_bars.simps [simp del]

definition generateBar :: "int list \<Rightarrow> int list \<Rightarrow> ((gostring \<times> int) list \<times> (gostring \<times> int) list) option" where
  "generateBar sendHistory recvHistory =
     (case (make_bars 0 sendHistory, make_bars 0 recvHistory) of
        (Some s, Some r) \<Rightarrow> Some (s, r)
      | _ \<Rightarrow> None)"

text \<open>\<^verbatim>\<open>%v\<close> of a \<^verbatim>\<open>[4]byte\<close>\<close>

fun show_ip4 :: "ip4 \<Rightarrow> gostring" where
  "show_ip4 (IP4 a b c d) =
     str ''['' @ Itoa (unat a) @ str '' '' @ Itoa (unat b) @ str '' '' @ Itoa (unat c) @ str '' '' @
     Itoa (unat d) @ str '']''"

fun info_lines :: "(gostring \<Rightarrow> gostring) \<Rightarrow> Info list \<Rightarrow> gostring" where
  "info_lines cyan [] = []"
| "info_lines cyan (i # is) =
     (case info_color i of
        Some color \<Rightarrow> cyan (info_key i @ str '': '') @ color (info_val i @ [10])
      | None \<Rightarrow> cyan (info_key i @ str '': '') @ info_val i @ [10]) @ info_lines cyan is"

definition generateInfo :: "(gostring \<Rightarrow> gostring) \<Rightarrow> (gostring \<Rightarrow> gostring) \<Rightarrow> Board \<Rightarrow> gostring option" where
  "generateInfo cyan box b =
     (case (FormatBytes (bd_sendBytes b), FormatBytes (bd_recvBytes b)) of
        (Some sent, Some received) \<Rightarrow>
          Some (box (cyan (str ''Virtual Ip: '') @ show_ip4 (bd_localIp b) @ [10] @
            cyan (str ''Host Name: '') @ bd_hostname b @ [10] @
            info_lines cyan (bd_infos b) @
            cyan (str ''Send Bytes: '' @ sent @ [10]) @
            cyan (str ''Recv Bytes: '' @ received @ [10])))
      | _ \<Rightarrow> None)"

section \<open>The display loop\<close>

record Perf =
  sendHistory :: "int list"
  recvHistory :: "int list"
  lastSend :: u64
  lastRecv :: u64

definition perf_start :: Perf where
  "perf_start = \<lparr>sendHistory = replicate 5 0, recvHistory = replicate 5 0, lastSend = 0, lastRecv = 0\<rparr>"

record frame_view =
  fv_info :: gostring
  fv_bars :: "(gostring \<times> int) list \<times> (gostring \<times> int) list"
  fv_status :: gostring

text \<open>
  One tick, given the board as it is then: the history moves on by one (\<^verbatim>\<open>history[1:]\<close>
  panics on an empty one), the difference of the counters is taken in 64 bits and converted to
  a signed number. The flag says whether the loop goes on.
\<close>

definition perf_tick :: "(gostring \<Rightarrow> gostring) \<Rightarrow> (gostring \<Rightarrow> gostring) \<Rightarrow> Board \<Rightarrow> Perf \<Rightarrow> (Perf \<times> frame_view \<times> bool) option" where
  "perf_tick cyan box b p =
     (if sendHistory p = [] \<or> recvHistory p = [] then None
      else
        let curSend = sendCounter b; curRecv = recvCounter b; curStatus = bd_status b;
            sh = tl (sendHistory p) @ [sint (curSend - lastSend p)];
            rh = tl (recvHistory p) @ [sint (curRecv - lastRecv p)]
        in case (generateInfo cyan box b, generateBar sh rh) of
             (Some info, Some bars) \<Rightarrow>
               Some (\<lparr>sendHistory = sh, recvHistory = rh, lastSend = curSend, lastRecv = curRecv\<rparr>,
                     \<lparr>fv_info = info, fv_bars = bars,
                      fv_status = (case gm_get STAT curStatus of Some s \<Rightarrow> s | None \<Rightarrow> [])\<rparr>,
                     curStatus \<noteq> CLOSING)
           | _ \<Rightarrow> None)"

text \<open>The loop over the ticks, given the board at each; it ends with the first closing status.\<close>

fun PerformanceUi :: "(gostring \<Rightarrow> gostring) \<Rightarrow> (gostring \<Rightarrow> gostring) \<Rightarrow> Board list \<Rightarrow> Perf \<Rightarrow> (frame_view list \<times> Perf) option" where
  "PerformanceUi cyan box [] p = Some ([], p)"
| "PerformanceUi cyan box (b # bs) p =
     (case perf_tick cyan box b p of
        None \<Rightarrow> None
      | Some (p, frame, True) \<Rightarrow> map_option (apfst ((#) frame)) (PerformanceUi cyan box bs p)
      | Some (p, frame, False) \<Rightarrow> Some ([frame], p))"

section \<open>What is shown\<close>

lemma make_bars_five:
  assumes "length h = 5"
  shows "make_bars 0 h = Some (map (\<lambda>i. (bar_label i, h ! i)) [0..<5])"
  using assms by (simp add: make_bars.simps upt_rec)

text \<open>The differences of a sequence of counter values.\<close>

fun diffs :: "u64 \<Rightarrow> u64 list \<Rightarrow> int list" where
  "diffs c [] = []"
| "diffs c (d # ds) = sint (d - c) # diffs d ds"

lemma length_diffs [simp]: "length (diffs c ds) = length ds"
  by (induction c ds rule: diffs.induct) auto

lemma perf_tick_five:
  assumes "length (sendHistory p) = 5" "length (recvHistory p) = 5"
  shows "\<exists>frame. perf_tick cyan box b p =
    Some (\<lparr>sendHistory = tl (sendHistory p) @ [sint (sendCounter b - lastSend p)],
           recvHistory = tl (recvHistory p) @ [sint (recvCounter b - lastRecv p)],
           lastSend = sendCounter b, lastRecv = recvCounter b\<rparr>, frame, bd_status b \<noteq> CLOSING)"
proof -
  have "sendHistory p \<noteq> []" "recvHistory p \<noteq> []" using assms by auto
  moreover have "length (tl (sendHistory p) @ [x]) = 5" "length (tl (recvHistory p) @ [x]) = 5" for x
    using assms by simp_all
  moreover obtain info where "generateInfo cyan box b = Some info"
    using FormatBytes_total [of "bd_sendBytes b"] FormatBytes_total [of "bd_recvBytes b"] by (auto simp: generateInfo_def)
  ultimately show ?thesis by (simp add: perf_tick_def generateBar_def make_bars_five Let_def)
qed

lemma window_step: "length xs = 5 \<Longrightarrow> drop (Suc n) (xs @ y # ys) = drop n ((tl xs @ [y]) @ ys)"
  by (cases xs) auto

lemma display_window:
  assumes "length (sendHistory p) = 5" "length (recvHistory p) = 5" "\<forall>b\<in>set bs. bd_status b \<noteq> CLOSING"
  shows "\<exists>frames p'. PerformanceUi cyan box bs p = Some (frames, p') \<and> length frames = length bs \<and>
    sendHistory p' = drop (length bs) (sendHistory p @ diffs (lastSend p) (map sendCounter bs)) \<and>
    recvHistory p' = drop (length bs) (recvHistory p @ diffs (lastRecv p) (map recvCounter bs))"
  using assms
proof (induction bs arbitrary: p)
  case (Cons b bs)
  obtain frame where t: "perf_tick cyan box b p =
    Some (\<lparr>sendHistory = tl (sendHistory p) @ [sint (sendCounter b - lastSend p)],
           recvHistory = tl (recvHistory p) @ [sint (recvCounter b - lastRecv p)],
           lastSend = sendCounter b, lastRecv = recvCounter b\<rparr>, frame, bd_status b \<noteq> CLOSING)"
    (is "_ = Some (?p, _)") using perf_tick_five [OF Cons.prems(1,2)] by blast
  have "length (sendHistory ?p) = 5" "length (recvHistory ?p) = 5" using Cons.prems by simp_all
  from Cons.IH [OF this] Cons.prems(3) obtain frames p' where
    "PerformanceUi cyan box bs ?p = Some (frames, p')" "length frames = length bs"
    "sendHistory p' = drop (length bs) (sendHistory ?p @ diffs (lastSend ?p) (map sendCounter bs))"
    "recvHistory p' = drop (length bs) (recvHistory ?p @ diffs (lastRecv ?p) (map recvCounter bs))"
    by auto
  then show ?case
    using t Cons.prems window_step [OF Cons.prems(1)] window_step [OF Cons.prems(2)] by auto
qed simp

text \<open>
  The display shows the packet rates of the last five seconds and never fails: for every sequence
  of ticks before the client closes, the two charts hold the last five of the per-tick
  differences of the send and receive counters (with zeros before the first tick).
\<close>

lemma display_rates:
  assumes "\<forall>b\<in>set bs. bd_status b \<noteq> CLOSING"
  shows "\<exists>frames p. PerformanceUi cyan box bs perf_start = Some (frames, p) \<and> length frames = length bs \<and>
    sendHistory p = drop (length bs) (replicate 5 0 @ diffs 0 (map sendCounter bs)) \<and>
    recvHistory p = drop (length bs) (replicate 5 0 @ diffs 0 (map recvCounter bs))"
  using display_window [of perf_start bs cyan box] assms by (simp add: perf_start_def)

end
