(* ===== verification/Config.thy ===== *)
theory Config
  imports NetUtil
begin

text \<open>
  The configuration of client and server (\<^verbatim>\<open>internal/config/config.go\<close>). The file
  system, the random source, the TOML decoder and the duration parser are outside: their results
  are arguments. Durations are nanoseconds. A panic is \<open>None\<close>.
\<close>

section \<open>Data\<close>

record ServerConfig =
  cf_ServerIp :: gostring
  cf_ServerPort :: int
  cf_CheckPort :: int
  cf_RetentionTime :: gostring

record DeviceConfig =
  cf_DeviceName :: gostring

record PerformanceConfig =
  cf_ReadTimeout :: gostring
  cf_PingTime :: gostring
  cf_SendWorkers :: int
  cf_RecvWorkers :: int

record FeaturesConfig =
  cf_EnableP2P :: bool
  cf_EnableUi :: bool
  cf_EnableCompress :: bool

record Configuration =
  cf_Server :: ServerConfig
  cf_Device :: DeviceConfig
  cf_Performance :: PerformanceConfig
  cf_Features :: FeaturesConfig

text \<open>The package's variables.\<close>

record Settings =
  ServerIp :: gostring
  ServerPort :: int
  DeviceName :: gostring
  ClientID :: bytes
  ReadTimeout :: int
  RetentionTime :: int
  PingTime :: int
  SendWorkers :: int
  RecvWorkers :: int
  CheckPort :: int
  EnableP2P :: bool
  EnableUi :: bool
  EnableCompress :: bool

section \<open>Loading\<close>

text \<open>The files as they are when the program starts: a missing or unreadable one is \<open>None\<close>.\<close>

type_synonym files = "gostring \<Rightarrow> bytes option"

abbreviation config_toml :: gostring where "config_toml \<equiv> str ''config.toml''"

abbreviation cidPath :: gostring where "cidPath \<equiv> str ''.client_id''"

definition config_data :: "files \<Rightarrow> (gostring \<Rightarrow> bool) \<Rightarrow> bytes \<Rightarrow> gostring \<Rightarrow> bytes option" where
  "config_data fs stat ConfigBytes localPath =
     (if localPath \<noteq> [] then fs localPath
      else if stat config_toml then fs config_toml
      else Some ConfigBytes)"

definition duration_or :: "(gostring \<Rightarrow> int option) \<Rightarrow> gostring \<Rightarrow> int \<Rightarrow> int" where
  "duration_or parse s dflt = (case parse s of Some d \<Rightarrow> d | None \<Rightarrow> dflt)"

text \<open>
  The identifier and the file written for it: a sixteen-byte file is used as it is, otherwise
  sixteen random bytes are taken and written (an error of the write is ignored).
\<close>

definition load_client_id :: "files \<Rightarrow> bytes option \<Rightarrow> (bytes \<times> (gostring \<times> bytes) list) option" where
  "load_client_id fs random =
     (case fs cidPath of
        Some fileData \<Rightarrow>
          if length fileData = 16 then Some (fileData, [])
          else map_option (\<lambda>r. (r, [(cidPath, r)])) random
      | None \<Rightarrow> map_option (\<lambda>r. (r, [(cidPath, r)])) random)"

definition InitConfig :: "files \<Rightarrow> (gostring \<Rightarrow> bool) \<Rightarrow> bytes \<Rightarrow> (bytes \<Rightarrow> Configuration option) \<Rightarrow>
    (gostring \<Rightarrow> int option) \<Rightarrow> bytes option \<Rightarrow> gostring \<Rightarrow> (Settings \<times> (gostring \<times> bytes) list) option" where
  "InitConfig fs stat ConfigBytes unmarshal ParseDuration random localPath =
     (case config_data fs stat ConfigBytes localPath of
        None \<Rightarrow> None
      | Some data \<Rightarrow>
     (case unmarshal data of
        None \<Rightarrow> None
      | Some conf \<Rightarrow>
          let server = cf_Server conf; perf = cf_Performance conf; feat = cf_Features conf;
              name = cf_DeviceName (cf_Device conf);
              retention = duration_or ParseDuration (cf_RetentionTime server) (5 * 60 * 10 ^ 9);
              readTimeout = duration_or ParseDuration (cf_ReadTimeout perf) (10 * 10 ^ 9);
              pingTime = duration_or ParseDuration (cf_PingTime perf) (1 * 10 ^ 9);
              sw = (if cf_SendWorkers perf < 1 then 1 else cf_SendWorkers perf);
              rw = (if cf_RecvWorkers perf < 1 then 1 else cf_RecvWorkers perf)
          in if length name > 10 \<or> length name < 1 then None
             else (case load_client_id fs random of
                     None \<Rightarrow> None
                   | Some (cid, writes) \<Rightarrow>
                       Some (\<lparr>ServerIp = cf_ServerIp server, ServerPort = cf_ServerPort server, DeviceName = name,
                              ClientID = cid, ReadTimeout = readTimeout, RetentionTime = retention,
                              PingTime = pingTime, SendWorkers = sw, RecvWorkers = rw,
                              CheckPort = cf_CheckPort server, EnableP2P = cf_EnableP2P feat,
                              EnableUi = cf_EnableUi feat, EnableCompress = cf_EnableCompress feat\<rparr>, writes))))"

section \<open>What the rest of the program relies on\<close>

definition settings_ok :: "Settings \<Rightarrow> bool" where
  "settings_ok c \<longleftrightarrow>
     1 \<le> length (DeviceName c) \<and> length (DeviceName c) \<le> 10 \<and> length (ClientID c) = 16 \<and>
     1 \<le> SendWorkers c \<and> 1 \<le> RecvWorkers c"

text \<open>The files after the writes of a run.\<close>

fun after_writes :: "(gostring \<times> bytes) list \<Rightarrow> files \<Rightarrow> files" where
  "after_writes [] fs = fs"
| "after_writes ((p, d) # ws) fs = after_writes ws (fs(p \<mapsto> d))"

lemma InitConfig_cases:
  assumes "InitConfig fs stat emb unm pd random path = Some (c, ws)"
  shows "load_client_id fs random = Some (ClientID c, ws)" and "1 \<le> length (DeviceName c)" "length (DeviceName c) \<le> 10"
    and "1 \<le> SendWorkers c" "1 \<le> RecvWorkers c"
  using assms by (auto simp: InitConfig_def Let_def Suc_le_eq split: option.splits if_splits)

lemma load_client_id_length:
  "load_client_id fs random = Some (cid, ws) \<Longrightarrow> (\<And>r. random = Some r \<Longrightarrow> length r = 16) \<Longrightarrow> length cid = 16"
  by (auto simp: load_client_id_def split: option.splits if_splits)


definition demo_configuration :: Configuration where
  "demo_configuration =
     \<lparr>cf_Server = \<lparr>cf_ServerIp = str ''127.0.0.1'', cf_ServerPort = 10020, cf_CheckPort = 10022, cf_RetentionTime = str ''5m''\<rparr>,
      cf_Device = \<lparr>cf_DeviceName = str ''pc''\<rparr>,
      cf_Performance = \<lparr>cf_ReadTimeout = str ''10s'', cf_PingTime = [], cf_SendWorkers = 0, cf_RecvWorkers = 2\<rparr>,
      cf_Features = \<lparr>cf_EnableP2P = True, cf_EnableUi = False, cf_EnableCompress = True\<rparr>\<rparr>"


end
