(* ===== verification/Tunnel.thy ===== *)
theory Tunnel
  imports GoMap NetUtil
begin

text \<open>
  \<^verbatim>\<open>internal/stun\<close>: NAT types (\<^verbatim>\<open>p2p.go\<close>), the server's table of
  direct tunnels between two clients (\<^verbatim>\<open>server.go\<close>) and the client's view of one peer
  (\<^verbatim>\<open>client.go\<close>). The tunnel table is keyed by an unordered pair of addresses; the
  locale \<open>pair_table\<close> is that contract. The hub's decisions that read and write only this
  table (\<^verbatim>\<open>ifEstablish\<close>, \<^verbatim>\<open>handleP2PEstablished\<close>,
  \<^verbatim>\<open>handleP2PClosed\<close> and the table part of \<^verbatim>\<open>handleP2PTask\<close>) stand
  here too. A tunnel found by \<^verbatim>\<open>Exist\<close> is a pointer into the table, so writing
  through it is an update of the entry.
\<close>

section \<open>NAT types (internal/stun/p2p.go)\<close>

definition TypeBlock :: byte where "TypeBlock = 1"
definition TypeUnknown :: byte where "TypeUnknown = 2"
definition TypeCone :: byte where "TypeCone = 3"
definition TypeSymmetric :: byte where "TypeSymmetric = 4"

lemmas nat_type_defs = TypeBlock_def TypeUnknown_def TypeCone_def TypeSymmetric_def

text \<open>The answers of the NAT test library the code distinguishes.\<close>

datatype nat_answer = Blocked | FullCone | RestrictNAT | RestrictPortNAT | SymmetricNAT | OtherNat string

definition GetNatType :: "nat_answer result \<Rightarrow> byte result" where
  "GetNatType GetIpInfo =
     (case GetIpInfo of
        Inl err \<Rightarrow> Inl err
      | Inr natType \<Rightarrow>
          (case natType of
             Blocked \<Rightarrow> Inr TypeBlock
           | FullCone \<Rightarrow> Inr TypeCone
           | RestrictNAT \<Rightarrow> Inr TypeCone
           | RestrictPortNAT \<Rightarrow> Inr TypeCone
           | SymmetricNAT \<Rightarrow> Inr TypeSymmetric
           | OtherNat s \<Rightarrow> Inl (New (''unknown natType '' @ s))))"

section \<open>The tunnel table (internal/stun/server.go)\<close>

definition TunnelInit :: u32 where "TunnelInit = 1"
definition TunnelConnected :: u32 where "TunnelConnected = 2"
definition TunnelFailed :: u32 where "TunnelFailed = 3"

lemmas tunnel_status_defs = TunnelInit_def TunnelConnected_def TunnelFailed_def

record P2PTask =
  pt_DstVip :: ip4
  pt_Dst :: addrport
  pt_SrcVip :: ip4
  pt_Src :: addrport

record P2PTunnel =
  tun_A :: ip4
  tun_B :: ip4
  tun_Status :: u32
  tun_RetryTimes :: u32
  tun_InitCnt :: byte

definition AddRetryTimes :: "P2PTunnel \<Rightarrow> P2PTunnel" where
  "AddRetryTimes t = t\<lparr>tun_RetryTimes := tun_RetryTimes t + 1\<rparr>"

definition GetRetryTimes :: "P2PTunnel \<Rightarrow> u32" where
  "GetRetryTimes t = tun_RetryTimes t"

definition ChangeStatus :: "u32 \<Rightarrow> P2PTunnel \<Rightarrow> P2PTunnel" where
  "ChangeStatus status t = t\<lparr>tun_Status := status\<rparr>"

definition GetStatus :: "P2PTunnel \<Rightarrow> u32" where
  "GetStatus t = tun_Status t"

lemmas tunnel_simps = AddRetryTimes_def GetRetryTimes_def ChangeStatus_def GetStatus_def

type_synonym TunnelManager = "(bytes, P2PTunnel) gomap"

definition NewTunnelManager :: TunnelManager where
  "NewTunnelManager = []"

definition makeKey :: "ip4 \<Rightarrow> ip4 \<Rightarrow> bytes" where
  "makeKey A B = (if bytes_Compare (ip4_bytes A) (ip4_bytes B) < 0
                  then ip4_bytes A @ ip4_bytes B else ip4_bytes B @ ip4_bytes A)"

definition Exist :: "ip4 \<Rightarrow> ip4 \<Rightarrow> TunnelManager \<Rightarrow> P2PTunnel option" where
  "Exist A B tm = gm_get tm (makeKey A B)"

definition AddTunnel :: "ip4 \<Rightarrow> ip4 \<Rightarrow> u32 \<Rightarrow> TunnelManager \<Rightarrow> TunnelManager" where
  "AddTunnel A B status tm =
     (let key = makeKey A B
      in case gm_get tm key of
           Some _ \<Rightarrow> tm
         | None \<Rightarrow> gm_set key \<lparr>tun_A = A, tun_B = B, tun_Status = status, tun_RetryTimes = 0, tun_InitCnt = 0\<rparr> tm)"

definition RemoveTunnel :: "ip4 \<Rightarrow> ip4 \<Rightarrow> TunnelManager \<Rightarrow> TunnelManager" where
  "RemoveTunnel A B tm = gm_delete (makeKey A B) tm"

text \<open>The loop ranges over the table while it deletes from it.\<close>

fun remove_loop :: "ip4 \<Rightarrow> (bytes \<times> P2PTunnel) list \<Rightarrow> TunnelManager \<Rightarrow> TunnelManager" where
  "remove_loop A [] tm = tm"
| "remove_loop A ((key, t) # rest) tm =
     remove_loop A rest (if tun_A t = A \<or> tun_B t = A then gm_delete key tm else tm)"

definition RemoveA :: "ip4 \<Rightarrow> TunnelManager \<Rightarrow> TunnelManager" where
  "RemoveA A tm = remove_loop A tm tm"

text \<open>A write through the pointer returned by \<open>Exist\<close>.\<close>

definition tunnel_write :: "ip4 \<Rightarrow> ip4 \<Rightarrow> P2PTunnel \<Rightarrow> TunnelManager \<Rightarrow> TunnelManager" where
  "tunnel_write A B t tm = gm_set (makeKey A B) t tm"

lemma makeKey_sym: "makeKey A B = makeKey B A"
  by (cases A B rule: linorder_cases)
    (auto simp: makeKey_def bytes_Compare_less_iff)

lemma makeKey_eq_iff: "makeKey A B = makeKey C D \<longleftrightarrow> (A = C \<and> B = D) \<or> (A = D \<and> B = C)"
  by (cases A B rule: linorder_cases; cases C D rule: linorder_cases)
    (auto simp: makeKey_def bytes_Compare_less_iff)

lemma length_makeKey: "length (makeKey A B) = 8"
  by (simp add: makeKey_def)

definition tm_wf :: "TunnelManager \<Rightarrow> bool" where
  "tm_wf tm \<longleftrightarrow> gm_wf tm \<and> (\<forall>(key, t) \<in> set tm. key = makeKey (tun_A t) (tun_B t))"

lemma tm_wf_New [simp]: "tm_wf NewTunnelManager"
  by (simp add: tm_wf_def NewTunnelManager_def)

lemma gm_wf_tm: "tm_wf tm \<Longrightarrow> gm_wf tm"
  by (simp add: tm_wf_def)

lemma tm_wf_write:
  "tm_wf tm \<Longrightarrow> makeKey (tun_A t) (tun_B t) = makeKey A B \<Longrightarrow> tm_wf (tunnel_write A B t tm)"
  by (auto simp: tm_wf_def tunnel_write_def set_gm_set)

lemma tm_wf_get: "tm_wf tm \<Longrightarrow> Exist A B tm = Some t \<Longrightarrow> makeKey (tun_A t) (tun_B t) = makeKey A B"
  by (auto simp: tm_wf_def Exist_def gm_get_Some_iff)

lemma remove_loop_filter:
  "remove_loop A es tm =
     filter (\<lambda>(key, _). \<forall>t. (key, t) \<in> set es \<longrightarrow> tun_A t \<noteq> A \<and> tun_B t \<noteq> A) tm"
proof (induction A es tm rule: remove_loop.induct)
  case (2 A key t rest tm)
  then show ?case
    by (auto simp: gm_delete_def intro!: filter_cong)
qed simp

lemma RemoveA_filter:
  assumes "gm_wf tm"
  shows "RemoveA A tm = filter (\<lambda>(_, t). tun_A t \<noteq> A \<and> tun_B t \<noteq> A) tm"
proof -
  have "(\<forall>t'. (key, t') \<in> set tm \<longrightarrow> tun_A t' \<noteq> A \<and> tun_B t' \<noteq> A) \<longleftrightarrow> tun_A t \<noteq> A \<and> tun_B t \<noteq> A"
    if "(key, t) \<in> set tm" for key t
    using that assms by (metis gm_get_Some_iff option.inject)
  then show ?thesis
    unfolding RemoveA_def remove_loop_filter by (intro filter_cong) auto
qed

lemma tm_wf_RemoveA: "tm_wf tm \<Longrightarrow> tm_wf (RemoveA A tm)"
  by (auto simp: tm_wf_def RemoveA_filter gm_wf_def distinct_map_filter)

lemma Exist_RemoveA:
  assumes "tm_wf tm"
  shows "Exist C D (RemoveA A tm) = (if C = A \<or> D = A then None else Exist C D tm)"
proof -
  have wf: "gm_wf tm" "gm_wf (RemoveA A tm)"
    using assms tm_wf_RemoveA by (auto simp: tm_wf_def)
  have "Exist C D (RemoveA A tm) = Some t \<longleftrightarrow> (if C = A \<or> D = A then None else Exist C D tm) = Some t" for t
    using assms wf
    by (auto simp: Exist_def gm_get_Some_iff RemoveA_filter tm_wf_def makeKey_eq_iff dest: bspec)
  then show ?thesis by (metis option.exhaust)
qed

section \<open>The contract of a table of unordered pairs\<close>

locale pair_table =
  fixes find :: "'a \<Rightarrow> 'a \<Rightarrow> 's \<Rightarrow> 't option"
    and store :: "'a \<Rightarrow> 'a \<Rightarrow> 't \<Rightarrow> 's \<Rightarrow> 's"
    and drop_all :: "'a \<Rightarrow> 's \<Rightarrow> 's"
    and fits :: "'a \<Rightarrow> 'a \<Rightarrow> 't \<Rightarrow> bool"
    and ok :: "'s \<Rightarrow> bool"
  assumes find_sym: "find a b s = find b a s"
    and find_store: "ok s \<Longrightarrow> find c d (store a b t s) = (if {c, d} = {a, b} then Some t else find c d s)"
    and find_drop: "ok s \<Longrightarrow> find c d (drop_all a s) = (if c = a \<or> d = a then None else find c d s)"
    and find_fits: "ok s \<Longrightarrow> find a b s = Some t \<Longrightarrow> fits a b t"
    and ok_store: "ok s \<Longrightarrow> fits a b t \<Longrightarrow> ok (store a b t s)"
    and ok_drop: "ok s \<Longrightarrow> ok (drop_all a s)"
begin

text \<open>Changing the entry of a pair in place, when it has one.\<close>

definition modify :: "'a \<Rightarrow> 'a \<Rightarrow> ('t \<Rightarrow> 't) \<Rightarrow> 's \<Rightarrow> 's" where
  "modify a b f s = (case find a b s of None \<Rightarrow> s | Some t \<Rightarrow> store a b (f t) s)"

lemma find_modify:
  "ok s \<Longrightarrow> find c d (modify a b f s) = (if {c, d} = {a, b} then map_option f (find a b s) else find c d s)"
  using find_sym by (auto simp: modify_def find_store doubleton_eq_iff split: option.splits)

lemma ok_modify: "ok s \<Longrightarrow> (\<And>t. fits a b t \<Longrightarrow> fits a b (f t)) \<Longrightarrow> ok (modify a b f s)"
  by (auto simp: modify_def intro: ok_store dest: find_fits split: option.splits)

text \<open>Neither direction of a pair survives the removal of one of its ends; other pairs do.\<close>

lemma drop_both: "ok s \<Longrightarrow> find a b (drop_all a s) = None \<and> find b a (drop_all a s) = None"
  by (simp add: find_drop)

lemma drop_commutes: "ok s \<Longrightarrow> find c d (drop_all a (drop_all b s)) = find c d (drop_all b (drop_all a s))"
  by (simp add: find_drop ok_drop)

end

interpretation tunnels: pair_table Exist tunnel_write RemoveA
  "\<lambda>A B t. makeKey (tun_A t) (tun_B t) = makeKey A B" tm_wf
proof
  fix A B C D :: ip4 and tm :: TunnelManager and t :: P2PTunnel
  show "Exist A B tm = Exist B A tm" by (simp add: Exist_def makeKey_sym)
  show "Exist C D (tunnel_write A B t tm) = (if {C, D} = {A, B} then Some t else Exist C D tm)"
    by (auto simp: Exist_def tunnel_write_def makeKey_eq_iff doubleton_eq_iff)
qed (simp_all add: Exist_RemoveA tm_wf_get tm_wf_write tm_wf_RemoveA)

lemma AddTunnel_write:
  "AddTunnel A B status tm =
     (if Exist A B tm = None
      then tunnel_write A B \<lparr>tun_A = A, tun_B = B, tun_Status = status, tun_RetryTimes = 0, tun_InitCnt = 0\<rparr> tm
      else tm)"
  by (simp add: AddTunnel_def Exist_def tunnel_write_def Let_def split: option.splits)

lemma tm_wf_AddTunnel [simp]: "tm_wf tm \<Longrightarrow> tm_wf (AddTunnel A B status tm)"
  by (simp add: AddTunnel_write tm_wf_write)

lemma Exist_AddTunnel:
  "tm_wf tm \<Longrightarrow> Exist C D (AddTunnel A B status tm) =
     (if {C, D} = {A, B} \<and> Exist A B tm = None
      then Some \<lparr>tun_A = A, tun_B = B, tun_Status = status, tun_RetryTimes = 0, tun_InitCnt = 0\<rparr>
      else Exist C D tm)"
  by (simp add: AddTunnel_write tunnels.find_store)

text \<open>
  The tunnel table is direction-blind and forgets a client completely: both directions of a
  pair name the same entry, adding a pair never disturbs an existing entry or another pair,
  removing a pair removes only it, and after \<open>RemoveA\<close> no pair with that client is left while
  all other pairs are unchanged.
\<close>

lemma tunnel_table_pairs:
  assumes "tm_wf tm"
  shows "Exist A B tm = Exist B A tm \<and>
    Exist C D (AddTunnel A B status tm) =
      (if {C, D} = {A, B} \<and> Exist A B tm = None
       then Some \<lparr>tun_A = A, tun_B = B, tun_Status = status, tun_RetryTimes = 0, tun_InitCnt = 0\<rparr>
       else Exist C D tm) \<and>
    Exist C D (RemoveTunnel A B tm) = (if {C, D} = {A, B} then None else Exist C D tm) \<and>
    Exist C D (RemoveA A tm) = (if C = A \<or> D = A then None else Exist C D tm)"
  using tunnels.find_sym [of A B tm] Exist_AddTunnel [OF assms, of C D A B status]
    tunnels.find_drop [OF assms, of C D A]
  by (auto simp: Exist_def RemoveTunnel_def makeKey_eq_iff doubleton_eq_iff)

definition demo_tunnels :: TunnelManager where
  "demo_tunnels = AddTunnel (IP4 10 0 6 9) (IP4 10 0 6 2) TunnelInit NewTunnelManager"

lemma demo_tunnels_wf: "tm_wf demo_tunnels"
  by (simp add: demo_tunnels_def)

section \<open>Decisions on a tunnel (server_p2p.go, server_ws.go)\<close>

definition ifEstablish :: "ip4 \<Rightarrow> ip4 \<Rightarrow> byte \<Rightarrow> byte \<Rightarrow> TunnelManager \<Rightarrow> TunnelManager \<times> bool" where
  "ifEstablish src dst srcNat dstNat tm =
     (if srcNat \<le> TypeUnknown \<or> dstNat \<le> TypeUnknown then (tm, False)
      else case Exist src dst tm of
             None \<Rightarrow> (AddTunnel src dst TunnelInit tm, True)
           | Some tunnel \<Rightarrow>
               if GetStatus tunnel = TunnelFailed \<and> GetRetryTimes tunnel < 6
               then (tunnel_write src dst (ChangeStatus TunnelInit tunnel) tm, True)
               else (tm, False))"

definition tunnel_established :: "ip4 \<Rightarrow> ip4 \<Rightarrow> TunnelManager \<Rightarrow> TunnelManager" where
  "tunnel_established A B tm =
     (case Exist A B tm of
        None \<Rightarrow> AddTunnel A B TunnelConnected tm
      | Some t \<Rightarrow> if GetStatus t = TunnelInit
                  then tunnel_write A B (ChangeStatus TunnelConnected t) tm else tm)"

definition tunnel_closed :: "ip4 \<Rightarrow> ip4 \<Rightarrow> TunnelManager \<Rightarrow> TunnelManager" where
  "tunnel_closed A B tm =
     (case Exist A B tm of
        None \<Rightarrow> tm
      | Some t \<Rightarrow> tunnel_write A B (AddRetryTimes (ChangeStatus TunnelFailed t)) tm)"

definition tunnel_task :: "ip4 \<Rightarrow> ip4 \<Rightarrow> TunnelManager \<Rightarrow> TunnelManager" where
  "tunnel_task src dst tm =
     (case Exist src dst tm of
        None \<Rightarrow> AddTunnel src dst TunnelInit tm
      | Some t \<Rightarrow> tunnel_write src dst (AddRetryTimes t) tm)"

text \<open>The events that move tunnels, and the attempts granted to one pair along a sequence of them.\<close>

datatype p2p_event =
    DataSeen ip4 ip4 byte byte
  | TaskTaken ip4 ip4
  | PeerEstablished ip4 ip4
  | PeerClosed ip4 ip4

fun event_pair :: "p2p_event \<Rightarrow> ip4 set" where
  "event_pair (DataSeen a b _ _) = {a, b}"
| "event_pair (TaskTaken a b) = {a, b}"
| "event_pair (PeerEstablished a b) = {a, b}"
| "event_pair (PeerClosed a b) = {a, b}"

fun event_step :: "p2p_event \<Rightarrow> TunnelManager \<Rightarrow> TunnelManager \<times> bool" where
  "event_step (DataSeen a b na nb) tm = ifEstablish a b na nb tm"
| "event_step (TaskTaken a b) tm = (tunnel_task a b tm, False)"
| "event_step (PeerEstablished a b) tm = (tunnel_established a b tm, False)"
| "event_step (PeerClosed a b) tm = (tunnel_closed a b tm, False)"

fun attempts :: "ip4 set \<Rightarrow> p2p_event list \<Rightarrow> TunnelManager \<Rightarrow> nat" where
  "attempts pair [] tm = 0"
| "attempts pair (e # es) tm =
     (let (tm', granted) = event_step e tm
      in (if granted \<and> event_pair e = pair then 1 else 0) + attempts pair es tm')"

lemma makeKey_updates [simp]:
  "tun_A (ChangeStatus st t) = tun_A t" "tun_B (ChangeStatus st t) = tun_B t"
  "tun_A (AddRetryTimes t) = tun_A t" "tun_B (AddRetryTimes t) = tun_B t"
  by (simp_all add: tunnel_simps)

lemma entry_write_wf:
  "tm_wf tm \<Longrightarrow> Exist A B tm = Some t \<Longrightarrow> tun_A t' = tun_A t \<Longrightarrow> tun_B t' = tun_B t \<Longrightarrow>
   tm_wf (tunnel_write A B t' tm)"
  using tunnels.find_fits by (intro tm_wf_write) simp_all

lemmas tunnel_event_defs = ifEstablish_def tunnel_task_def tunnel_established_def tunnel_closed_def

lemma event_step_wf: "tm_wf tm \<Longrightarrow> tm_wf (fst (event_step e tm))"
  by (cases e) (simp_all add: tunnel_event_defs entry_write_wf split: option.split)

lemma event_step_other:
  assumes "tm_wf tm" and "event_pair e \<noteq> {A, B}"
  shows "Exist A B (fst (event_step e tm)) = Exist A B tm"
proof -
  have "{A, B} \<noteq> event_pair e" using assms(2) by simp
  then show ?thesis
    using assms(1)
    by (cases e) (simp_all add: tunnel_event_defs tunnels.find_store Exist_AddTunnel split: option.split)
qed

text \<open>What one event does to the entry of its own pair, and whether it grants an attempt.\<close>

fun entry_step :: "p2p_event \<Rightarrow> P2PTunnel option \<Rightarrow> (u32 \<times> u32) option \<times> bool" where
  "entry_step (DataSeen a b na nb) t =
     (if na \<le> TypeUnknown \<or> nb \<le> TypeUnknown then (map_option (\<lambda>t. (tun_Status t, tun_RetryTimes t)) t, False)
      else case t of
             None \<Rightarrow> (Some (TunnelInit, 0), True)
           | Some t \<Rightarrow> if tun_Status t = TunnelFailed \<and> tun_RetryTimes t < 6
                       then (Some (TunnelInit, tun_RetryTimes t), True)
                       else (Some (tun_Status t, tun_RetryTimes t), False))"
| "entry_step (TaskTaken a b) t =
     (case t of None \<Rightarrow> (Some (TunnelInit, 0), False)
      | Some t \<Rightarrow> (Some (tun_Status t, tun_RetryTimes t + 1), False))"
| "entry_step (PeerEstablished a b) t =
     (case t of None \<Rightarrow> (Some (TunnelConnected, 0), False)
      | Some t \<Rightarrow> (Some (if tun_Status t = TunnelInit then TunnelConnected else tun_Status t, tun_RetryTimes t), False))"
| "entry_step (PeerClosed a b) t =
     (case t of None \<Rightarrow> (None, False) | Some t \<Rightarrow> (Some (TunnelFailed, tun_RetryTimes t + 1), False))"

lemma event_step_entry:
  assumes "tm_wf tm" and "event_pair e = {A, B}"
  shows "entry_step e (Exist A B tm) =
    (map_option (\<lambda>t. (tun_Status t, tun_RetryTimes t)) (Exist A B (fst (event_step e tm))), snd (event_step e tm))"
proof -
  obtain a b where ab: "{a, b} = {A, B}" "e = TaskTaken a b \<or> e = PeerEstablished a b \<or> e = PeerClosed a b \<or>
      (\<exists>na nb. e = DataSeen a b na nb)"
    using assms(2) by (cases e) auto
  have eq: "Exist A B tm' = Exist a b tm'" for tm'
    using ab(1) tunnels.find_sym [of A B tm'] by (auto simp: doubleton_eq_iff)
  show ?thesis
    unfolding eq using ab(2) assms(1)
    by (elim disjE exE)
      (simp_all add: tunnel_event_defs tunnels.find_store Exist_AddTunnel tunnel_simps split: option.split)
qed

text \<open>
  The bookkeeping behind the bound: after \<open>c\<close> grants the retry counter \<open>r\<close> of the pair has
  reached at least \<open>c - 1\<close>, and \<open>c\<close> when the tunnel is in the failed state.
\<close>

definition granted_inv :: "nat \<Rightarrow> nat \<Rightarrow> (u32 \<times> u32) option \<Rightarrow> bool" where
  "granted_inv n c t \<longleftrightarrow> c \<le> 6 \<and>
     (case t of None \<Rightarrow> c = 0
      | Some (st, r) \<Rightarrow> unat r \<le> n \<and> (if st = TunnelFailed then c \<le> unat r else c \<le> unat r + 1))"

lemma unat_suc_u32: "unat (r :: u32) \<le> n \<Longrightarrow> n < 2 ^ 32 - 1 \<Longrightarrow> unat (r + 1) = unat r + 1"
  by (simp add: unat_word_ariths)

lemma granted_step:
  assumes "granted_inv n c (map_option (\<lambda>t. (tun_Status t, tun_RetryTimes t)) t)" and "n < 2 ^ 32 - 1"
  shows "granted_inv (Suc n) (c + (if snd (entry_step e t) then 1 else 0)) (fst (entry_step e t))"
proof (cases t)
  case None
  with assms show ?thesis by (cases e) (auto simp: granted_inv_def tunnel_status_defs)
next
  case (Some u)
  have less: "tun_RetryTimes u < 6 \<longleftrightarrow> unat (tun_RetryTimes u) < 6" by (simp add: word_less_nat_alt)
  have "unat (tun_RetryTimes u) \<le> n" using assms(1) Some by (simp add: granted_inv_def)
  then have suc: "unat (tun_RetryTimes u + 1) = unat (tun_RetryTimes u) + 1"
    using assms(2) by (rule unat_suc_u32)
  from assms(1) Some show ?thesis
    by (cases e) (auto simp: granted_inv_def less suc tunnel_status_defs split: if_splits)
qed

lemma attempts_bound:
  assumes "tm_wf tm" and "granted_inv n c (map_option (\<lambda>t. (tun_Status t, tun_RetryTimes t)) (Exist A B tm))"
    and "n + length es < 2 ^ 32"
  shows "c + attempts {A, B} es tm \<le> 6"
  using assms
proof (induction es arbitrary: tm n c)
  case (Cons e es)
  let ?tm = "fst (event_step e tm)"
  let ?c = "c + (if snd (event_step e tm) \<and> event_pair e = {A, B} then 1 else 0)"
  have "granted_inv (Suc n) ?c (map_option (\<lambda>t. (tun_Status t, tun_RetryTimes t)) (Exist A B ?tm))"
  proof (cases "event_pair e = {A, B}")
    case True
    with granted_step [OF Cons.prems(2), of e] Cons.prems(3) event_step_entry [OF Cons.prems(1) True]
    show ?thesis by simp
  next
    case False
    then show ?thesis
      using Cons.prems(2) event_step_other [OF Cons.prems(1) False]
      by (auto simp: granted_inv_def split: option.splits)
  qed
  then have "?c + attempts {A, B} es ?tm \<le> 6"
    using Cons.prems by (intro Cons.IH [where n = "Suc n"]) (auto simp: event_step_wf)
  then show ?case by (simp add: case_prod_beta)
qed (simp add: granted_inv_def)



section \<open>A peer as the client sees it (internal/stun/client.go)\<close>

text \<open>Times are Unix seconds; an address that was never stored is \<open>None\<close>.\<close>

record P2PStatus =
  ps_DstNatType :: byte
  ps_dstAddr :: "UDPAddr option"
  ps_LastSeen :: int
  ps_Established :: bool

definition SetDstAddr :: "UDPAddr \<Rightarrow> P2PStatus \<Rightarrow> P2PStatus" where
  "SetDstAddr addr s = s\<lparr>ps_dstAddr := Some addr\<rparr>"

definition GetDstAddr :: "P2PStatus \<Rightarrow> UDPAddr option" where
  "GetDstAddr s = ps_dstAddr s"

definition peer_UpdateLastSeen :: "int \<Rightarrow> bool \<Rightarrow> P2PStatus \<Rightarrow> P2PStatus" where
  "peer_UpdateLastSeen now established s = s\<lparr>ps_LastSeen := now, ps_Established := established\<rparr>"

definition peer_IsTimeout :: "int \<Rightarrow> int \<Rightarrow> P2PStatus \<Rightarrow> bool" where
  "peer_IsTimeout now timeout s \<longleftrightarrow> now - ps_LastSeen s > timeout"

end
