(* ===== verification/Client.thy ===== *)
theory Client
  imports Noise TunDev Board Config Tunnel
begin

text \<open>
  The client's transport: its state (\<^verbatim>\<open>client.go\<close>), the connection to the server and
  the control messages (\<^verbatim>\<open>client_control.go\<close>), direct tunnels
  (\<^verbatim>\<open>client_p2p.go\<close>), the information shown at the start
  (\<^verbatim>\<open>client_ui.go\<close>) and the reconnect loop. A loop is modelled by one turn of it, a
  function from the state and what the turn receives to the new state and what it sends.
  \<open>None\<close> is a panic. Peers are shared by pointer between table snapshots; every peer object is
  created for one address and reached under it, so a write through the pointer is a write to
  the table's entry.
\<close>

section \<open>State (client.go)\<close>

text \<open>
  The status word and the counters are cells shared with the board, the queue of packets from
  the TUN device is shared with the Noise manager; each is kept once, in the board and in the
  manager. Packets waiting for the device are the queue \<open>FromNet\<close>.
\<close>

record 'h ClientTransport =
  ct_natType :: byte
  ct_board :: Board
  ct_device :: "Tun option"
  FromNet :: "bytes chan"
  ControlRecvChan :: "GamePacket chan"
  ControlSendChan :: "GamePacket chan"
  serverAddr :: "UDPAddr option"
  checkAddr :: "UDPAddr option"
  p2pRouter :: "(ip4, P2PStatus) gomap"
  localIp :: netip
  noiseMgr :: "'h NoiseManager"

definition FromTun :: "'h ClientTransport \<Rightarrow> bytes chan" where
  "FromTun t = \<lparr>ch_cap = 256, ch_items = tunChan (noiseMgr t), ch_closed = False\<rparr>"

definition set_FromTun :: "bytes chan \<Rightarrow> 'h ClientTransport \<Rightarrow> 'h ClientTransport" where
  "set_FromTun ch t = t\<lparr>noiseMgr := (noiseMgr t)\<lparr>tunChan := ch_items ch\<rparr>\<rparr>"

definition set_status :: "u32 \<Rightarrow> 'h ClientTransport \<Rightarrow> 'h ClientTransport" where
  "set_status s t = t\<lparr>ct_board := (ct_board t)\<lparr>bd_status := s\<rparr>\<rparr>"

definition NewTransport :: "keys \<Rightarrow> 'h ClientTransport" where
  "NewTransport keypair =
     \<lparr>ct_natType = 0, ct_board = NewBoard 0 0 0 0 0, ct_device = None, FromNet = make_chan 64,
      ControlRecvChan = make_chan 16, ControlSendChan = make_chan 16, serverAddr = None, checkAddr = None,
      p2pRouter = [], localIp = [], noiseMgr = NewNoiseManager keypair\<rparr>"

text \<open>
  What one turn takes from outside: the Noise and LZ4 libraries, the pool's buffers (for the
  compression probe, the compressed payload, the frame and a received packet), randomness, the
  time in seconds, which datagrams the operating system accepts, and the configuration.
\<close>

record 'h client_env =
  ce_noise :: "'h noise_lib"
  ce_lz4 :: lz4
  ce_probe :: slice
  ce_cbuf :: slice
  ce_frame :: slice
  ce_raw :: slice
  ce_rnd :: nat
  ce_now :: int
  ce_accept :: "bytes \<Rightarrow> UDPAddr \<Rightarrow> bool"
  ce_cfg :: Settings

text \<open>A packet encoded in the clear; the nil slice of an oversized one has no bytes.\<close>

definition encoded :: "'h client_env \<Rightarrow> bool \<Rightarrow> GamePacket \<Rightarrow> bytes" where
  "encoded env control gp =
     (case EncodePacket (ce_lz4 env) (ce_probe env) (ce_cbuf env) (ce_frame env) control False None gp of
        (None, _, _) \<Rightarrow> [] | (Some d, _, _) \<Rightarrow> d)"

datatype effect =
    Datagram bytes UDPAddr
  | CheckDatagram bytes UDPAddr
  | ToDevice bytes
  | ToServer ws_frame

definition udp_effects :: "datagram list \<Rightarrow> effect list" where
  "udp_effects ds = map (\<lambda>(d, a). Datagram d a) ds"

section \<open>Direct tunnels (client_p2p.go)\<close>

definition addP2P :: "int \<Rightarrow> ip4 \<Rightarrow> UDPAddr \<Rightarrow> byte \<Rightarrow> 'h ClientTransport \<Rightarrow> 'h ClientTransport" where
  "addP2P now vIp addr natType t =
     (let newP2P = \<lparr>ps_DstNatType = natType, ps_dstAddr = None, ps_LastSeen = now, ps_Established = False\<rparr>;
          newP2P = SetDstAddr addr newP2P
      in t\<lparr>p2pRouter := gm_set vIp newP2P (gm_copy (p2pRouter t))\<rparr>)"

definition removeP2P :: "ip4 \<Rightarrow> 'h ClientTransport \<Rightarrow> 'h ClientTransport" where
  "removeP2P vIp t =
     (let t = t\<lparr>p2pRouter := gm_copy_except vIp (p2pRouter t)\<rparr>;
          controlGp = NewGamePacket (IpToKey (localIp t)) vIp TypeP2PClosed []
      in t\<lparr>ControlSendChan := fst (try_send controlGp (ControlSendChan t))\<rparr>)"

definition peer_write :: "ip4 \<Rightarrow> P2PStatus \<Rightarrow> 'h ClientTransport \<Rightarrow> 'h ClientTransport" where
  "peer_write vIp s t = t\<lparr>p2pRouter := gm_set vIp s (p2pRouter t)\<rparr>"

text \<open>
  The ports around the last one seen, until a write fails; the result says whether all writes
  succeeded. A nil address is a panic.
\<close>

fun punch_ports :: "'h client_env \<Rightarrow> bytes \<Rightarrow> netip \<Rightarrow> int \<Rightarrow> int list \<Rightarrow> datagram list \<times> bool" where
  "punch_ports env data dstIp dstPort [] = ([], True)"
| "punch_ports env data dstIp dstPort (i # is) =
     (case WriteToUDP (ce_accept env) data (Some \<lparr>ua_IP = dstIp, ua_Port = dstPort + i\<rparr>) of
        (out, None) \<Rightarrow> (out, False)
      | (out, Some _) \<Rightarrow> (case punch_ports env data dstIp dstPort is of (outs, ok) \<Rightarrow> (out @ outs, ok)))"

definition punch :: "'h client_env \<Rightarrow> bytes \<Rightarrow> P2PStatus \<Rightarrow> (datagram list \<times> bool) option" where
  "punch env data s =
     (if ps_DstNatType s = TypeCone then
        (case WriteToUDP (ce_accept env) data (GetDstAddr s) of (out, r) \<Rightarrow> Some (out, r \<noteq> None))
      else if ps_DstNatType s = TypeSymmetric then
        (case GetDstAddr s of
           None \<Rightarrow> None
         | Some dstAddr \<Rightarrow> Some (punch_ports env data (ua_IP dstAddr) (ua_Port dstAddr) [-100..199]))
      else Some ([], True))"

text \<open>One tick: the peers of the snapshot, one after the other.\<close>

fun visit_peers :: "'h client_env \<Rightarrow> bytes \<Rightarrow> (ip4 \<times> P2PStatus) list \<Rightarrow> 'h ClientTransport \<Rightarrow>
    ('h ClientTransport \<times> datagram list) option" where
  "visit_peers env pingData [] t = Some (t, [])"
| "visit_peers env pingData ((vIp, s) # peers) t =
     (if peer_IsTimeout (ce_now env) 10 s then visit_peers env pingData peers (removeP2P vIp t)
      else
        (case (if ps_Established s then Some (fst (WriteToUDP (ce_accept env) pingData (GetDstAddr s)))
               else map_option fst (punch env pingData s)) of
           None \<Rightarrow> None
         | Some out \<Rightarrow> map_option (apsnd ((@) out)) (visit_peers env pingData peers t)))"

definition handleP2P :: "'h client_env \<Rightarrow> 'h ClientTransport \<Rightarrow> ('h ClientTransport \<times> effect list) option" where
  "handleP2P env t =
     (case To4 (localIp t) of
        None \<Rightarrow> None
      | Some me \<Rightarrow>
          let pingData = (case EncodePacketWithBuffer (NewGamePacket (to_ip4 me) ip4_zero TypePing []) [] True None of
                            (None, _) \<Rightarrow> [] | (Some d, _) \<Rightarrow> d)
          in map_option (apsnd udp_effects) (visit_peers env pingData (p2pRouter t) t))"

text \<open>The probe goes out on a socket of its own; \<open>listen_ok\<close> is the result of opening it.\<close>

definition checkP2P :: "'h client_env \<Rightarrow> bool \<Rightarrow> netip \<Rightarrow> 'h ClientTransport \<Rightarrow> effect list" where
  "checkP2P env listen_ok dst t =
     (if \<not> listen_ok then []
      else let checkGp = NewGamePacket (IpToKey (case To4 (localIp t) of Some v \<Rightarrow> v | None \<Rightarrow> [])) (IpToKey dst) TypeP2PCheck [];
               checkBytes = encoded env True checkGp
           in map (\<lambda>(d, a). CheckDatagram d a) (fst (WriteToUDP (ce_accept env) checkBytes (checkAddr t))))"

section \<open>The control connection (client_control.go)\<close>

text \<open>
  \<open>dial_ok\<close> and \<open>listen_ok\<close> are the outcomes of opening the two sockets; the resolver's errors are
  ignored and leave a nil address.
\<close>

definition connectServer :: "bool \<Rightarrow> UDPAddr option \<Rightarrow> UDPAddr option \<Rightarrow> bool \<Rightarrow> 'h ClientTransport \<Rightarrow> 'h ClientTransport \<times> bool" where
  "connectServer dial_ok server check listen_ok t =
     (if \<not> dial_ok then (t, False)
      else (t\<lparr>serverAddr := server, checkAddr := check\<rparr>, listen_ok))"

definition handshake_message :: "'h client_env \<Rightarrow> 'h ClientTransport \<Rightarrow> bytes" where
  "handshake_message env t =
     (let payload = [ct_natType t] @ GetPublicKey (noiseMgr t);
          payload = payload @ ClientID (ce_cfg env);
          payload = payload @ DeviceName (ce_cfg env)
      in encoded env True (NewGamePacket ip4_zero ip4_zero TypeHandshake payload))"

text \<open>\<open>reply\<close> is what reading the connection gives after the message was written.\<close>

definition handshake :: "'h client_env \<Rightarrow> bool \<Rightarrow> bytes result \<Rightarrow> 'h ClientTransport \<Rightarrow> ws_frame \<times> GamePacket result" where
  "handshake env write_ok reply t =
     (BinaryFrame (handshake_message env t),
      if \<not> write_ok then Inl (External ''write'')
      else case reply of
             Inl err \<Rightarrow> Inl err
           | Inr content \<Rightarrow>
               (case ParsePacket (ce_raw env) content True None
                       (NewGamePacket ip4_zero ip4_zero TypeHandshake
                         ([ct_natType t] @ GetPublicKey (noiseMgr t) @ ClientID (ce_cfg env) @ DeviceName (ce_cfg env))) of
                  (gp, Some err) \<Rightarrow> Inl err
                | (gp, None) \<Rightarrow> Inr gp))"

text \<open>
  One tick: the blocking send to the control queue waits while the queue is full. An error of the
  datagram ends the loop.
\<close>

definition heartbeat :: "'h client_env \<Rightarrow> bool \<Rightarrow> 'h ClientTransport \<Rightarrow> ('h ClientTransport \<times> effect list \<times> pump) option" where
  "heartbeat env stop t =
     (case To4 (localIp t) of
        None \<Rightarrow> None
      | Some me \<Rightarrow>
          let ping = NewGamePacket (to_ip4 me) ip4_zero TypePing [] in
          if stop then Some (t, [], PumpReturn)
          else case chan_send ping (ControlSendChan t) of
                 SendPanic \<Rightarrow> None
               | WouldBlock \<Rightarrow> Some (t, [], PumpBlocked)
               | Sent ch \<Rightarrow>
                   let t = t\<lparr>ControlSendChan := ch\<rparr>
                   in (case WriteToUDP (ce_accept env) (encoded env True ping) (serverAddr t) of
                         (out, None) \<Rightarrow> Some (t, udp_effects out, PumpReturn)
                       | (out, Some _) \<Rightarrow> Some (t, udp_effects out, PumpContinue)))"

definition initiateNoise :: "'h client_env \<Rightarrow> ip4 \<Rightarrow> bytes \<Rightarrow> bytes \<Rightarrow> 'h ClientTransport \<Rightarrow> ('h ClientTransport \<times> effect list) option" where
  "initiateNoise env vip remotePub firstPayload t =
     (case HandshakeInit (ce_noise env) (ce_rnd env) (ce_now env) vip remotePub firstPayload (noiseMgr t) of
        None \<Rightarrow> None
      | Some (m, Inl err) \<Rightarrow> Some (t\<lparr>noiseMgr := m\<rparr>, [])
      | Some (m, Inr handshakeData) \<Rightarrow>
          let t = t\<lparr>noiseMgr := m\<rparr>;
              gp = NewGamePacket (IpToKey (localIp t)) vip TypeData handshakeData
          in Some (t, udp_effects (fst (WriteToUDP (ce_accept env) (encoded env True gp) (serverAddr t)))))"

text \<open>One turn; the packet structure is reused from turn to turn.\<close>

definition controlRecv :: "'h client_env \<Rightarrow> bool \<Rightarrow> ws_event \<Rightarrow> GamePacket \<Rightarrow> 'h ClientTransport \<Rightarrow>
    (GamePacket \<times> 'h ClientTransport \<times> effect list \<times> pump) option" where
  "controlRecv env listen_ok ev gp t =
     (case ev of
        WsClosed \<Rightarrow> Some (gp, t, [], PumpReturn)
      | WsTimeout \<Rightarrow> Some (gp, t, [], PumpReturn)
      | WsReadError \<Rightarrow> Some (gp, t, [], PumpContinue)
      | WsOther \<Rightarrow> Some (gp, t, [], PumpContinue)
      | WsPing \<Rightarrow> Some (gp, t, [], PumpContinue)
      | WsBinary data \<Rightarrow>
          (case ParseControl gp data of
             (gp, Some err) \<Rightarrow> Some (gp, t, [], PumpContinue)
           | (gp, None) \<Rightarrow>
               if PType gp = TypeNoiseResponse then
                 if length (Payload gp) < 32 then Some (gp, t, [], PumpContinue)
                 else (case (slice_range 0 32 (Payload gp), slice_from 32 (Payload gp)) of
                         (Some remotePub, Some pendingData) \<Rightarrow>
                           map_option (\<lambda>(t, out). (gp, t, out, PumpContinue))
                             (initiateNoise env (IpToKey (SourceVirtualIp gp)) remotePub pendingData t)
                       | _ \<Rightarrow> None)
               else if PType gp = TypeP2PCheck then
                 Some (gp, t, checkP2P env listen_ok (SourceVirtualIp gp) t, PumpContinue)
               else if PType gp = TypeP2PCommand then
                 if length (Payload gp) < 7 then Some (gp, t, [], PumpContinue)
                 else (case (Option.bind (slice_range 0 6 (Payload gp)) BytesToIP, slice_range 6 7 (Payload gp)) of
                         (Some addr, Some nt) \<Rightarrow>
                           Some (gp, addP2P (ce_now env) (IpToKey (SourceVirtualIp gp)) addr (nt ! 0) t, [], PumpContinue)
                       | _ \<Rightarrow> None)
               else Some (gp, t, [], PumpContinue)))"

text \<open>One turn; \<open>write_ok\<close> is the result of writing the frame. \<open>None\<close> is an empty queue.\<close>

definition controlSend :: "'h client_env \<Rightarrow> bool \<Rightarrow> 'h ClientTransport \<Rightarrow> ('h ClientTransport \<times> effect list \<times> pump) option" where
  "controlSend env write_ok t =
     (case chan_recv (ControlSendChan t) of
        None \<Rightarrow> None
      | Some (gp, ch) \<Rightarrow>
          let t = t\<lparr>ControlSendChan := ch\<rparr>;
              frame = (if PType gp = TypePing then PingFrame else BinaryFrame (encoded env True gp))
          in if write_ok then Some (t, [ToServer frame], PumpContinue) else Some (t, [], PumpReturn))"

section \<open>Start and reconnection (client.go, client_ui.go)\<close>

definition initUi :: "(gostring \<Rightarrow> gostring) \<Rightarrow> (gostring \<Rightarrow> gostring) \<Rightarrow> (gostring \<Rightarrow> gostring) \<Rightarrow> Settings \<Rightarrow>
    'h ClientTransport \<Rightarrow> 'h ClientTransport" where
  "initUi cyan green red cfg t =
     (let b = AddInfo (str ''Receiver Count'') (Itoa (nat (RecvWorkers cfg))) (Some cyan) (ct_board t);
          b = AddInfo (str ''Sender Count'') (Itoa (nat (SendWorkers cfg))) (Some cyan) b;
          b = (if EnableP2P cfg then AddInfo (str ''P2P status'') (str ''Enable'') (Some green) b
               else AddInfo (str ''P2P status'') (str ''Disable'') (Some red) b);
          b = (if EnableCompress cfg then AddInfo (str ''Compress'') (str ''Enable'') (Some green) b
               else AddInfo (str ''Compress'') (str ''Disable'') (Some red) b)
      in t\<lparr>ct_board := b\<rparr>)"

text \<open>
  The wait before the next attempt: \<^verbatim>\<open>1 << retryCount\<close> in a 64-bit integer, at most 30,
  multiplied by the nanoseconds of a second in 64 bits. The result is the new counter and the
  duration.
\<close>

definition backoff_wait :: "nat \<Rightarrow> nat \<times> int" where
  "backoff_wait retryCount =
     (let retryCount = retryCount + 1;
          waitSec = (push_bit retryCount 1 :: u64);
          waitSec = (if sint waitSec > 30 then 30 else waitSec)
      in (retryCount, sint (waitSec * 1000000000)))"

definition backoffWait :: "nat \<Rightarrow> 'h ClientTransport \<Rightarrow> nat \<times> int \<times> 'h ClientTransport" where
  "backoffWait retryCount t =
     (let t = set_status RECONNECTING t; (retryCount, wait) = backoff_wait retryCount
      in (retryCount, wait, t))"

text \<open>
  One pass of the reconnect loop up to the start of the session: what the sockets and the device
  answer is collected in a record. The result says whether the session starts or after which
  time the next attempt is made.
\<close>

record attempt =
  at_nat :: "byte result"
  at_dial :: bool
  at_server :: "UDPAddr option"
  at_check :: "UDPAddr option"
  at_listen :: bool
  at_write :: bool
  at_reply :: "bytes result"
  at_open :: bool
  at_ioctl :: bool
  at_runs :: "gostring list \<Rightarrow> bool"

datatype started = Running | Retry int

definition sync_device :: "attempt \<Rightarrow> GamePacket \<Rightarrow> 'h ClientTransport \<Rightarrow> 'h ClientTransport option" where
  "sync_device a hs t =
     (case To4 (Destination hs) of
        None \<Rightarrow> None
      | Some newVip \<Rightarrow>
          if localIp t = [] \<or> \<not> ip_Equal (localIp t) newVip then
            let t = t\<lparr>localIp := newVip\<rparr>;
                t = t\<lparr>noiseMgr := SetVirtualIp (IpToKey (localIp t)) (noiseMgr t)\<rparr>;
                t = t\<lparr>ct_board := InitLocalIp (IpToKey (localIp t)) (ct_board t)\<rparr>;
                host_name = Payload hs
            in (case NewTun (at_open a) (at_ioctl a) (at_runs a) host_name (str ''.et'') (localIp t) of
                  None \<Rightarrow> None
                | Some dev \<Rightarrow>
                    Some (t\<lparr>ct_device := Some dev, ct_board := InitHostName (host_name @ str ''.et'') (ct_board t)\<rparr>))
          else Some t)"

definition ListenAndServe :: "'h client_env \<Rightarrow> attempt \<Rightarrow> nat \<Rightarrow> 'h ClientTransport \<Rightarrow>
    (nat \<times> 'h ClientTransport \<times> started) option" where
  "ListenAndServe env a retryCount t =
     (let t = (if EnableP2P (ce_cfg env) then
                 let t = set_status TESTNAT t
                 in (case at_nat a of Inr nt \<Rightarrow> t\<lparr>ct_natType := nt\<rparr> | Inl _ \<Rightarrow> t)
               else t\<lparr>ct_natType := TypeUnknown\<rparr>);
          t = set_status CONNECT t
      in case connectServer (at_dial a) (at_server a) (at_check a) (at_listen a) t of
           (t, False) \<Rightarrow> (case backoffWait retryCount t of (rc, wait, t) \<Rightarrow> Some (rc, t, Retry wait))
         | (t, True) \<Rightarrow>
             let t = set_status INTINETWORK t
             in (case snd (handshake env (at_write a) (at_reply a) t) of
                   Inl err \<Rightarrow> (case backoffWait retryCount t of (rc, wait, t) \<Rightarrow> Some (rc, t, Retry wait))
                 | Inr hs \<Rightarrow>
                     (case sync_device a hs t of
                        None \<Rightarrow> None
                      | Some t \<Rightarrow> Some (0, set_status RUNNING t, Running))))"

text \<open>The end of a session with an error.\<close>

definition session_ended :: "bool \<Rightarrow> 'h ClientTransport \<Rightarrow> 'h ClientTransport" where
  "session_ended failed t = (if failed then set_status RECONNECTING t else t)"

text \<open>
  The test loop puts the same packet into the queue at every tick, the header \<open>bch\<close> that
  \<^verbatim>\<open>ipv4.Header.Marshal\<close> returned at its start. The send blocks while the queue is full.
\<close>

definition testBroadCast :: "bytes \<Rightarrow> 'h ClientTransport \<Rightarrow> ('h ClientTransport \<times> pump) option" where
  "testBroadCast bch t =
     (case chan_send bch (FromTun t) of
        SendPanic \<Rightarrow> None
      | WouldBlock \<Rightarrow> Some (t, PumpBlocked)
      | Sent ch \<Rightarrow> Some (set_FromTun ch t, PumpContinue))"

end
