(* ===== verification/ClientUdp.thy ===== *)
theory ClientUdp
  imports Client
begin

text \<open>
  The client's data plane (\<^verbatim>\<open>client_udp.go\<close>): packets from the TUN device to the
  network and datagrams from the network to the device.
\<close>

section \<open>Sending\<close>

text \<open>
  Whether a packet is a DNS query for the virtual name server. The device is asked for its
  address only when the packet is a UDP packet with a complete header; without a device that is
  a panic.
\<close>

abbreviation ihl :: "bytes \<Rightarrow> nat" where
  "ihl p \<equiv> unat (p ! 0 AND 0x0F) * 4"

definition dns_query :: "'h ClientTransport \<Rightarrow> ip4 \<Rightarrow> bytes \<Rightarrow> bool option" where
  "dns_query t dstIp p =
     (if ihl p + 8 \<le> length p \<and> 20 \<le> ihl p \<and> drop_bit 4 (p ! 0) = 4 \<and> p ! 9 = 17 then
        (case ct_device t of
           None \<Rightarrow> None
         | Some dev \<Rightarrow>
             if dstIp = IpToKey (Dns dev) then
               (case slice_from (ihl p) p of
                  None \<Rightarrow> None
                | Some udpHeader \<Rightarrow>
                    map_option (\<lambda>dstPort. get_be16 (dstPort ! 0) (dstPort ! 1) = 53) (slice_range 2 4 udpHeader))
             else Some False)
      else Some False)"

lemma dns_query_eq:
  "dns_query t dstIp p =
     (if ihl p + 8 \<le> length p \<and> 20 \<le> ihl p \<and> drop_bit 4 (p ! 0) = 4 \<and> p ! 9 = 17 then
        map_option (\<lambda>dev. dstIp = IpToKey (Dns dev) \<and> get_be16 (p ! (ihl p + 2)) (p ! (ihl p + 3)) = 53) (ct_device t)
      else Some False)"
  by (auto simp: dns_query_def numeral_3_eq_3 split: option.split)

text \<open>Straight to the peer when its tunnel is established, otherwise to the server.\<close>

definition transmit :: "'h client_env \<Rightarrow> ip4 \<Rightarrow> bytes \<Rightarrow> 'h ClientTransport \<Rightarrow> 'h ClientTransport \<times> effect list" where
  "transmit env dstIp data t =
     (let addr = (case gm_get (p2pRouter t) dstIp of
                    None \<Rightarrow> serverAddr t
                  | Some status \<Rightarrow> if ps_Established status then GetDstAddr status else serverAddr t)
      in case WriteToUDP (ce_accept env) data addr of
           (out, None) \<Rightarrow> (t, udp_effects out)
         | (out, Some n) \<Rightarrow>
             (t\<lparr>ct_board := (ct_board t)\<lparr>bd_sendBytes := bd_sendBytes (ct_board t) + of_nat n\<rparr>\<rparr>, udp_effects out))"

text \<open>
  One packet; one of fewer than twenty bytes is a panic. The query for a peer without a session is a blocking send
  to the control queue. Every field of the worker's packet structure is overwritten by
  \<open>Reset\<close>.
\<close>

definition send_packet :: "'h client_env \<Rightarrow> bool \<Rightarrow> bytes \<Rightarrow> 'h ClientTransport \<Rightarrow> ('h ClientTransport \<times> effect list \<times> pump) option" where
  "send_packet env stop p t =
     (case map_option to_ip4 (slice_range 16 20 p) of None \<Rightarrow> None | Some dstIp \<Rightarrow>
      case dns_query t dstIp p of
        None \<Rightarrow> None
      | Some True \<Rightarrow>
          (case (To4 (localIp t), slice_range (ihl p) (ihl p + 2) p, slice_from (ihl p + 8) p) of
             (Some me, Some srcPort, Some query) \<Rightarrow>
               let dnsBuffer = be16 (get_be16 (srcPort ! 0) (srcPort ! 1)) @ query;
                   gp = Reset (to_ip4 me) dstIp TypeDnsRequest dnsBuffer gp_empty;
                   (t, out) = transmit env dstIp (encoded env False gp) t
               in Some (t, out, PumpContinue)
           | _ \<Rightarrow> None)
      | Some False \<Rightarrow>
          if p ! 19 \<noteq> 255 then
            (case GetSession (noiseMgr t) dstIp of
               None \<Rightarrow>
                 let query = NewGamePacket (IpToKey (localIp t)) dstIp TypeNoiseHandshake p
                 in if stop then Some (t, [], PumpReturn)
                    else (case chan_send query (ControlSendChan t) of
                            SendPanic \<Rightarrow> None
                          | WouldBlock \<Rightarrow> Some (t, [], PumpBlocked)
                          | Sent ch \<Rightarrow> Some (t\<lparr>ControlSendChan := ch\<rparr>, [], PumpContinue))
             | Some session \<Rightarrow>
                 if \<not> IsReady (ns_Cipher session) then
                   (case AddPendingData p session of
                      None \<Rightarrow> None
                    | Some session \<Rightarrow> Some (t\<lparr>noiseMgr := session_write dstIp session (noiseMgr t)\<rparr>, [], PumpContinue))
                 else
                   (case To4 (localIp t) of
                      None \<Rightarrow> None
                    | Some me \<Rightarrow>
                        let gp = Reset (to_ip4 me) dstIp TypeData p gp_empty;
                            session = UpdateLastSeen (ce_now env) session;
                            (data, _, sender) = EncodePacket (ce_lz4 env) (ce_probe env) (ce_cbuf env) (ce_frame env)
                              False (EnableCompress (ce_cfg env)) (Sender (ns_Cipher session)) gp;
                            session = session\<lparr>ns_Cipher := (ns_Cipher session)\<lparr>Sender := sender\<rparr>\<rparr>;
                            t = t\<lparr>noiseMgr := session_write dstIp session (noiseMgr t)\<rparr>;
                            (t, out) = transmit env dstIp (case data of None \<Rightarrow> [] | Some d \<Rightarrow> d) t
                        in Some (t, out, PumpContinue)))
          else
            (case To4 (localIp t) of
               None \<Rightarrow> None
             | Some me \<Rightarrow>
                 let gp = Reset (to_ip4 me) dstIp TypeData p gp_empty;
                     (t, out) = transmit env dstIp (encoded env False gp) t
                 in Some (t, out, PumpContinue)))"

text \<open>
  A batch, packet by packet; when the control queue is full the rest of the batch waits with the
  packet at its head.
\<close>

datatype sending = SendDone | SendWait "bytes list" | SendStopped

fun send_batch :: "'h client_env \<Rightarrow> bool \<Rightarrow> bytes list \<Rightarrow> 'h ClientTransport \<Rightarrow> ('h ClientTransport \<times> effect list \<times> sending) option" where
  "send_batch env stop [] t = Some (t, [], SendDone)"
| "send_batch env stop (p # ps) t =
     (case send_packet env stop p t of
        None \<Rightarrow> None
      | Some (t, out, PumpContinue) \<Rightarrow> map_option (\<lambda>(t, outs, r). (t, out @ outs, r)) (send_batch env stop ps t)
      | Some (t, out, PumpBlocked) \<Rightarrow> Some (t, out, SendWait (p # ps))
      | Some (t, out, _) \<Rightarrow> Some (t, out, SendStopped))"

text \<open>After a first packet, up to thirty-one more without waiting; short packets are dropped.\<close>

fun collect :: "bytes list \<Rightarrow> bytes list \<Rightarrow> bytes list \<times> bytes list" where
  "collect batch [] = (batch, [])"
| "collect batch (p # queue) =
     (if length batch < 32 then collect (if length p < 20 then batch else batch @ [p]) queue
      else (batch, p # queue))"

definition count_sent :: "nat \<Rightarrow> 'h ClientTransport \<Rightarrow> 'h ClientTransport" where
  "count_sent n t = t\<lparr>ct_board := (ct_board t)\<lparr>sendCounter := sendCounter (ct_board t) + of_nat n\<rparr>\<rparr>"

text \<open>
  One turn: \<open>None\<close> outside is an empty queue, inside a panic. A batch that was left waiting, of
  size \<open>n\<close> when it was taken, is finished by \<open>packetSend_resume\<close>.
\<close>

datatype turn = TurnDone | TurnWait nat "bytes list" | TurnStopped

definition packetSend_resume :: "'h client_env \<Rightarrow> bool \<Rightarrow> nat \<Rightarrow> bytes list \<Rightarrow> 'h ClientTransport \<Rightarrow>
    ('h ClientTransport \<times> effect list \<times> turn) option" where
  "packetSend_resume env stop n batch t =
     (case send_batch env stop batch t of
        None \<Rightarrow> None
      | Some (t, out, SendDone) \<Rightarrow> Some (count_sent n t, out, TurnDone)
      | Some (t, out, SendWait rest) \<Rightarrow> Some (t, out, TurnWait n rest)
      | Some (t, out, SendStopped) \<Rightarrow> Some (t, out, TurnStopped))"

definition packetSend :: "'h client_env \<Rightarrow> bool \<Rightarrow> 'h ClientTransport \<Rightarrow> ('h ClientTransport \<times> effect list \<times> turn) option option" where
  "packetSend env stop t =
     (case chan_recv (FromTun t) of
        None \<Rightarrow> None
      | Some (pr, ch) \<Rightarrow>
          Some (if length pr < 20 then Some (set_FromTun ch t, [], TurnDone)
                else (case collect [pr] (ch_items ch) of
                        (batch, queue) \<Rightarrow>
                          packetSend_resume env stop (length batch) batch (set_FromTun (ch\<lparr>ch_items := queue\<rparr>) t))))"

section \<open>Receiving\<close>

definition count_received :: "nat \<Rightarrow> 'h ClientTransport \<Rightarrow> 'h ClientTransport" where
  "count_received n t =
     t\<lparr>ct_board := (ct_board t)\<lparr>recvCounter := recvCounter (ct_board t) + 1,
                                bd_recvBytes := bd_recvBytes (ct_board t) + of_nat n\<rparr>\<rparr>"

definition recv_data :: "'h client_env \<Rightarrow> bool \<Rightarrow> UDPAddr \<Rightarrow> GamePacket \<Rightarrow> 'h ClientTransport \<Rightarrow> ('h ClientTransport \<times> effect list \<times> pump) option" where
  "recv_data env stop addr gp t =
     (let srcVip = IpToKey (SourceVirtualIp gp) in
      case HandleNoisePacket (ce_noise env) (ce_rnd env) (ce_now env) srcVip (Payload gp) (noiseMgr t) of
        None \<Rightarrow> None
      | Some (m, Failed err) \<Rightarrow> Some (t\<lparr>noiseMgr := m\<rparr>, [], PumpContinue)
      | Some (m, Handled session (Some response)) \<Rightarrow>
          let t = t\<lparr>noiseMgr := m\<rparr>;
              respGp = NewGamePacket (IpToKey (localIp t)) srcVip TypeData response;
              data = encoded env False respGp
          in Some (t, udp_effects (fst (WriteToUDP (ce_accept env) data (Some addr))), PumpContinue)
      | Some (m, Handled None None) \<Rightarrow> Some (t\<lparr>noiseMgr := m\<rparr>, [], PumpContinue)
      | Some (m, Handled (Some session) None) \<Rightarrow>
          let t = t\<lparr>noiseMgr := m\<rparr>
          in (case DecryptParse (ce_lz4 env) (Recver (ns_Cipher session)) gp of
                None \<Rightarrow> None
              | Some (gp, Some err) \<Rightarrow> Some (t, [], PumpContinue)
              | Some (gp, None) \<Rightarrow>
                  let t = t\<lparr>noiseMgr := session_write srcVip (UpdateLastSeen (ce_now env) session) (noiseMgr t)\<rparr>
                  in (case select_send stop (raw_bytes gp) (FromNet t) of
                        (ch, SelSent) \<Rightarrow> Some (t\<lparr>FromNet := ch\<rparr>, [], PumpContinue)
                      | (ch, SelDone) \<Rightarrow> Some (t, [], PumpReturn)
                      | (ch, SelDefault) \<Rightarrow> Some (t, [], PumpContinue))))"

definition recv_ping :: "'h client_env \<Rightarrow> UDPAddr \<Rightarrow> GamePacket \<Rightarrow> 'h ClientTransport \<Rightarrow> ('h ClientTransport \<times> effect list \<times> pump) option" where
  "recv_ping env addr gp t =
     (case To4 (localIp t) of
        None \<Rightarrow> None
      | Some me \<Rightarrow>
          let pongBytes = (case EncodePacketWithBuffer (NewGamePacket (to_ip4 me) ip4_zero TypePong []) [] True None of
                             (None, _) \<Rightarrow> [] | (Some d, _) \<Rightarrow> d);
              srcVIp = IpToKey (SourceVirtualIp gp);
              t = (case gm_get (p2pRouter t) srcVIp of
                     Some status \<Rightarrow> peer_write srcVIp (SetDstAddr addr status) t
                   | None \<Rightarrow> t)
          in Some (t, udp_effects (fst (WriteToUDP (ce_accept env) pongBytes (Some addr))), PumpContinue))"

definition recv_pong :: "'h client_env \<Rightarrow> bool \<Rightarrow> UDPAddr \<Rightarrow> GamePacket \<Rightarrow> 'h ClientTransport \<Rightarrow> ('h ClientTransport \<times> effect list \<times> pump) option" where
  "recv_pong env stop addr gp t =
     (let srcVIp = IpToKey (SourceVirtualIp gp) in
      case gm_get (p2pRouter t) srcVIp of
        None \<Rightarrow> Some (t, [], PumpContinue)
      | Some status \<Rightarrow>
          let status = peer_UpdateLastSeen (ce_now env) True (SetDstAddr addr status);
              t = peer_write srcVIp status t;
              controlGp = NewGamePacket (IpToKey (localIp t)) srcVIp TypeP2PEstablished []
          in (case select_send stop controlGp (ControlSendChan t) of
                (ch, SelSent) \<Rightarrow> Some (t\<lparr>ControlSendChan := ch\<rparr>, [], PumpContinue)
              | (ch, SelDone) \<Rightarrow> Some (t, [], PumpReturn)
              | (ch, SelDefault) \<Rightarrow> Some (t, [], PumpContinue)))"

definition recv_dns :: "GamePacket \<Rightarrow> 'h ClientTransport \<Rightarrow> ('h ClientTransport \<times> effect list \<times> pump) option" where
  "recv_dns gp t =
     (case ct_device t of
        None \<Rightarrow> None
      | Some dev \<Rightarrow>
          (case BuildDNSResponse (Payload gp) (localIp t) (Dns dev) of
             Inl err \<Rightarrow> Some (t, [], PumpContinue)
           | Inr dnsBuf \<Rightarrow> Some (t, [ToDevice dnsBuf], PumpContinue)))"

text \<open>One datagram, from its bytes and its sender.\<close>

definition packetRecv :: "'h client_env \<Rightarrow> bool \<Rightarrow> bytes \<Rightarrow> UDPAddr \<Rightarrow> 'h ClientTransport \<Rightarrow> ('h ClientTransport \<times> effect list \<times> pump) option" where
  "packetRecv env stop content addr t =
     (let t = count_received (length content) t in
      case ParsePacket (ce_raw env) content True None gp_empty of
        (gp, Some err) \<Rightarrow> Some (t, [], PumpContinue)
      | (gp, None) \<Rightarrow>
          let ty = clear_flag (PType gp) in
          if ty = TypeData then recv_data env stop addr gp t
          else if ty = TypePing then recv_ping env addr gp t
          else if ty = TypePong then recv_pong env stop addr gp t
          else if ty = TypeDnsResponse then recv_dns gp t
          else Some (t, [], PumpContinue))"

section \<open>The device\<close>

text \<open>One packet read from the device and one payload written to it.\<close>

definition device_read :: "bool \<Rightarrow> tun_read \<Rightarrow> 'h ClientTransport \<Rightarrow> ('h ClientTransport \<times> pump) option" where
  "device_read stop ev t =
     (case ct_device t of
        None \<Rightarrow> None
      | Some dev \<Rightarrow> (case tunRecv stop dev ev (FromTun t) of (ch, p) \<Rightarrow> Some (set_FromTun ch t, p)))"

definition device_write :: "'h ClientTransport \<Rightarrow> ('h ClientTransport \<times> effect list) option" where
  "device_write t =
     (case tunSend HeaderLength (FromNet t) of
        None \<Rightarrow> None
      | Some (ws, ch) \<Rightarrow> Some (t\<lparr>FromNet := ch\<rparr>, map ToDevice ws))"

end
