(* ===== verification/ClientSafe.thy ===== *)
theory ClientSafe
  imports ClientUdp
begin

text \<open>
  No turn of the client panics: the invariant of the client's state, its preservation by every
  turn, and the totality of the turns under it, for arbitrary datagrams and control messages.
\<close>

section \<open>The Noise handlers are total\<close>

text \<open>
  What the Noise library guarantees of the calls the code makes without looking at their errors:
  \<open>W\<close> holds of an initiator's state after its first message and after a message it could not
  read; when such a state reads a message the handshake is complete and its two keys are valid
  AEAD keys; and a responder that could read a first message completes with its answer.
\<close>

definition keys_valid :: "'h noise_lib \<Rightarrow> keys option \<Rightarrow> bool" where
  "keys_valid nl ks \<longleftrightarrow> (\<exists>k1 k2 a1 a2. ks = Some (k1, k2) \<and> nl_aead nl k1 = Inr a1 \<and> nl_aead nl k2 = Inr a2)"

definition noise_total :: "'h noise_lib \<Rightarrow> ('h \<Rightarrow> bool) \<Rightarrow> bool" where
  "noise_total nl W \<longleftrightarrow>
     (\<forall>kp pub r. W (fst (nl_write nl (nl_initiator nl kp pub r)))) \<and>
     (\<forall>h d h' r. W h \<longrightarrow> nl_read nl h d = (h', r) \<longrightarrow> (case r of Inl _ \<Rightarrow> W h' | Inr ks \<Rightarrow> keys_valid nl ks)) \<and>
     (\<forall>kp r d g ks. nl_read nl (nl_responder nl kp r) d = (g, Inr ks) \<longrightarrow>
        (\<exists>g' msg ks'. nl_write nl g = (g', Inr (msg, ks')) \<and> keys_valid nl ks'))"

lemma noise_totalD:
  assumes "noise_total nl W"
  shows "W (fst (nl_write nl (nl_initiator nl kp pub r)))"
    and "W h \<Longrightarrow> nl_read nl h d = (h', Inl e) \<Longrightarrow> W h'"
    and "W h \<Longrightarrow> nl_read nl h d = (h', Inr ks) \<Longrightarrow> keys_valid nl ks"
    and "nl_read nl (nl_responder nl kp r) d = (g, Inr ks) \<Longrightarrow> \<exists>g' msg ks'. nl_write nl g = (g', Inr (msg, ks')) \<and> keys_valid nl ks'"
proof -
  have t: "\<forall>kp pub r. W (fst (nl_write nl (nl_initiator nl kp pub r)))"
    "\<forall>h d h' r. W h \<longrightarrow> nl_read nl h d = (h', r) \<longrightarrow> (case r of Inl _ \<Rightarrow> W h' | Inr ks \<Rightarrow> keys_valid nl ks)"
    "\<forall>kp r d g ks. nl_read nl (nl_responder nl kp r) d = (g, Inr ks) \<longrightarrow>
      (\<exists>g' msg ks'. nl_write nl g = (g', Inr (msg, ks')) \<and> keys_valid nl ks')"
    using assms unfolding noise_total_def by blast+
  show "W (fst (nl_write nl (nl_initiator nl kp pub r)))" using t(1) by blast
  show "W h \<Longrightarrow> nl_read nl h d = (h', Inl e) \<Longrightarrow> W h'" using t(2) [rule_format, of h d h' "Inl e"] by simp
  show "W h \<Longrightarrow> nl_read nl h d = (h', Inr ks) \<Longrightarrow> keys_valid nl ks" using t(2) [rule_format, of h d h' "Inr ks"] by simp
  show "nl_read nl (nl_responder nl kp r) d = (g, Inr ks) \<Longrightarrow> \<exists>g' msg ks'. nl_write nl g = (g', Inr (msg, ks')) \<and> keys_valid nl ks'"
    using t(3) by blast
qed

lemma keys_valid_Init:
  assumes "keys_valid nl ks"
  obtains k1 k2 where "ks = Some (k1, k2)" "\<forall>c0. \<exists>c. Init (nl_aead nl) k1 k2 c0 = Some c" "\<forall>c0. \<exists>c. Init (nl_aead nl) k2 k1 c0 = Some c"
  using assms unfolding keys_valid_def by (auto simp: Init_def)

definition hs_ok :: "('h \<Rightarrow> bool) \<Rightarrow> 'h NoiseManager \<Rightarrow> bool" where
  "hs_ok W m \<longleftrightarrow> (\<forall>k s h. GetSession m k = Some s \<longrightarrow> ns_hs s = Some h \<longrightarrow> W h)"

lemma hs_ok_get: "hs_ok W m \<Longrightarrow> GetSession m k = Some s \<Longrightarrow> ns_hs s = Some h \<Longrightarrow> W h"
  by (auto simp: hs_ok_def)

lemma hs_ok_write: "hs_ok W m \<Longrightarrow> (\<And>h. ns_hs s = Some h \<Longrightarrow> W h) \<Longrightarrow> hs_ok W (session_write k s m)"
  by (auto simp: hs_ok_def split: if_splits)

lemma hs_ok_tun [simp]: "hs_ok W (m\<lparr>tunChan := q\<rparr>) \<longleftrightarrow> hs_ok W m"
  by (simp add: hs_ok_def)

lemma HandshakeInit_some: "\<exists>m' r. HandshakeInit nl rnd now vip pub payload m = Some (m', r)"
  by (cases "nl_write nl (nl_initiator nl (static_key m) pub rnd)") (simp add: HandshakeInit_eq Let_def)

lemma HandshakeInit_hs_ok:
  assumes "noise_total nl W" "gm_wf (sessions m)" "hs_ok W m" "HandshakeInit nl rnd now vip pub payload m = Some (m', r)"
  shows "hs_ok W m'"
proof -
  let ?w = "nl_write nl (nl_initiator nl (static_key m) pub rnd)"
  have W: "W (fst ?w)" by (rule noise_totalD(1) [OF assms(1)])
  obtain s where "m' = session_write vip (s\<lparr>ns_hs := Some (fst ?w)\<rparr>) (SetSession vip s m)"
    using assms(4) HandshakeInit_eq [of nl m pub rnd "fst ?w" "snd ?w" now vip payload] by (auto simp: Let_def)
  then show ?thesis
    using W assms(2,3) by (auto simp: hs_ok_def noise_tab.get_put split: if_splits)
qed

lemma responder_total:
  assumes "noise_total nl W"
  shows "\<exists>m' r. handleResponderFirst nl rnd now src data m = Some (m', r)"
proof (cases "nl_read nl (nl_responder nl (static_key m) rnd) data")
  case (Pair g r)
  show ?thesis
  proof (cases r)
    case (Inr ks)
    obtain g' msg ks' where w: "nl_write nl g = (g', Inr (msg, ks'))" "keys_valid nl ks'"
      using noise_totalD(4) [OF assms] Pair Inr by blast
    obtain k1 k2 where k: "ks' = Some (k1, k2)" "\<forall>c0. \<exists>c. Init (nl_aead nl) k2 k1 c0 = Some c"
      by (rule keys_valid_Init [OF w(2)])
    obtain c where "Init (nl_aead nl) k2 k1 NewChaCha = Some c" using k(2) by blast
    then show ?thesis
      using Pair Inr w(1) k(1)
      by (simp add: handleResponderFirst_def NewNoiseSession_def closePending_def chan_close_def SendAllPendingData_def)
  qed (use Pair in \<open>simp add: handleResponderFirst_def\<close>)
qed

lemma HandleNoisePacket_total:
  assumes "noise_total nl W" "noise_inv m" "hs_ok W m"
  shows "\<exists>m' r. HandleNoisePacket nl rnd now src data m = Some (m', r)"
proof (cases "GetSession m src")
  case None
  then show ?thesis using responder_total [OF assms(1)] by (simp add: HandleNoisePacket_none)
next
  case (Some s)
  have inv: "session_inv s" using assms(2) Some by (rule noise_inv_get)
  show ?thesis
  proof (cases "IsReady (ns_Cipher s)")
    case False
    then obtain h where h: "isInitiator s" "ns_hs s = Some h" "\<not> ch_closed (pendingChan s)"
      using inv by (auto simp: session_inv_def chan_open_def)
    have W: "W h" by (rule hs_ok_get [OF assms(3) Some h(2)])
    obtain h' r where rd: "nl_read nl h data = (h', r)" by (cases "nl_read nl h data")
    show ?thesis
    proof (cases "64 \<le> length data")
      case True
      then show ?thesis using responder_total [OF assms(1)] HandleNoisePacket_collision [OF Some False h(1)] by simp
    next
      case short: False
      show ?thesis
      proof (cases r)
        case (Inl e)
        then show ?thesis using HandleNoisePacket_bad [OF Some False h(1) _ h(2)] short rd by simp
      next
        case (Inr ks)
        then have "keys_valid nl ks" using noise_totalD(3) [OF assms(1) W] rd by blast
        then obtain k1 k2 where k: "ks = Some (k1, k2)" "\<forall>c0. \<exists>c. Init (nl_aead nl) k1 k2 c0 = Some c"
          by (rule keys_valid_Init)
        then obtain c where "Init (nl_aead nl) k1 k2 (ns_Cipher s) = Some c" by blast
        then show ?thesis using HandleNoisePacket_response [OF Some False h(1) _ h(2) _ _ h(3)] short rd Inr k(1) by simp
      qed
    qed
  qed (use Some in \<open>simp add: HandleNoisePacket_ready\<close>)
qed

lemma HandleNoisePacket_hs_ok:
  assumes "noise_total nl W" "noise_inv m" "hs_ok W m" "HandleNoisePacket nl rnd now src data m = Some (m', r)"
  shows "hs_ok W m'"
  using assms(2,4)
proof (cases rule: HandleNoisePacket_cases)
  case responder
  then show ?thesis
    by (cases rule: handleResponderFirst_cases)
      (use assms(3) noise_inv_wf [OF assms(2)] in
        \<open>auto simp: hs_ok_def noise_tab.get_put responder_session_def NewNoiseSession_def split: if_splits\<close>)
next
  case (bad s h0 h err)
  then have "W h" using noise_totalD(2) [OF assms(1)] hs_ok_get [OF assms(3)] by blast
  then show ?thesis using bad assms(3) by (auto intro!: hs_ok_write)
next
  case (finish s h h' k1 k2 c)
  then show ?thesis using assms(3) by (auto simp: finished_session_def intro!: hs_ok_write)
qed (use assms in auto)

section \<open>Packets\<close>

lemma EncodePacket_sender: "\<exists>d g cs'. EncodePacket z pb cb b control compress (Some cs) gp = (d, g, Some cs')"
proof (cases "int (length (Payload gp)) \<le> MaxPayloadSize")
  case True
  have "\<exists>d g' cs'. encode g [] control (Some cs) = (d, g', Some cs')" for g
    by (auto simp: encode_def Let_def GetNonce_def split: prod.split)
  then show ?thesis using EncodePacket_encode [OF True, of z pb cb b control compress "Some cs"] by (simp add: Let_def)
qed (simp add: EncodePacket_none)

lemma ParsePacket_raw:
  assumes "ParsePacket buf content True None g = (gp, None)"
  shows "\<exists>raw. RawData gp = Some raw \<and> sl_data raw = content \<and> HeaderLength \<le> length content"
proof -
  have "HeaderLength \<le> length content"
    using assms by (auto simp: ParsePacket_def parse_def parseHeader_def Let_def split: if_splits sum.splits prod.splits)
  then show ?thesis
    using assms by (auto simp: ParsePacket_def parse_def Let_def split: if_splits sum.splits prod.splits)
qed

lemma DecryptParse_total:
  assumes "RawData gp = Some raw" "HeaderLength \<le> length (sl_data raw)"
  shows "DecryptParse z cipher gp \<noteq> None"
proof -
  have "gp_decompress z g \<noteq> None" if "RawData g = Some r" "HeaderLength \<le> length (sl_data r)" for g r
    using that by (auto simp: gp_decompress_def Let_def split: sum.split)
  then show ?thesis
    using assms
    by (auto simp: DecryptParse_def store_raw_def Let_def split: option.split sum.split)
qed

section \<open>The invariant\<close>

definition peers_ok :: "(ip4, P2PStatus) gomap \<Rightarrow> bool" where
  "peers_ok peers \<longleftrightarrow> gm_wf peers \<and> (\<forall>k s. gm_get peers k = Some s \<longrightarrow> ps_dstAddr s \<noteq> None)"

text \<open>
  The invariant of the state, and what holds from the first session on: the client has its
  address and its device.
\<close>

definition client_inv :: "('h \<Rightarrow> bool) \<Rightarrow> 'h ClientTransport \<Rightarrow> bool" where
  "client_inv W t \<longleftrightarrow>
     noise_inv (noiseMgr t) \<and> hs_ok W (noiseMgr t) \<and> peers_ok (p2pRouter t) \<and>
     chan_open (ControlSendChan t) \<and> chan_open (FromNet t)"

definition client_up :: "'h ClientTransport \<Rightarrow> bool" where
  "client_up t \<longleftrightarrow> length (localIp t) = 4 \<and> ct_device t \<noteq> None"

definition running :: "('h \<Rightarrow> bool) \<Rightarrow> 'h ClientTransport \<Rightarrow> bool" where
  "running W t \<longleftrightarrow> client_inv W t \<and> client_up t"

lemmas running_defs = running_def client_inv_def client_up_def

text \<open>The parts of the state the invariant is about.\<close>

definition core :: "'h ClientTransport \<Rightarrow>
    'h NoiseManager \<times> (ip4, P2PStatus) gomap \<times> GamePacket chan \<times> bytes chan \<times> netip \<times> Tun option" where
  "core t = (noiseMgr t, p2pRouter t, ControlSendChan t, FromNet t, localIp t, ct_device t)"

lemma core_running: "core t' = core t \<Longrightarrow> running W t' \<longleftrightarrow> running W t"
  by (simp add: core_def running_defs)

lemma core_inv: "core t' = core t \<Longrightarrow> client_inv W t' \<longleftrightarrow> client_inv W t"
  by (simp add: core_def client_inv_def)

lemma core_board [simp]: "core (t\<lparr>ct_board := b\<rparr>) = core t"
  by (simp add: core_def)

lemma core_counts [simp]: "core (count_received n t) = core t" "core (count_sent n t) = core t" "core (set_status s t) = core t"
  by (simp_all add: count_received_def count_sent_def set_status_def)

lemma core_transmit: "core (fst (transmit env dst data t)) = core t"
  by (auto simp: transmit_def Let_def split: prod.split option.split)

lemma running_up: "running W t \<Longrightarrow> To4 (localIp t) = Some (localIp t) \<and> (\<exists>dev. ct_device t = Some dev)"
  by (auto simp: running_defs)

lemma running_noise:
  assumes "running W t" "noise_inv m" "hs_ok W m"
  shows "running W (t\<lparr>noiseMgr := m\<rparr>)"
  using assms by (simp add: running_defs)

lemma running_control: "running W t \<Longrightarrow> chan_open ch \<Longrightarrow> running W (t\<lparr>ControlSendChan := ch\<rparr>)"
  by (simp add: running_defs)

lemma running_net: "running W t \<Longrightarrow> chan_open ch \<Longrightarrow> running W (t\<lparr>FromNet := ch\<rparr>)"
  by (simp add: running_defs)

lemma running_tun: "running W t \<Longrightarrow> running W (set_FromTun ch t)"
  by (simp add: running_defs set_FromTun_def)

lemma running_write:
  assumes "running W t" "session_inv s" "\<And>h. ns_hs s = Some h \<Longrightarrow> W h"
  shows "running W (t\<lparr>noiseMgr := session_write k s (noiseMgr t)\<rparr>)"
  using assms by (intro running_noise) (auto simp: running_defs intro: noise_inv_write hs_ok_write)

lemma running_session:
  assumes "running W t" "GetSession (noiseMgr t) k = Some s"
  shows "session_inv s" "ns_hs s = Some h \<Longrightarrow> W h"
  using assms noise_inv_get hs_ok_get by (auto simp: running_defs)

lemma chan_open_send:
  assumes "chan_open ch"
  shows "chan_send x ch \<noteq> SendPanic" and "chan_send x ch = Sent ch' \<Longrightarrow> chan_open ch'"
    and "chan_open (fst (try_send x ch))"
  using assms by (auto simp: chan_send_def chan_open_def try_send_def split: if_splits)

lemma chan_open_recv: "chan_open ch \<Longrightarrow> chan_recv ch = Some (x, ch') \<Longrightarrow> chan_open ch'"
  by (auto simp: chan_recv_def chan_open_def split: list.splits)

lemma chan_open_select: "chan_open ch \<Longrightarrow> select_send stop x ch = (ch', r) \<Longrightarrow> chan_open ch'"
  using chan_open_send(3) [of ch x] by (auto simp: select_send_def split: if_splits prod.splits bool.splits)

lemma control_open: "running W t \<Longrightarrow> chan_open (ControlSendChan t)"
  by (simp add: running_defs)

section \<open>Sending\<close>

lemma send_sealed_safe:
  assumes "running W t" "GetSession (noiseMgr t) dst = Some s" "IsReady (ns_Cipher s)"
    and "EncodePacket z pb cb b control compress (Sender (ns_Cipher (UpdateLastSeen now s))) gp = (d, g, sender)"
  shows "running W (t\<lparr>noiseMgr := session_write dst
    ((UpdateLastSeen now s)\<lparr>ns_Cipher := (ns_Cipher (UpdateLastSeen now s))\<lparr>Sender := sender\<rparr>\<rparr>) (noiseMgr t)\<rparr>)"
proof (rule running_write [OF assms(1)])
  note inv = running_session [OF assms(1,2)]
  obtain cs where "Sender (ns_Cipher s) = Some cs" using inv(1) assms(3) by (auto simp: session_inv_def)
  then have "\<exists>cs'. sender = Some cs'"
    using EncodePacket_sender [of z pb cb b control compress cs gp] assms(4) by (auto simp: UpdateLastSeen_def)
  then show "session_inv ((UpdateLastSeen now s)\<lparr>ns_Cipher := (ns_Cipher (UpdateLastSeen now s))\<lparr>Sender := sender\<rparr>\<rparr>)"
    using inv(1) assms(3) by (auto simp: session_inv_def UpdateLastSeen_def IsReady_def)
  show "W h" if "ns_hs ((UpdateLastSeen now s)\<lparr>ns_Cipher := (ns_Cipher (UpdateLastSeen now s))\<lparr>Sender := sender\<rparr>\<rparr>) = Some h" for h
    using that inv(2) by (simp add: UpdateLastSeen_def)
qed

lemma send_pending_safe:
  assumes "running W t" "GetSession (noiseMgr t) dst = Some s"
  shows "\<exists>s'. AddPendingData p s = Some s' \<and> running W (t\<lparr>noiseMgr := session_write dst s' (noiseMgr t)\<rparr>)"
proof -
  note inv = running_session [OF assms]
  obtain s' where s': "AddPendingData p s = Some s'"
    using AddPendingData_open [of s p] inv(1)
    by (cases "IsReady (ns_Cipher s)") (auto simp: session_inv_def AddPendingData_def pending_check_def)
  then have "ns_hs s' = ns_hs s"
    by (auto simp: AddPendingData_def pending_send_def split: if_splits send_outcome.splits)
  then have "running W (t\<lparr>noiseMgr := session_write dst s' (noiseMgr t)\<rparr>)"
    using inv(2) by (intro running_write [OF assms(1) AddPendingData_inv [OF inv(1) s']]) simp
  with s' show ?thesis by blast
qed

lemma transmit_safe: "running W t \<Longrightarrow> transmit env dst data t = (t', out) \<Longrightarrow> running W t'"
  using core_running [OF core_transmit [of env dst data t]] by simp

lemma dns_query_total: "running W t \<Longrightarrow> dns_query t dst p \<noteq> None"
  by (auto simp: dns_query_eq running_defs)

lemma send_packet_safe:
  assumes "running W t" and p: "20 \<le> length p"
  shows "\<exists>t' out r. send_packet env stop p t = Some (t', out, r) \<and> running W t'"
proof -
  note assms = assms(1)
  have me: "To4 (localIp t) = Some (localIp t)" using assms running_up by blast
  obtain q where q: "dns_query t (to_ip4 (drop 16 p)) p = Some q" using dns_query_total [OF assms, of _ p] by auto
  show ?thesis
  proof (cases q)
    case True
    then have "ihl p + 8 \<le> length p" using q by (auto simp: dns_query_eq split: if_splits)
    then show ?thesis using True p q me transmit_safe [OF assms]
      by (auto simp: send_packet_def Let_def split: prod.split)
  next
    case nodns: False
    show ?thesis
    proof (cases "p ! 19 = 255")
      case True
      then show ?thesis using p q me nodns transmit_safe [OF assms]
        by (auto simp: send_packet_def Let_def split: prod.split)
    next
      case uni: False
      let ?dst = "to_ip4 (drop 16 p)"
      show ?thesis
      proof (cases "GetSession (noiseMgr t) ?dst")
        case None
        then show ?thesis
          using p q nodns uni assms chan_open_send [OF control_open [OF assms]] running_control [OF assms]
          by (auto simp: send_packet_def Let_def split: send_outcome.split)
      next
        case (Some s)
        show ?thesis
        proof (cases "IsReady (ns_Cipher s)")
          case True
          then show ?thesis
            using p q nodns uni Some me send_sealed_safe [OF assms Some True] transmit_safe
            by (auto simp: send_packet_def Let_def split: prod.split) blast
        next
          case False
          then show ?thesis using p q nodns uni Some send_pending_safe [OF assms Some, of p]
            by (auto simp: send_packet_def Let_def)
        qed
      qed
    qed
  qed
qed

text \<open>
  Every packet of a batch has a complete header, also in a batch that waits: what is left of a
  batch is part of it.
\<close>

definition full :: "bytes list \<Rightarrow> bool" where
  "full ps \<longleftrightarrow> list_all (\<lambda>p. 20 \<le> length p) ps"

definition waiting_full :: "(nat \<times> bytes list) list \<Rightarrow> bool" where
  "waiting_full waiting \<longleftrightarrow> list_all (\<lambda>(n, batch). full batch) waiting"

fun park :: "turn \<Rightarrow> (nat \<times> bytes list) list \<Rightarrow> (nat \<times> bytes list) list" where
  "park (TurnWait n rest) waiting = (n, rest) # waiting"
| "park _ waiting = waiting"

lemma send_batch_safe:
  "running W t \<Longrightarrow> full ps \<Longrightarrow> \<exists>t' out r. send_batch env stop ps t = Some (t', out, r) \<and> running W t' \<and>
    (case r of SendWait rest \<Rightarrow> full rest | _ \<Rightarrow> True)"
proof (induction ps arbitrary: t)
  case (Cons p ps)
  then have ps: "20 \<le> length p" "full ps" by (simp_all add: full_def)
  obtain t1 out r where s: "send_packet env stop p t = Some (t1, out, r)" "running W t1"
    using send_packet_safe [OF Cons.prems(1) ps(1)] by blast
  from Cons.IH [OF s(2) ps(2)] s Cons.prems(2) show ?case by (cases r) auto
qed simp

lemma packetSend_resume_safe:
  assumes "running W t" "full ps"
  shows "\<exists>t' out r. packetSend_resume env stop n ps t = Some (t', out, r) \<and> running W t' \<and>
    (waiting_full waiting \<longrightarrow> waiting_full (park r waiting))"
proof -
  obtain t' out r where "send_batch env stop ps t = Some (t', out, r)" "running W t'" "case r of SendWait rest \<Rightarrow> full rest | _ \<Rightarrow> True"
    using send_batch_safe [OF assms] by blast
  then show ?thesis using core_running [OF core_counts(2)]
    by (cases r) (auto simp: packetSend_resume_def waiting_full_def)
qed

lemma collect_full: "collect batch queue = (batch', queue') \<Longrightarrow> full batch \<Longrightarrow> full batch'"
  by (induction batch queue rule: collect.induct) (auto simp: full_def split: if_splits)

lemma packetSend_safe:
  assumes "running W t" "packetSend env stop t = Some r"
  shows "\<exists>t' out r'. r = Some (t', out, r') \<and> running W t' \<and> (waiting_full waiting \<longrightarrow> waiting_full (park r' waiting))"
proof -
  obtain pr ch where pr: "chan_recv (FromTun t) = Some (pr, ch)"
    using assms(2) by (auto simp: packetSend_def split: option.splits)
  show ?thesis
  proof (cases "length pr < 20")
    case True
    then show ?thesis using assms pr running_tun by (auto simp: packetSend_def)
  next
    case False
    obtain batch queue where c: "collect [pr] (ch_items ch) = (batch, queue)" by force
    then have "full batch" using False collect_full by (fastforce simp: full_def)
    from packetSend_resume_safe [OF running_tun [OF assms(1)] this]
    show ?thesis using assms(2) pr False c by (auto simp: packetSend_def)
  qed
qed

section \<open>Receiving\<close>

lemma running_handled:
  assumes "noise_total nl W" "running W t" "HandleNoisePacket nl rnd now src data (noiseMgr t) = Some (m, r)"
  shows "running W (t\<lparr>noiseMgr := m\<rparr>)"
  using assms(2) HandleNoisePacket_inv [OF _ assms(3)] HandleNoisePacket_hs_ok [OF assms(1) _ _ assms(3)]
  by (intro running_noise) (simp_all add: running_defs)

lemma handled_session:
  assumes "noise_inv m" "HandleNoisePacket nl rnd now src data m = Some (m', Handled (Some s) None)"
  shows "GetSession m' src = Some s" "IsReady (ns_Cipher s)"
  using assms
  by (cases rule: HandleNoisePacket_cases; fastforce elim: handleResponderFirst_cases)+

lemma recv_data_safe:
  assumes "noise_total (ce_noise env) W" "running W t" "RawData gp = Some raw" "HeaderLength \<le> length (sl_data raw)"
  shows "\<exists>t' out r. recv_data env stop addr gp t = Some (t', out, r) \<and> running W t'"
proof -
  let ?src = "IpToKey (SourceVirtualIp gp)"
  have inv: "noise_inv (noiseMgr t)" "hs_ok W (noiseMgr t)" using assms(2) by (simp_all add: running_defs)
  obtain m r where h: "HandleNoisePacket (ce_noise env) (ce_rnd env) (ce_now env) ?src (Payload gp) (noiseMgr t) = Some (m, r)"
    using HandleNoisePacket_total [OF assms(1) inv] by blast
  note t1 = running_handled [OF assms(1,2) h]
  show ?thesis
  proof (cases "\<exists>s. r = Handled (Some s) None")
    case True
    then obtain s where r: "r = Handled (Some s) None" by blast
    note s = handled_session [OF inv(1) h [unfolded r]]
    obtain gp' e where d: "DecryptParse (ce_lz4 env) (Recver (ns_Cipher s)) gp = Some (gp', e)"
      using DecryptParse_total [OF assms(3,4), of "ce_lz4 env" "Recver (ns_Cipher s)"] by auto
    have get: "GetSession (noiseMgr (t\<lparr>noiseMgr := m\<rparr>)) ?src = Some s" using s by simp
    have "running W (t\<lparr>noiseMgr := m, noiseMgr := session_write ?src (UpdateLastSeen (ce_now env) s) m\<rparr>)"
      using running_session [OF t1 get] running_write [OF t1, of "UpdateLastSeen (ce_now env) s" ?src]
      by (simp add: UpdateLastSeen_def session_inv_def)
    then have t2: "running W (t\<lparr>noiseMgr := session_write ?src (UpdateLastSeen (ce_now env) s) m\<rparr>)" by simp
    have "chan_open (FromNet t)" using assms(2) by (simp add: running_defs)
    then show ?thesis
      using h r d t1 t2 chan_open_select [of "FromNet t" stop "raw_bytes gp'"] running_net [OF t2]
      by (cases e) (auto simp: recv_data_def Let_def split: prod.split selected.split)
  next
    case False
    then show ?thesis using h t1
      by (auto simp: recv_data_def Let_def split: handled.split option.split)
  qed
qed

lemma running_peer: "running W t \<Longrightarrow> ps_dstAddr s \<noteq> None \<Longrightarrow> running W (peer_write vIp s t)"
  by (auto simp: running_defs peer_write_def peers_ok_def)

lemma recv_ping_safe: "running W t \<Longrightarrow> \<exists>t' out r. recv_ping env addr gp t = Some (t', out, r) \<and> running W t'"
  using running_up [of W t] running_peer [of W t]
  by (auto simp: recv_ping_def SetDstAddr_def Let_def split: option.split)

lemma recv_pong_safe:
  assumes "running W t"
  shows "\<exists>t' out r. recv_pong env stop addr gp t = Some (t', out, r) \<and> running W t'"
proof (cases "gm_get (p2pRouter t) (IpToKey (SourceVirtualIp gp))")
  case (Some s)
  let ?t = "peer_write (IpToKey (SourceVirtualIp gp)) (peer_UpdateLastSeen (ce_now env) True (SetDstAddr addr s)) t"
  have t: "running W ?t"
    by (rule running_peer [OF assms]) (simp add: SetDstAddr_def peer_UpdateLastSeen_def)
  then show ?thesis
    using Some chan_open_select [OF control_open [OF t], of stop] running_control [OF t]
    by (auto simp: recv_pong_def Let_def split: prod.split selected.split)
qed (use assms in \<open>simp add: recv_pong_def\<close>)

lemma recv_dns_safe: "running W t \<Longrightarrow> \<exists>t' out r. recv_dns gp t = Some (t', out, r) \<and> running W t'"
  using running_up [of W t] by (auto simp: recv_dns_def split: sum.split)

lemma packetRecv_safe:
  assumes "noise_total (ce_noise env) W" "running W t"
  shows "\<exists>t' out r. packetRecv env stop content addr t = Some (t', out, r) \<and> running W t'"
proof -
  let ?t = "count_received (length content) t"
  have t: "running W ?t" using assms(2) core_running [OF core_counts(1)] by blast
  obtain gp e where p: "ParsePacket (ce_raw env) content True None gp_empty = (gp, e)"
    by (cases "ParsePacket (ce_raw env) content True None gp_empty")
  show ?thesis
  proof (cases e)
    case None
    then obtain raw where raw: "RawData gp = Some raw" "HeaderLength \<le> length (sl_data raw)"
      using ParsePacket_raw p by blast
    show ?thesis
      using p None t recv_data_safe [OF assms(1) t raw, of stop addr] recv_ping_safe [OF t, of env addr gp]
        recv_pong_safe [OF t, of env stop addr gp] recv_dns_safe [OF t, of gp]
      by (simp add: packetRecv_def Let_def)
  qed (use p t in \<open>simp add: packetRecv_def\<close>)
qed

section \<open>Control messages and tunnels\<close>

lemma running_addP2P: "running W t \<Longrightarrow> running W (addP2P now vIp addr nt t)"
  by (auto simp: running_defs addP2P_def peers_ok_def SetDstAddr_def Let_def)

lemma running_removeP2P: "running W t \<Longrightarrow> running W (removeP2P vIp t)"
  by (auto simp: running_defs removeP2P_def peers_ok_def Let_def chan_open_send(3))

lemma initiateNoise_safe:
  assumes "noise_total (ce_noise env) W" "running W t"
  shows "\<exists>t' out. initiateNoise env vip pub payload t = Some (t', out) \<and> running W t'"
proof -
  obtain m r where h: "HandshakeInit (ce_noise env) (ce_rnd env) (ce_now env) vip pub payload (noiseMgr t) = Some (m, r)"
    using HandshakeInit_some by blast
  have inv: "noise_inv (noiseMgr t)" "hs_ok W (noiseMgr t)" using assms(2) by (simp_all add: running_defs)
  have "running W (t\<lparr>noiseMgr := m\<rparr>)"
    using running_noise [OF assms(2) HandshakeInit_inv [OF inv(1) h] HandshakeInit_hs_ok [OF assms(1) noise_inv_wf [OF inv(1)] inv(2) h]] .
  then show ?thesis using h by (auto simp: initiateNoise_def Let_def split: sum.split)
qed

lemma controlRecv_safe:
  assumes "noise_total (ce_noise env) W" "running W t"
  shows "\<exists>gp' t' out r. controlRecv env lo ev gp t = Some (gp', t', out, r) \<and> running W t'"
proof (cases ev)
  case (WsBinary data)
  obtain g e where p: "ParseControl gp data = (g, e)" by (cases "ParseControl gp data")
  have "\<exists>a. BytesToIP (take 6 (Payload g)) = Some a" if "7 \<le> length (Payload g)" using that by (simp add: BytesToIP_def)
  moreover obtain t1 out where "initiateNoise env (IpToKey (SourceVirtualIp g)) (take 32 (Payload g)) (drop 32 (Payload g)) t = Some (t1, out)" "running W t1"
    using initiateNoise_safe [OF assms] by blast
  ultimately show ?thesis
    using WsBinary p assms(2) running_addP2P [OF assms(2)]
    by (cases e) (auto simp: controlRecv_def not_less)
qed (use assms in \<open>simp_all add: controlRecv_def\<close>)

lemma controlSend_safe: "running W t \<Longrightarrow> controlSend env ok t = Some (t', out, r) \<Longrightarrow> running W t'"
  using running_control [of W t] chan_open_recv [OF control_open [of W t]]
  by (auto simp: controlSend_def Let_def split: option.splits if_splits)

lemma heartbeat_safe:
  assumes "running W t"
  shows "\<exists>t' out r. heartbeat env stop t = Some (t', out, r) \<and> running W t'"
  using assms running_up [OF assms] chan_open_send [OF control_open [OF assms]] running_control [OF assms]
  by (auto simp: heartbeat_def Let_def split: send_outcome.split prod.split option.split)

lemma punch_total: "ps_dstAddr s \<noteq> None \<Longrightarrow> punch env data s \<noteq> None"
  by (auto simp: punch_def GetDstAddr_def split: prod.split)

lemma visit_peers_safe:
  "running W t \<Longrightarrow> \<forall>(k, s)\<in>set ps. ps_dstAddr s \<noteq> None \<Longrightarrow>
   \<exists>t' out. visit_peers env data ps t = Some (t', out) \<and> running W t'"
proof (induction env data ps t rule: visit_peers.induct)
  case (2 env data vIp s ps t)
  have p: "punch env data s \<noteq> None" using 2(4) by (intro punch_total) auto
  show ?case
  proof (cases "peer_IsTimeout (ce_now env) 10 s")
    case True
    then show ?thesis using 2(1) [OF True running_removeP2P] 2(3,4) by auto
  next
    case False
    obtain o1 where o1: "(if ps_Established s then Some (fst (WriteToUDP (ce_accept env) data (GetDstAddr s)))
        else map_option fst (punch env data s)) = Some o1" using p by (cases "ps_Established s") auto
    then show ?thesis using 2(2) [OF False o1] 2(3,4) False by auto
  qed
qed simp

lemma handleP2P_safe:
  assumes "running W t"
  shows "\<exists>t' out. handleP2P env t = Some (t', out) \<and> running W t'"
proof -
  have "\<forall>(k, s)\<in>set (p2pRouter t). ps_dstAddr s \<noteq> None"
    using assms by (auto simp: running_defs peers_ok_def gm_get_Some_iff)
  from visit_peers_safe [OF assms this] show ?thesis
    using running_up [OF assms] by (fastforce simp: handleP2P_def Let_def)
qed

section \<open>Every reachable client\<close>

lemma noise_sweep_keeps:
  assumes "client_inv W t"
  shows "client_inv W (t\<lparr>noiseMgr := sweepSessions timeout now (noiseMgr t)\<rparr>)"
proof -
  have inv: "noise_inv (noiseMgr t)" "hs_ok W (noiseMgr t)" using assms by (simp_all add: client_inv_def)
  have "hs_ok W (sweepSessions timeout now (noiseMgr t))"
    using inv(2) noise_sweep.get_sweep [OF noise_inv_wf [OF inv(1)], of timeout now]
    by (auto simp: hs_ok_def split: option.splits if_splits)
  then show ?thesis
    using assms noise_step_inv [OF noise_step.sweep inv(1)] by (simp add: client_inv_def)
qed

lemma rename_keeps: "client_inv W t \<Longrightarrow> client_inv W (t\<lparr>noiseMgr := SetVirtualIp vip (noiseMgr t)\<rparr>)"
  using noise_step_inv [OF noise_step.rename, of "noiseMgr t" vip]
  by (auto simp: client_inv_def hs_ok_def SetVirtualIp_def GetSession_def)

lemma client_inv_frame [simp]:
  "client_inv W (t\<lparr>localIp := ip\<rparr>) = client_inv W t" "client_inv W (t\<lparr>ct_device := d\<rparr>) = client_inv W t"
  "client_inv W (t\<lparr>ct_natType := n\<rparr>) = client_inv W t" "client_inv W (t\<lparr>ct_board := b\<rparr>) = client_inv W t"
  "client_inv W (t\<lparr>serverAddr := a\<rparr>) = client_inv W t" "client_inv W (t\<lparr>checkAddr := c\<rparr>) = client_inv W t"
  "client_inv W (set_status st t) = client_inv W t"
  by (simp_all add: client_inv_def set_status_def)

definition online :: "('h \<Rightarrow> bool) \<Rightarrow> 'h ClientTransport \<Rightarrow> bool" where
  "online W t \<longleftrightarrow> client_inv W t \<and> (localIp t = [] \<or> client_up t)"

lemma sync_device_safe:
  assumes "online W t"
  shows "sync_device a hs t = Some t' \<Longrightarrow> running W t'"
    and "at_open a \<Longrightarrow> at_ioctl a \<Longrightarrow> (\<And>cmd. at_runs a cmd) \<Longrightarrow> sync_device a hs t \<noteq> None"
proof -
  obtain vip where v: "To4 (Destination hs) = Some vip" "length vip = 4"
    by (cases "gp_dst hs") (simp add: Destination_def)
  let ?new = "localIp t = [] \<or> \<not> ip_Equal (localIp t) vip"
  show "sync_device a hs t = Some t' \<Longrightarrow> running W t'"
    using assms v rename_keeps [of W "t\<lparr>localIp := vip\<rparr>"]
    by (cases ?new) (auto simp: sync_device_def online_def running_def client_up_def Let_def split: option.splits)
  show "at_open a \<Longrightarrow> at_ioctl a \<Longrightarrow> (\<And>cmd. at_runs a cmd) \<Longrightarrow> sync_device a hs t \<noteq> None"
    using v by (simp add: sync_device_def NewTun_def linux_commands_def Let_def)
qed

lemma backoffWait_core: "backoffWait rc t = (rc', w, t') \<Longrightarrow> core t' = core t"
  by (auto simp: backoffWait_def Let_def split: prod.splits)

lemma online_core: "core t' = core t \<Longrightarrow> online W t' = online W t"
  by (simp add: online_def core_def client_inv_def client_up_def)

lemma connectServer_core: "core (fst (connectServer d s c l t)) = core t"
  by (simp add: connectServer_def core_def)

lemma probe_core:
  "core (if p then (case r of Inr nt \<Rightarrow> (set_status s t)\<lparr>ct_natType := nt\<rparr> | Inl _ \<Rightarrow> set_status s t)
         else t\<lparr>ct_natType := u\<rparr>) = core t"
  by (simp add: core_def set_status_def split: sum.split)

lemma ListenAndServe_cases [case_names failed panics joins]:
  obtains t1 where "core t1 = core t"
      "ListenAndServe env a rc t = Some (fst (backoff_wait rc), set_status RECONNECTING t1, Retry (snd (backoff_wait rc)))"
  | t1 hs where "core t1 = core t" "sync_device a hs t1 = None" "ListenAndServe env a rc t = None"
  | t1 hs t2 where "core t1 = core t" "sync_device a hs t1 = Some t2"
      "ListenAndServe env a rc t = Some (0, set_status RUNNING t2, Running)"
proof -
  define t1 where "t1 = set_status CONNECT
    (if EnableP2P (ce_cfg env) then (case at_nat a of Inr nt \<Rightarrow> (set_status TESTNAT t)\<lparr>ct_natType := nt\<rparr> | Inl _ \<Rightarrow> set_status TESTNAT t)
     else t\<lparr>ct_natType := TypeUnknown\<rparr>)"
  have t1: "core t1 = core t" unfolding t1_def core_counts by (rule probe_core)
  obtain t2 ok where c: "connectServer (at_dial a) (at_server a) (at_check a) (at_listen a) t1 = (t2, ok)"
    by (cases "connectServer (at_dial a) (at_server a) (at_check a) (at_listen a) t1")
  have t2: "core t2 = core t" using connectServer_core [of "at_dial a" "at_server a" "at_check a" "at_listen a" t1] c t1 by simp
  let ?t3 = "set_status INTINETWORK t2"
  have t3: "core ?t3 = core t" using t2 by simp
  note L = ListenAndServe_def [of env a rc t, unfolded Let_def, folded t1_def, unfolded c]
  have retry: "backoffWait rc t0 = (fst (backoff_wait rc), snd (backoff_wait rc), set_status RECONNECTING t0)" for t0 :: "'a ClientTransport"
    by (simp add: backoffWait_def Let_def split: prod.split)
  show thesis
  proof (cases "ok \<and> (\<exists>hs. snd (handshake env (at_write a) (at_reply a) ?t3) = Inr hs)")
    case False
    then show thesis
    proof (cases ok)
      case True
      with False obtain e where "snd (handshake env (at_write a) (at_reply a) ?t3) = Inl e"
        by (cases "snd (handshake env (at_write a) (at_reply a) ?t3)") auto
      then show thesis using True that(1) [OF t3] by (simp add: L retry)
    qed (use that(1) [OF t2] in \<open>simp add: L retry\<close>)
  next
    case True
    then obtain hs where hs: "ok" "snd (handshake env (at_write a) (at_reply a) ?t3) = Inr hs" by blast
    then show thesis
      using that(2,3) [OF t3, of hs] by (cases "sync_device a hs ?t3") (simp_all add: L)
  qed
qed

lemma ListenAndServe_safe:
  assumes "online W t" "ListenAndServe env a rc t = Some (rc', t', r)"
  shows "if r = Running then running W t' else online W t'"
proof (cases rule: ListenAndServe_cases [of t env a rc])
  case (failed t1)
  then show ?thesis using assms online_core [of t1 t W] online_core [OF core_counts(3)] by auto
next
  case (joins t1 hs t2)
  then have "running W t2" using assms(1) online_core [of t1 t W] sync_device_safe(1) by blast
  then show ?thesis using joins(3) assms(2) core_running [OF core_counts(3)] by auto
qed (use assms(2) in simp)

text \<open>
  The loops that \<open>ListenAndServe\<close> starts, as one step relation. The state says whether a session
  is running, which batches wait for room in the control queue, and the transport. Each step
  takes its own environment; the Noise library is the same in all of them.
\<close>

type_synonym 'h client = "bool \<times> (nat \<times> bytes list) list \<times> 'h ClientTransport"

inductive client_step :: "'h noise_lib \<Rightarrow> 'h client \<Rightarrow> 'h client \<Rightarrow> bool" for nl where
  start: "ce_noise env = nl \<Longrightarrow> ListenAndServe env a rc t = Some (rc', t', r) \<Longrightarrow>
    client_step nl (False, [], t) (r = Running, [], t')"
| ended: "client_step nl (True, waiting, t) (False, [], session_ended failed t)"
| send: "ce_noise env = nl \<Longrightarrow> packetSend env stop t = Some (Some (t', out, r)) \<Longrightarrow>
    client_step nl (True, waiting, t) (True, park r waiting, t')"
| resume: "ce_noise env = nl \<Longrightarrow> (n, batch) \<in> set waiting \<Longrightarrow> packetSend_resume env stop n batch t = Some (t', out, r) \<Longrightarrow>
    client_step nl (True, waiting, t) (True, park r (remove1 (n, batch) waiting), t')"
| receive: "ce_noise env = nl \<Longrightarrow> packetRecv env stop content addr t = Some (t', out, r) \<Longrightarrow>
    client_step nl (True, waiting, t) (True, waiting, t')"
| control_recv: "ce_noise env = nl \<Longrightarrow> controlRecv env lo ev gp t = Some (gp', t', out, r) \<Longrightarrow>
    client_step nl (True, waiting, t) (True, waiting, t')"
| control_send: "ce_noise env = nl \<Longrightarrow> controlSend env ok t = Some (t', out, r) \<Longrightarrow>
    client_step nl (True, waiting, t) (True, waiting, t')"
| beat: "ce_noise env = nl \<Longrightarrow> heartbeat env stop t = Some (t', out, r) \<Longrightarrow>
    client_step nl (True, waiting, t) (True, waiting, t')"
| tunnels: "ce_noise env = nl \<Longrightarrow> handleP2P env t = Some (t', out) \<Longrightarrow>
    client_step nl (True, waiting, t) (True, waiting, t')"
| test: "testBroadCast bch t = Some (t', r) \<Longrightarrow> client_step nl (True, waiting, t) (True, waiting, t')"
| sweep: "client_step nl (up, waiting, t) (up, waiting, t\<lparr>noiseMgr := CheckSession [now] (noiseMgr t)\<rparr>)"
| from_device: "device_read stop ev t = Some (t', r) \<Longrightarrow> client_step nl (up, waiting, t) (up, waiting, t')"
| to_device: "device_write t = Some (t', out) \<Longrightarrow> client_step nl (up, waiting, t) (up, waiting, t')"

definition system_inv :: "('h \<Rightarrow> bool) \<Rightarrow> 'h client \<Rightarrow> bool" where
  "system_inv W s \<longleftrightarrow> (case s of (up, waiting, t) \<Rightarrow> online W t \<and> (up \<longrightarrow> client_up t) \<and> waiting_full waiting)"

lemma system_running: "system_inv W (True, waiting, t) \<longleftrightarrow> running W t \<and> waiting_full waiting"
  by (auto simp: system_inv_def online_def running_def)

lemma online_tun: "online W (set_FromTun ch t) = online W t"
  by (simp add: online_def client_inv_def client_up_def set_FromTun_def)

lemma device_read_safe: "device_read stop ev t = Some (t', r) \<Longrightarrow> \<exists>ch. t' = set_FromTun ch t"
  by (auto simp: device_read_def split: option.splits prod.splits)

lemma device_write_safe: "device_write t = Some (t', out) \<Longrightarrow> \<exists>ch. t' = t\<lparr>FromNet := ch\<rparr> \<and> (chan_open (FromNet t) \<longrightarrow> chan_open ch)"
  using chan_open_recv [of "FromNet t"]
  by (auto simp: device_write_def tunSend_def split: option.splits prod.splits)

lemma system_tun: "system_inv W (up, waiting, t) \<Longrightarrow> system_inv W (up, waiting, set_FromTun ch t)"
  by (simp add: system_inv_def online_def client_inv_def client_up_def set_FromTun_def)

lemma client_step_inv:
  assumes "noise_total nl W"
  shows "client_step nl s s' \<Longrightarrow> system_inv W s \<Longrightarrow> system_inv W s'"
proof (induction rule: client_step.induct)
  case (start env a rc t rc' t' r)
  then show ?case
    using ListenAndServe_safe [of W t env a rc rc' t' r]
    by (auto simp: system_inv_def online_def running_def split: if_splits)
next
  case (ended waiting t failed)
  then show ?case by (simp add: system_inv_def session_ended_def online_core [OF core_counts(3)] waiting_full_def)
next
  case (send env stop t t' out r waiting)
  then show ?case using packetSend_safe [of W t env stop _ waiting] by (auto simp: system_running)
next
  case (resume env n batch waiting stop t t' out r)
  then have "full batch" "waiting_full (remove1 (n, batch) waiting)"
    by (auto simp: system_running waiting_full_def list_all_iff dest: set_mp [OF set_remove1_subset])
  then show ?case
    using resume packetSend_resume_safe [of W t batch env stop n "remove1 (n, batch) waiting"] by (auto simp: system_running)
next
  case (receive env stop content addr t t' out r waiting)
  then show ?case using packetRecv_safe [of env W t stop content addr] assms by (auto simp: system_running)
next
  case (control_recv env lo ev gp t gp' t' out r waiting)
  then show ?case using controlRecv_safe [of env W t lo ev gp] assms by (auto simp: system_running)
next
  case (beat env stop t t' out r waiting)
  then show ?case using heartbeat_safe [of W t env stop] by (auto simp: system_running)
next
  case (tunnels env t t' out waiting)
  then show ?case using handleP2P_safe [of W t env] by (auto simp: system_running)
next
  case (test bch t t' r waiting)
  then show ?case using system_tun by (auto simp: testBroadCast_def split: send_outcome.splits)
next
  case (sweep up waiting t now)
  then show ?case
    using noise_sweep_keeps [of W t 10 now] by (auto simp: system_inv_def online_def client_up_def)
next
  case (from_device stop ev t t' r up waiting)
  then show ?case using device_read_safe system_tun by blast
next
  case (to_device t t' out up waiting)
  then show ?case
    using device_write_safe [OF to_device(1)] by (auto simp: system_inv_def online_def client_inv_def client_up_def)
qed (auto simp: system_running dest: controlSend_safe)

lemma NewTransport_inv: "system_inv W (False, [], NewTransport kp)"
  by (simp add: system_inv_def online_def client_inv_def NewTransport_def noise_inv_new hs_ok_def peers_ok_def
      NewNoiseManager_def GetSession_def waiting_full_def)
    (simp add: noise_inv_def GetSession_def)

lemma client_reachable:
  assumes "noise_total nl W" "(client_step nl)\<^sup>*\<^sup>* (False, [], NewTransport kp) s"
  shows "system_inv W s"
  using assms(2)
proof (induction rule: rtranclp_induct)
  case base
  then show ?case by (rule NewTransport_inv)
next
  case (step s s')
  then show ?case using client_step_inv [OF assms(1)] by blast
qed

lemma some_not_None: "\<exists>a b c. x = Some (a, b, c) \<and> P a \<Longrightarrow> x \<noteq> None"
  by auto

lemma sync_device_total:
  "sync_device (a\<lparr>at_open := True, at_ioctl := True, at_runs := \<lambda>_. True\<rparr>) hs t \<noteq> None"
  by (cases "gp_dst hs") (simp add: sync_device_def Destination_def NewTun_def linux_commands_def Let_def)

lemma ListenAndServe_total:
  fixes t :: "'h ClientTransport"
  assumes "\<And>hs (t0 :: 'h ClientTransport). sync_device a hs t0 \<noteq> None"
  shows "ListenAndServe env a rc t \<noteq> None"
  by (cases rule: ListenAndServe_cases [of t env a rc]) (use assms in auto)


end
