(* ===== verification/ClientProps.thy ===== *)
theory ClientProps
  imports ClientSafe
begin

text \<open>
  Properties of the client's parts: the reconnect delay, hole punching, the life of a direct
  tunnel, and what a ready session makes of packets that do not authenticate.
\<close>

section \<open>Joining\<close>

text \<open>The server's answer to the handshake gives the client its address and its name.\<close>

definition device_ok :: "attempt \<Rightarrow> bool" where
  "device_ok a \<longleftrightarrow> at_open a \<and> at_ioctl a \<and> (\<forall>command. at_runs a command)"

lemma handshake_reply:
  assumes "length label = 8" "payloadLengthField (int (length name)) = (len, True)"
  shows "\<exists>gp. snd (handshake env True (Inr (frame TypeHandshake vip len src label name)) t) = Inr gp \<and> gp_dst gp = vip \<and> Payload gp = name"
proof -
  have "length name \<le> 65519"
    using payloadLengthField_ok [of "int (length name)"] assms(2) by (simp add: MaxPayloadSize_eq)
  then have "\<exists>cap. ParsePacket (ce_raw env) (frame TypeHandshake vip len src label name) True None g =
    (g\<lparr>PType := TypeHandshake, gp_dst := vip, gp_src := src, Length := len, Payload := name,
       RawData := Some \<lparr>sl_data = frame TypeHandshake vip len src label name, sl_cap = cap\<rparr>\<rparr>, None)" for g
    using assms by (intro ParsePacket_frame) (simp_all add: type_defs FlagCompress_def validPayloadLength_plaintext_iff)
  from this [of "NewGamePacket ip4_zero ip4_zero TypeHandshake
      ([ct_natType t] @ GetPublicKey (noiseMgr t) @ ClientID (ce_cfg env) @ DeviceName (ce_cfg env))"]
  show ?thesis by (auto simp: handshake_def)
qed

lemma sync_device_joins:
  assumes "device_ok a" "gp_dst hs = vip" "localIp t = [] \<or> length (localIp t) = 4"
  shows "\<exists>t'. sync_device a hs t = Some t' \<and> localIp t' = ip4_bytes vip \<and> serverAddr t' = serverAddr t \<and>
    (localIp t \<noteq> ip4_bytes vip \<longrightarrow> myVip (noiseMgr t') = vip \<and>
       ct_device t' = Some (tun_state (Payload hs) (str ''.et'') (ip4_bytes vip)))"
proof -
  have "ip_Equal (localIp t) (ip4_bytes vip) \<longleftrightarrow> localIp t = ip4_bytes vip"
    using assms(3) by (cases vip) (auto simp: ip_Equal_def)
  then show ?thesis
    using assms(1,2) by (auto simp: sync_device_def NewTun_def device_ok_def Let_def SetVirtualIp_def list_all_iff)
qed

lemma ListenAndServe_joins:
  assumes "device_ok a" "at_dial a" "at_listen a" "at_write a"
    and "at_reply a = Inr (frame TypeHandshake vip len src label name)"
    and "length label = 8" "payloadLengthField (int (length name)) = (len, True)"
    and "localIp t = [] \<or> length (localIp t) = 4"
  shows "\<exists>t'. ListenAndServe env a rc t = Some (0, t', Running) \<and> localIp t' = ip4_bytes vip \<and> serverAddr t' = at_server a \<and>
    (localIp t \<noteq> ip4_bytes vip \<longrightarrow> myVip (noiseMgr t') = vip \<and>
       ct_device t' = Some (tun_state name (str ''.et'') (ip4_bytes vip)))"
proof -
  define t1 where "t1 = set_status CONNECT
    (if EnableP2P (ce_cfg env) then (case at_nat a of Inr nt \<Rightarrow> (set_status TESTNAT t)\<lparr>ct_natType := nt\<rparr> | Inl _ \<Rightarrow> set_status TESTNAT t)
     else t\<lparr>ct_natType := TypeUnknown\<rparr>)"
  define t2 where "t2 = set_status INTINETWORK (t1\<lparr>serverAddr := at_server a, checkAddr := at_check a\<rparr>)"
  have keep: "localIp t2 = localIp t" "serverAddr t2 = at_server a"
    by (auto simp: t2_def t1_def set_status_def split: sum.split)
  obtain hs where hs: "snd (handshake env (at_write a) (at_reply a) t2) = Inr hs" "gp_dst hs = vip" "Payload hs = name"
    using handshake_reply [OF assms(6,7), of env vip src t2] assms(4,5) by auto
  obtain t3 where t3: "sync_device a hs t2 = Some t3" "localIp t3 = ip4_bytes vip" "serverAddr t3 = at_server a"
    "localIp t \<noteq> ip4_bytes vip \<longrightarrow> myVip (noiseMgr t3) = vip \<and> ct_device t3 = Some (tun_state name (str ''.et'') (ip4_bytes vip))"
    using sync_device_joins [OF assms(1) hs(2), of t2] hs(3) keep assms(8) by auto
  have "ListenAndServe env a rc t = Some (0, set_status RUNNING t3, Running)"
    using assms(2,3) hs(1) t3(1)
    unfolding ListenAndServe_def Let_def t1_def [symmetric] by (simp add: connectServer_def flip: t2_def)
  then show ?thesis using t3 by (simp add: set_status_def)
qed

section \<open>A client that has joined\<close>

text \<open>
  A configuration, an environment and one attempt to connect in which everything succeeds: the
  server answers with the address 10.0.6.2 and the name \<open>pc\<close>.
\<close>

definition demo_cfg :: Settings where
  "demo_cfg = \<lparr>ServerIp = [], ServerPort = 9000, DeviceName = str ''pc'', ClientID = replicate 16 7,
     ReadTimeout = 10000000000, RetentionTime = 300000000000, PingTime = 1000000000, SendWorkers = 1,
     RecvWorkers = 1, CheckPort = 9001, EnableP2P = False, EnableUi = False, EnableCompress = False\<rparr>"

definition demo_env :: "int \<Rightarrow> nat client_env" where
  "demo_env now = \<lparr>ce_noise = stage_noise, ce_lz4 = null_lz4, ce_probe = make_slice 0, ce_cbuf = make_slice 0,
     ce_frame = make_slice 0, ce_raw = make_slice 0, ce_rnd = 0, ce_now = now,
     ce_accept = (\<lambda>_ a. 0 \<le> ua_Port a \<and> ua_Port a \<le> 65535), ce_cfg = demo_cfg\<rparr>"

definition demo_server_addr :: UDPAddr where
  "demo_server_addr = \<lparr>ua_IP = [192, 0, 2, 1], ua_Port = 9000\<rparr>"

definition demo_attempt :: attempt where
  "demo_attempt = \<lparr>at_nat = Inr TypeCone, at_dial = True, at_server = Some demo_server_addr, at_check = None,
     at_listen = True, at_write = True,
     at_reply = Inr (frame TypeHandshake (IP4 10 0 6 2) 18 ip4_zero (replicate 8 0) (str ''pc'')),
     at_open = True, at_ioctl = True, at_runs = (\<lambda>_. True)\<rparr>"

lemma demo_env_sel [simp]:
  "ce_noise (demo_env now) = stage_noise" "ce_cfg (demo_env now) = demo_cfg" "ce_now (demo_env now) = now"
  "ce_accept (demo_env now) = (\<lambda>_ a. 0 \<le> ua_Port a \<and> ua_Port a \<le> 65535)" "ce_lz4 (demo_env now) = null_lz4"
  "EnableP2P demo_cfg = False" "EnableCompress demo_cfg = False"
  by (simp_all add: demo_env_def demo_cfg_def)

lemma stage_noise_total: "noise_total stage_noise (\<lambda>h. h = 1)"
  by (auto simp: noise_total_def stage_noise_def keys_valid_def)

lemma demo_started:
  "\<exists>t. ListenAndServe (demo_env 100) demo_attempt 0 (NewTransport ([1], [1])) = Some (0, t, Running) \<and>
     localIp t = [10, 0, 6, 2] \<and> serverAddr t = Some demo_server_addr"
proof -
  have "device_ok demo_attempt" by (simp add: device_ok_def demo_attempt_def)
  moreover have "at_reply demo_attempt = Inr (frame TypeHandshake (IP4 10 0 6 2) 18 ip4_zero (replicate 8 0) (str ''pc''))"
    by (simp add: demo_attempt_def)
  moreover have "payloadLengthField (int (length (str ''pc''))) = (18, True)"
    by (simp add: payloadLengthField_def size_defs)
  ultimately show ?thesis
    using ListenAndServe_joins [of demo_attempt "IP4 10 0 6 2" 18 ip4_zero "replicate 8 0" "str ''pc''" "NewTransport ([1], [1])"
        "demo_env 100" 0]
    by (auto simp: demo_attempt_def NewTransport_def)
qed


section \<open>Reconnecting\<close>

lemma backoff_wait_value:
  "snd (backoff_wait rc) = (if rc < 62 then min (2 ^ (rc + 1)) 30 * 1000000000 else 0)"
proof -
  consider "rc < 4" | "4 \<le> rc" "rc < 62" | "rc = 62" | "rc > 62" by linarith
  then show ?thesis
  proof cases
    case 1
    then have "rc = 0 \<or> rc = 1 \<or> rc = 2 \<or> rc = 3" by linarith
    then show ?thesis by (auto simp: backoff_wait_def push_bit_eq_mult)
  next
    case 2
    have p: "sint (push_bit (rc + 1) 1 :: u64) = 2 ^ (rc + 1)"
    proof -
      have "(2::int) ^ (rc + 1) \<le> 2 ^ 62" using 2 by (intro power_increasing) auto
      moreover have "uint (push_bit (rc + 1) 1 :: u64) = 2 ^ (rc + 1)"
        using 2 calculation unfolding unsigned_push_bit_eq by (simp add: push_bit_eq_mult take_bit_int_eq_self)
      moreover have "- (2 ^ 63) \<le> (2::int) ^ (rc + 1)" by (rule order_trans [of _ 0]) simp_all
      ultimately show ?thesis unfolding sint_uint by (intro trans [OF signed_take_bit_int_eq_self]) (simp_all del: power_Suc)
    qed
    have "(2::int) ^ 5 \<le> 2 ^ (rc + 1)" using 2 by (intro power_increasing) auto
    then show ?thesis using 2 p by (simp add: backoff_wait_def Let_def)
  next
    case 3
    then show ?thesis by (simp add: backoff_wait_def push_bit_eq_mult)
  next
    case 4
    then have "(push_bit (rc + 1) 1 :: u64) = 0" by (intro push_bit_word_beyond) simp
    then show ?thesis using 4 by (simp add: backoff_wait_def Let_def del: push_bit_of_1)
  qed
qed

text \<open>
  C37. The reconnect loop: an attempt that succeeds resets the retry counter, one that fails
  increments it and waits twice as long as the one before, from two seconds up to thirty. From the
  sixty-third failure in a row on the shift has overflowed and the client retries without waiting.
\<close>

theorem reconnect_backoff:
  "case ListenAndServe env a rc t of
     None \<Rightarrow> \<not> device_ok a
   | Some (rc', t', Running) \<Rightarrow> rc' = 0 \<and> bd_status (ct_board t') = RUNNING
   | Some (rc', t', Retry wait) \<Rightarrow> rc' = rc + 1 \<and> bd_status (ct_board t') = RECONNECTING \<and>
       wait = (if rc < 62 then min (2 ^ (rc + 1)) 30 * 1000000000 else 0)"
proof -
  have "fst (backoff_wait rc) = rc + 1" by (simp add: backoff_wait_def Let_def)
  then have b: "backoff_wait rc = (rc + 1, if rc < 62 then min (2 ^ (rc + 1)) 30 * 1000000000 else 0)"
    using backoff_wait_value [of rc] by (simp add: prod_eq_iff)
  have none: "sync_device a hs t0 = None \<Longrightarrow> \<not> device_ok a" for hs and t0 :: "'a ClientTransport"
    by (auto simp: sync_device_def NewTun_def device_ok_def Let_def list_all_iff split: if_splits)
  show ?thesis
    by (cases rule: ListenAndServe_cases [of t env a rc]) (auto simp: b set_status_def dest: none)
qed

section \<open>Hole punching\<close>

definition punch_targets :: "bytes \<Rightarrow> UDPAddr \<Rightarrow> int list \<Rightarrow> datagram list" where
  "punch_targets data a is = map (\<lambda>i. (data, a\<lparr>ua_Port := ua_Port a + i\<rparr>)) is"

lemma punch_ports_prefix:
  "punch_ports env data (ua_IP a) (ua_Port a) is = (out, ok) \<Longrightarrow>
     \<exists>n \<le> length is. out = take n (punch_targets data a is) \<and> (ok \<longleftrightarrow> n = length is) \<and>
       (\<forall>i < n. ce_accept env data (a\<lparr>ua_Port := ua_Port a + is ! i\<rparr>))"
proof (induction "is" arbitrary: out ok)
  case Nil
  then show ?case by (simp add: punch_targets_def)
next
  case (Cons i "is")
  have a: "\<lparr>ua_IP = ua_IP a, ua_Port = ua_Port a + i\<rparr> = a\<lparr>ua_Port := ua_Port a + i\<rparr>" by (cases a) simp
  show ?case
  proof (cases "ce_accept env data (a\<lparr>ua_Port := ua_Port a + i\<rparr>)")
    case False
    then show ?thesis using Cons.prems by (auto simp: WriteToUDP_def a)
  next
    case True
    obtain outs ok' where r: "punch_ports env data (ua_IP a) (ua_Port a) is = (outs, ok')" by force
    from Cons.IH [OF this] obtain n where n: "n \<le> length is" "outs = take n (punch_targets data a is)"
      "ok' \<longleftrightarrow> n = length is" "\<forall>i < n. ce_accept env data (a\<lparr>ua_Port := ua_Port a + is ! i\<rparr>)" by blast
    have "out = take (Suc n) (punch_targets data a (i # is))" "ok = ok'"
      using Cons.prems True r n(2) by (auto simp: WriteToUDP_def a punch_targets_def)
    moreover have "\<forall>j < Suc n. ce_accept env data (a\<lparr>ua_Port := ua_Port a + (i # is) ! j\<rparr>)"
      using True n(4) by (auto simp: less_Suc_eq_0_disj)
    ultimately show ?thesis using n(1,3) by (intro exI [of _ "Suc n"]) simp
  qed
qed

text \<open>
  C38. Hole punching towards a symmetric NAT: the probes go to consecutive ports starting a hundred
  below the last known one, at most three hundred, all of them valid; a known port below a
  hundred makes the first probe fail and nothing is sent at all, although the ports from zero up
  are in range.
\<close>

theorem symmetric_punch_ports:
  assumes "udp_ok (ce_accept env)" and "ps_DstNatType s = TypeSymmetric" and "GetDstAddr s = Some a"
  shows "\<exists>out ok. punch env data s = Some (out, ok) \<and>
    out = take (length out) (punch_targets data a [-100..199]) \<and> (ok \<longleftrightarrow> length out = 300) \<and>
    (\<forall>(d, b)\<in>set out. 0 \<le> ua_Port b \<and> ua_Port b \<le> 65535) \<and>
    (ua_Port a < 100 \<longrightarrow> out = []) \<and> (65336 < ua_Port a \<longrightarrow> \<not> ok)"
proof -
  define ws where "ws = [-100..199::int]"
  have ws: "length ws = 300" unfolding ws_def length_upto by simp
  have wi: "ws ! i = int i - 100" if "i < 300" for i
    unfolding ws_def using that nth_upto [of "-100" i 199] by linarith
  obtain out ok where r: "punch_ports env data (ua_IP a) (ua_Port a) ws = (out, ok)" by force
  obtain n where n: "n \<le> 300" "out = take n (punch_targets data a ws)" "ok \<longleftrightarrow> n = 300"
    "\<forall>i < n. ce_accept env data (a\<lparr>ua_Port := ua_Port a + ws ! i\<rparr>)"
    using punch_ports_prefix [OF r] ws by auto
  have len: "length out = n" using n(1,2) ws by (simp add: punch_targets_def)
  have ok: "0 \<le> ua_Port a + ws ! i \<and> ua_Port a + ws ! i \<le> 65535" if "i < n" for i
    using assms(1) n(4) that unfolding udp_ok_def by fastforce
  have "\<forall>(d, b)\<in>set out. 0 \<le> ua_Port b \<and> ua_Port b \<le> 65535"
    using ok n(1) ws unfolding n(2) by (auto simp: in_set_conv_nth punch_targets_def split: prod.splits)
  moreover have "ua_Port a < 100 \<longrightarrow> n = 0" using ok [of 0] wi [of 0] by (cases "n = 0") auto
  moreover have "65336 < ua_Port a \<longrightarrow> n \<noteq> 300" using ok [of 299] wi [of 299] by auto
  moreover have "punch env data s = Some (out, ok)"
    using assms(2,3) r unfolding ws_def punch_def by (simp add: nat_type_defs del: upto_rec_numeral)
  ultimately show ?thesis using n(2,3) len unfolding ws_def by (simp del: upto_rec_numeral)
qed

theorem symmetric_punch_ports_witness:
  "\<exists>out ok. punch (demo_env 100) [7] \<lparr>ps_DstNatType = TypeSymmetric, ps_dstAddr = Some \<lparr>ua_IP = [192, 0, 2, 9], ua_Port = 40\<rparr>,
      ps_LastSeen = 0, ps_Established = False\<rparr> = Some (out, ok) \<and> out = [] \<and> \<not> ok"
  using symmetric_punch_ports [of "demo_env 100" "\<lparr>ps_DstNatType = TypeSymmetric, ps_dstAddr = Some \<lparr>ua_IP = [192, 0, 2, 9], ua_Port = 40\<rparr>,
      ps_LastSeen = 0, ps_Established = False\<rparr>" "\<lparr>ua_IP = [192, 0, 2, 9], ua_Port = 40\<rparr>" "[7]"]
  by (auto simp: udp_ok_def GetDstAddr_def)

section \<open>The life of a direct tunnel\<close>

text \<open>
  The contract of the tunnel table, for one peer: its data is relayed by the server, or a tunnel
  to it is being punched, or it is reached directly, with the address and the time last seen.
\<close>

datatype link = ViaServer | Punching UDPAddr int | Direct UDPAddr int

fun hear_ping :: "UDPAddr \<Rightarrow> link \<Rightarrow> link" where
  "hear_ping a ViaServer = ViaServer"
| "hear_ping a (Punching _ seen) = Punching a seen"
| "hear_ping a (Direct _ seen) = Direct a seen"

fun hear_pong :: "int \<Rightarrow> UDPAddr \<Rightarrow> link \<Rightarrow> link" where
  "hear_pong now a ViaServer = ViaServer"
| "hear_pong now a _ = Direct a now"

fun expire :: "int \<Rightarrow> link \<Rightarrow> link" where
  "expire now ViaServer = ViaServer"
| "expire now (Punching a seen) = (if now - seen > 10 then ViaServer else Punching a seen)"
| "expire now (Direct a seen) = (if now - seen > 10 then ViaServer else Direct a seen)"

fun link_target :: "UDPAddr option \<Rightarrow> link \<Rightarrow> UDPAddr option" where
  "link_target server (Direct a _) = Some a"
| "link_target server _ = server"

definition link_of :: "(ip4, P2PStatus) gomap \<Rightarrow> ip4 \<Rightarrow> link" where
  "link_of peers v =
     (case gm_get peers v of
        None \<Rightarrow> ViaServer
      | Some s \<Rightarrow> (case GetDstAddr s of
                     None \<Rightarrow> ViaServer
                   | Some a \<Rightarrow> if ps_Established s then Direct a (ps_LastSeen s) else Punching a (ps_LastSeen s)))"

lemma link_of_cong: "gm_get peers v = gm_get peers' v \<Longrightarrow> link_of peers v = link_of peers' v"
  by (simp add: link_of_def)

lemma visit_peers_router:
  "visit_peers env ping peers t = Some (t', out) \<Longrightarrow> gm_wf (p2pRouter t) \<Longrightarrow>
     gm_get (p2pRouter t') v =
       (if \<exists>s. (v, s) \<in> set peers \<and> peer_IsTimeout (ce_now env) 10 s then None else gm_get (p2pRouter t) v)"
proof (induction env ping peers t arbitrary: t' out rule: visit_peers.induct)
  case (2 env ping k s peers t)
  show ?case
  proof (cases "peer_IsTimeout (ce_now env) 10 s")
    case True
    have "gm_get (p2pRouter t') v =
        (if \<exists>s. (v, s) \<in> set peers \<and> peer_IsTimeout (ce_now env) 10 s then None else gm_get (p2pRouter (removeP2P k t)) v)"
      using True 2(3,4) by (intro 2(1) [OF True, of t' out]) (simp_all add: removeP2P_def Let_def)
    then show ?thesis using True 2(4) by (auto simp: removeP2P_def Let_def)
  next
    case False
    then show ?thesis using 2 by (auto split: option.splits if_splits)
  qed
qed simp

lemma handleP2P_link:
  assumes "handleP2P env t = Some (t', out)" "gm_wf (p2pRouter t)"
  shows "link_of (p2pRouter t') v = expire (ce_now env) (link_of (p2pRouter t) v)"
proof -
  obtain ping ds where "visit_peers env ping (p2pRouter t) t = Some (t', ds)"
    using assms(1) by (auto simp: handleP2P_def Let_def split: option.splits)
  from visit_peers_router [OF this assms(2), of v] show ?thesis
    unfolding gm_get_Some_iff [OF assms(2), symmetric]
    by (cases "gm_get (p2pRouter t) v") (auto simp: link_of_def peer_IsTimeout_def split: option.split)
qed

lemma recv_data_router: "recv_data env stop addr gp t = Some (t', out, r) \<Longrightarrow> p2pRouter t' = p2pRouter t"
  unfolding recv_data_def Let_def
  by (auto split: option.split_asm prod.split_asm handled.split_asm selected.split_asm)

lemma recv_dns_router: "recv_dns gp t = Some (t', out, r) \<Longrightarrow> p2pRouter t' = p2pRouter t"
  by (auto simp: recv_dns_def split: option.split_asm sum.split_asm)

lemma recv_ping_router:
  "recv_ping env addr gp t = Some (t', out, r) \<Longrightarrow>
     p2pRouter t' = (case gm_get (p2pRouter t) (gp_src gp) of None \<Rightarrow> p2pRouter t
       | Some s \<Rightarrow> gm_set (gp_src gp) (SetDstAddr addr s) (p2pRouter t))"
  unfolding recv_ping_def Let_def peer_write_def
  by (cases "gm_get (p2pRouter t) (gp_src gp)") (auto split: option.split_asm)

lemma recv_pong_router:
  "recv_pong env stop addr gp t = Some (t', out, r) \<Longrightarrow>
     p2pRouter t' = (case gm_get (p2pRouter t) (gp_src gp) of None \<Rightarrow> p2pRouter t
       | Some s \<Rightarrow> gm_set (gp_src gp) (peer_UpdateLastSeen (ce_now env) True (SetDstAddr addr s)) (p2pRouter t))"
  unfolding recv_pong_def Let_def peer_write_def
  by (cases "gm_get (p2pRouter t) (gp_src gp)") (auto split: prod.split_asm selected.split_asm)

lemma recv_pong_total: "recv_pong env stop addr gp t \<noteq> None"
  by (simp add: recv_pong_def Let_def split: option.split prod.split selected.split)

lemma router_link:
  assumes "p2pRouter t' = (case gm_get (p2pRouter t) w of None \<Rightarrow> p2pRouter t | Some s \<Rightarrow> gm_set w (f s) (p2pRouter t))"
    and "peers_ok (p2pRouter t)" and "v = w"
    and "\<And>s a. ps_dstAddr s = Some a \<Longrightarrow> link_of [(w, f s)] w = g (link_of [(w, s)] w)" "g ViaServer = ViaServer"
  shows "link_of (p2pRouter t') v = g (link_of (p2pRouter t) v)"
proof (cases "gm_get (p2pRouter t) w")
  case None
  then show ?thesis using assms(1,3,5) by (simp add: link_of_def)
next
  case (Some s)
  then obtain a where "ps_dstAddr s = Some a" using assms(2) by (auto simp: peers_ok_def)
  from assms(4) [OF this] show ?thesis using Some assms(1,3) by (simp add: link_of_def)
qed

lemma router_link_other:
  "p2pRouter t' = (case gm_get (p2pRouter t) w of None \<Rightarrow> p2pRouter t | Some s \<Rightarrow> gm_set w (f s) (p2pRouter t)) \<Longrightarrow>
     v \<noteq> w \<Longrightarrow> link_of (p2pRouter t') v = link_of (p2pRouter t) v"
  by (cases "gm_get (p2pRouter t) w") (simp_all add: link_of_def)

lemma recv_ping_link:
  "recv_ping env addr gp t = Some (t', out, r) \<Longrightarrow> peers_ok (p2pRouter t) \<Longrightarrow>
     link_of (p2pRouter t') v = (if v = gp_src gp then hear_ping addr (link_of (p2pRouter t) v) else link_of (p2pRouter t) v)"
  using router_link_other [OF recv_ping_router, of env addr gp t t' out r v]
    router_link [OF recv_ping_router, of env addr gp t t' out r v "hear_ping addr"]
  by (auto simp: link_of_def GetDstAddr_def SetDstAddr_def)

lemma recv_pong_link:
  "recv_pong env stop addr gp t = Some (t', out, r) \<Longrightarrow> peers_ok (p2pRouter t) \<Longrightarrow>
     link_of (p2pRouter t') v =
       (if v = gp_src gp then hear_pong (ce_now env) addr (link_of (p2pRouter t) v) else link_of (p2pRouter t) v)"
  using router_link_other [OF recv_pong_router, of env stop addr gp t t' out r v]
    router_link [OF recv_pong_router, of env stop addr gp t t' out r v "hear_pong (ce_now env) addr"]
  by (auto simp: link_of_def GetDstAddr_def SetDstAddr_def peer_UpdateLastSeen_def)

lemma transmit_link:
  assumes "peers_ok (p2pRouter t)"
  shows "snd (transmit env v data t) =
    udp_effects (fst (WriteToUDP (ce_accept env) data (link_target (serverAddr t) (link_of (p2pRouter t) v))))"
proof (cases "gm_get (p2pRouter t) v")
  case None
  then show ?thesis by (simp add: transmit_def link_of_def split: prod.split option.split)
next
  case (Some s)
  then obtain a where "ps_dstAddr s = Some a" using assms by (auto simp: peers_ok_def)
  with Some show ?thesis by (simp add: transmit_def link_of_def GetDstAddr_def split: prod.split option.split)
qed

text \<open>What a datagram does to the link with its sender, by its type.\<close>

definition hear :: "int \<Rightarrow> UDPAddr \<Rightarrow> GamePacket \<Rightarrow> link \<Rightarrow> link" where
  "hear now addr gp =
     (if clear_flag (PType gp) = TypePing then hear_ping addr
      else if clear_flag (PType gp) = TypePong then hear_pong now addr else id)"

lemma packetRecv_link:
  assumes "packetRecv env stop content addr t = Some (t', out, r)" "peers_ok (p2pRouter t)"
  shows "link_of (p2pRouter t') v =
    (case ParsePacket (ce_raw env) content True None gp_empty of
       (gp, None) \<Rightarrow> if v = gp_src gp then hear (ce_now env) addr gp (link_of (p2pRouter t) v) else link_of (p2pRouter t) v
     | (gp, Some err) \<Rightarrow> link_of (p2pRouter t) v)"
proof -
  let ?t = "count_received (length content) t"
  have c: "p2pRouter ?t = p2pRouter t" by (simp add: count_received_def)
  have types: "TypePing \<noteq> TypeData" "TypePong \<noteq> TypeData" "TypePong \<noteq> TypePing" "TypeDnsResponse \<noteq> TypePing" "TypeDnsResponse \<noteq> TypePong"
    by (simp_all add: type_defs)
  obtain gp e where p: "ParsePacket (ce_raw env) content True None gp_empty = (gp, e)" by force
  let ?ty = "clear_flag (PType gp)"
  consider "e \<noteq> None" | "e = None" "?ty = TypePing" | "e = None" "?ty = TypePong" | "e = None" "?ty \<noteq> TypePing" "?ty \<noteq> TypePong" by blast
  then show ?thesis
  proof cases
    case 2
    then have "recv_ping env addr gp ?t = Some (t', out, r)"
      using assms(1) p types by (simp add: packetRecv_def Let_def)
    then show ?thesis using recv_ping_link [of env addr gp ?t] assms(2) p 2 by (simp add: c hear_def)
  next
    case 3
    then have "recv_pong env stop addr gp ?t = Some (t', out, r)"
      using assms(1) p types by (simp add: packetRecv_def Let_def)
    then show ?thesis using recv_pong_link [of env stop addr gp ?t] assms(2) p 3 types by (simp add: c hear_def)
  next
    case 4
    then have "p2pRouter t' = p2pRouter t"
      using assms(1) p c recv_data_router [of env stop addr gp ?t t'] recv_dns_router [of gp ?t t']
      by (auto simp: packetRecv_def Let_def split: if_splits)
    then show ?thesis using p 4 by (simp add: hear_def)
  qed (use assms(1) p c in \<open>auto simp: packetRecv_def Let_def\<close>)
qed


definition demo_peer_addr :: UDPAddr where
  "demo_peer_addr = \<lparr>ua_IP = [192, 0, 2, 9], ua_Port = 4000\<rparr>"

definition demo_linked :: "nat ClientTransport" where
  "demo_linked = addP2P 100 (IP4 10 0 6 3) demo_peer_addr TypeCone
     ((NewTransport ([1], [1]))\<lparr>localIp := [10, 0, 6, 2], serverAddr := Some demo_server_addr\<rparr>)"

lemma demo_linked_sel:
  "p2pRouter demo_linked = [(IP4 10 0 6 3, \<lparr>ps_DstNatType = TypeCone, ps_dstAddr = Some demo_peer_addr, ps_LastSeen = 100, ps_Established = False\<rparr>)]"
  "link_of (p2pRouter demo_linked) (IP4 10 0 6 3) = Punching demo_peer_addr 100" "peers_ok (p2pRouter demo_linked)"
  by (simp_all add: demo_linked_def addP2P_def NewTransport_def SetDstAddr_def link_of_def GetDstAddr_def peers_ok_def Let_def gm_set_fresh gm_wf_def
      split: if_splits)


section \<open>Data under a session key\<close>

text \<open>A packet for another client: at least a header, not a broadcast, not for the virtual name server.\<close>

definition for_peer :: "'h ClientTransport \<Rightarrow> bytes \<Rightarrow> ip4 \<Rightarrow> bool" where
  "for_peer t p v \<longleftrightarrow> 20 \<le> length p \<and> dns_query t v p = Some False \<and> p ! 19 \<noteq> 255 \<and> to_ip4 (drop 16 p) = v"

lemma Reset_empty [simp]: "Reset src dst ty p gp_empty = NewGamePacket src dst ty p"
  by (simp add: NewGamePacket_def)

lemma transmit_server: "serverAddr (fst (transmit env dst data t)) = serverAddr t"
  by (auto simp: transmit_def Let_def split: prod.split option.split)

lemma send_packet_sealed:
  assumes "for_peer t p v" "GetSession (noiseMgr t) v = Some s" "IsReady (ns_Cipher s)" "Sender (ns_Cipher s) = Some cs"
    and "localIp t = ip4_bytes me" "peers_ok (p2pRouter t)"
    and "EncodePacket (ce_lz4 env) (ce_probe env) (ce_cbuf env) (ce_frame env) False (EnableCompress (ce_cfg env)) (Some cs) (data_packet me v p) =
      (Some w, g, Some cs')"
  shows "\<exists>t'. send_packet env stop p t =
      Some (t', udp_effects (fst (WriteToUDP (ce_accept env) w (link_target (serverAddr t) (link_of (p2pRouter t) v)))), PumpContinue) \<and>
    noiseMgr t' = session_write v (s\<lparr>lastSeen := ce_now env, ns_Cipher := (ns_Cipher s)\<lparr>Sender := Some cs'\<rparr>\<rparr>) (noiseMgr t) \<and>
    core (t'\<lparr>noiseMgr := noiseMgr t\<rparr>) = core t \<and> serverAddr t' = serverAddr t"
proof -
  define t1 where "t1 = t\<lparr>noiseMgr := session_write v (s\<lparr>lastSeen := ce_now env, ns_Cipher := (ns_Cipher s)\<lparr>Sender := Some cs'\<rparr>\<rparr>) (noiseMgr t)\<rparr>"
  obtain t' out where t': "transmit env v w t1 = (t', out)" by force
  have out: "out = udp_effects (fst (WriteToUDP (ce_accept env) w (link_target (serverAddr t) (link_of (p2pRouter t) v))))"
    using transmit_link [of t1 env v w] assms(6) t' by (simp add: t1_def)
  have "core t' = core t1" using core_transmit [of env v w t1] t' by simp
  moreover have "send_packet env stop p t = Some (t', out, PumpContinue)"
    using assms(1-5,7) t' unfolding t1_def
    by (simp add: send_packet_def for_peer_def Let_def UpdateLastSeen_def To4_def)
  moreover have "serverAddr t' = serverAddr t" using transmit_server [of env v w t1] t' by (simp add: t1_def)
  ultimately show ?thesis using out by (auto simp: core_def t1_def)
qed

lemma EncodePacket_data:
  assumes "int (length p) \<le> MaxPayloadSize"
  shows "\<exists>w g. EncodePacket z pb cb b False compress (Some cs) (data_packet me v p) = (Some w, g, Some (snd (GetNonce cs)))"
proof -
  have "int (length (Payload (compressed_packet z pb cb compress (data_packet me v p)))) \<le> MaxPayloadSize"
    using assms compressed_packet_length [of z pb cb compress "data_packet me v p"] by simp
  then show ?thesis using assms by (simp add: EncodePacket_encode Let_def encode_sealed)
qed

lemma unauthentic_ignored:
  assumes "GetSession (noiseMgr t) v = Some s" "IsReady (ns_Cipher s)" "Recver (ns_Cipher s) = Some rs"
    and "ParsePacket (ce_raw env) content True None gp_empty = (gp, None)" "clear_flag (PType gp) = TypeData" "gp_src gp = v" "0 < Length gp"
    and "Decrypt rs (take NonceLength (drop 9 content)) (drop HeaderLength content) (take (HeaderLength - NonceLength) content) = Inl e"
  shows "packetRecv env stop content addr t = Some (count_received (length content) t, [], PumpContinue)"
proof -
  obtain raw where raw: "RawData gp = Some raw" "sl_data raw = content" "HeaderLength \<le> length content"
    using ParsePacket_raw [OF assms(4)] by blast
  have same: "noiseMgr (count_received n t) = noiseMgr t" "(count_received n t)\<lparr>noiseMgr := noiseMgr t\<rparr> = count_received n t" for n
    by (simp_all add: count_received_def)
  have "HandleNoisePacket (ce_noise env) (ce_rnd env) (ce_now env) v (Payload gp) (noiseMgr t) = Some (noiseMgr t, Handled (Some s) None)"
    using assms(1,2) by (simp add: HandleNoisePacket_def)
  moreover have "\<exists>g'. DecryptParse (ce_lz4 env) (Some rs) gp = Some (g', Some e)"
    using raw assms(7,8) by (simp add: DecryptParse_def Let_def)
  ultimately show ?thesis
    using assms(3-6) by (auto simp: packetRecv_def recv_data_def Let_def same)
qed

text \<open>
  C36. A client keeps a session its peer has lost. While a session is ready, every data packet in
  the peer's name that does not open under its key is dropped without an answer and changes
  nothing, so forged packets do no harm, and neither does the first handshake message of a peer
  that was restarted: it is never answered. Each packet the client itself sends to the peer
  renews the session, so the sweep does not remove it as long as the client keeps sending.
\<close>

theorem stale_session_lockout:
  assumes "running W t" and "GetSession (noiseMgr t) v = Some s" and "IsReady (ns_Cipher s)" and "Recver (ns_Cipher s) = Some rs"
    and "for_peer t p v" and "int (length p) \<le> MaxPayloadSize" and "tick \<le> ce_now env + 10"
  shows "\<exists>t' out s'. send_packet env stop p t = Some (t', out, PumpContinue) \<and>
    GetSession (CheckSession [tick] (noiseMgr t')) v = Some s' \<and> IsReady (ns_Cipher s') \<and> Recver (ns_Cipher s') = Some rs \<and>
    (\<forall>env' stop' content addr gp e.
       ParsePacket (ce_raw env') content True None gp_empty = (gp, None) \<longrightarrow> clear_flag (PType gp) = TypeData \<longrightarrow>
       gp_src gp = v \<longrightarrow> 0 < Length gp \<longrightarrow>
       Decrypt rs (take NonceLength (drop 9 content)) (drop HeaderLength content) (take (HeaderLength - NonceLength) content) = Inl e \<longrightarrow>
       packetRecv env' stop' content addr (t'\<lparr>noiseMgr := CheckSession [tick] (noiseMgr t')\<rparr>) =
         Some (count_received (length content) (t'\<lparr>noiseMgr := CheckSession [tick] (noiseMgr t')\<rparr>), [], PumpContinue))"
proof -
  have wf: "gm_wf (sessions (noiseMgr t))" and po: "peers_ok (p2pRouter t)"
    using assms(1) by (auto simp: running_defs noise_inv_wf)
  obtain me where me: "localIp t = ip4_bytes me"
    using assms(1) ip4_bytes_to_ip4 [of "localIp t"] by (metis running_def client_up_def)
  obtain cs where cs: "Sender (ns_Cipher s) = Some cs"
    using running_session(1) [OF assms(1,2)] assms(3) by (auto simp: session_inv_def)
  obtain w g where "EncodePacket (ce_lz4 env) (ce_probe env) (ce_cbuf env) (ce_frame env) False (EnableCompress (ce_cfg env)) (Some cs)
      (data_packet me v p) = (Some w, g, Some (snd (GetNonce cs)))"
    using EncodePacket_data [OF assms(6)] by metis
  from send_packet_sealed [OF assms(5,2,3) cs me po this, of stop] obtain t' out where
    t': "send_packet env stop p t = Some (t', out, PumpContinue)" and
    m: "noiseMgr t' = session_write v (s\<lparr>lastSeen := ce_now env, ns_Cipher := (ns_Cipher s)\<lparr>Sender := Some (snd (GetNonce cs))\<rparr>\<rparr>) (noiseMgr t)"
    by blast
  let ?s = "s\<lparr>lastSeen := ce_now env, ns_Cipher := (ns_Cipher s)\<lparr>Sender := Some (snd (GetNonce cs))\<rparr>\<rparr>"
  have g: "GetSession (CheckSession [tick] (noiseMgr t')) v = Some ?s"
    using wf assms(7) by (simp add: m noise_sweep.get_sweep isTimeout_def)
  have s: "IsReady (ns_Cipher ?s)" "Recver (ns_Cipher ?s) = Some rs" using assms(3,4) by (simp_all add: IsReady_def)
  note ignored = unauthentic_ignored [where t = "t'\<lparr>noiseMgr := CheckSession [tick] (noiseMgr t')\<rparr>", simplified, OF g [simplified] s]
  show ?thesis
    using t' g s ignored by (intro exI [of _ t'] exI [of _ out] exI [of _ ?s] conjI) auto
qed

definition demo_session :: "byte \<Rightarrow> nat NoiseSession" where
  "demo_session peer = (NewNoiseSession (IP4 10 0 6 peer) False None 100)
     \<lparr>ns_Cipher := \<lparr>Recver = Some \<lparr>cs_aead = zero_aead, cs_nonce = 0\<rparr>, Sender = Some \<lparr>cs_aead = zero_aead, cs_nonce = 0\<rparr>, c_status = CipherReady\<rparr>,
      pendingClosed := True, pendingChan := \<lparr>ch_cap = 24, ch_items = [], ch_closed = True\<rparr>\<rparr>"

definition demo_ready :: "byte \<Rightarrow> byte \<Rightarrow> nat ClientTransport" where
  "demo_ready me peer = (NewTransport ([1], [1]))
     \<lparr>localIp := [10, 0, 6, me], serverAddr := Some demo_server_addr,
      ct_device := Some (tun_state (str ''pc'') (str ''.et'') [10, 0, 6, me]),
      noiseMgr := (demo_client me)\<lparr>sessions := [(IP4 10 0 6 peer, demo_session peer)]\<rparr>\<rparr>"

lemma demo_ready_sel [simp]:
  "GetSession (noiseMgr (demo_ready me peer)) (IP4 10 0 6 peer) = Some (demo_session peer)" "localIp (demo_ready me peer) = [10, 0, 6, me]"
  "IsReady (ns_Cipher (demo_session peer))" "Sender (ns_Cipher (demo_session peer)) = Some \<lparr>cs_aead = zero_aead, cs_nonce = 0\<rparr>"
  "Recver (ns_Cipher (demo_session peer)) = Some \<lparr>cs_aead = zero_aead, cs_nonce = 0\<rparr>"
  by (simp_all add: demo_ready_def GetSession_def demo_session_def IsReady_def)

lemma demo_ready_running: "running (\<lambda>_. True) (demo_ready me peer)"
  by (auto simp: running_defs demo_ready_def noise_inv_def GetSession_def gm_wf_def session_inv_def demo_session_def IsReady_def
      hs_ok_def NewNoiseSession_def peers_ok_def NewTransport_def make_chan_def chan_open_def split: if_splits)

definition demo_udp :: bytes where
  "demo_udp = [69, 0, 0, 20, 0, 0, 0, 0, 64, 6, 0, 0, 10, 0, 6, 2, 10, 0, 6, 3]"

theorem stale_session_lockout_witness:
  "\<exists>t' out. send_packet (demo_env 105) False demo_udp (demo_ready 2 3) = Some (t', out, PumpContinue) \<and>
     packetRecv (demo_env 116) False (frame TypeData (IP4 10 0 6 2) 96 (IP4 10 0 6 3) (replicate 8 0) (replicate 96 1)) demo_server_addr
       (t'\<lparr>noiseMgr := CheckSession [115] (noiseMgr t')\<rparr>) =
     Some (count_received 117 (t'\<lparr>noiseMgr := CheckSession [115] (noiseMgr t')\<rparr>), [], PumpContinue)"
proof -
  let ?fr = "frame TypeData (IP4 10 0 6 2) 96 (IP4 10 0 6 3) (replicate 8 0) (replicate 96 1)"
  obtain cap where p: "ParsePacket (ce_raw (demo_env 116)) ?fr True None gp_empty =
      (gp_empty\<lparr>PType := TypeData, gp_dst := IP4 10 0 6 2, gp_src := IP4 10 0 6 3, Length := 96, Payload := replicate 96 1,
         RawData := Some \<lparr>sl_data = ?fr, sl_cap = cap\<rparr>\<rparr>, None)"
    using ParsePacket_frame [of "replicate 8 0" "replicate 96 1" TypeData 96 "ce_raw (demo_env 116)" "IP4 10 0 6 2" "IP4 10 0 6 3" True gp_empty]
    by (auto simp: validPayloadLength.simps)
  have d: "\<exists>e. Decrypt \<lparr>cs_aead = zero_aead, cs_nonce = 0\<rparr> (take NonceLength (drop 9 ?fr)) (drop HeaderLength ?fr) (take (HeaderLength - NonceLength) ?fr) = Inl e"
    by (simp add: Decrypt_def zero_aead_def HeaderLength_eq)
  have fp: "for_peer (demo_ready 2 3) demo_udp (IP4 10 0 6 3)"
    by (simp add: for_peer_def dns_query_eq demo_udp_def to_ip4_def)
  have "int (length demo_udp) \<le> MaxPayloadSize" by (simp add: demo_udp_def MaxPayloadSize_eq)
  from stale_session_lockout [OF demo_ready_running demo_ready_sel(1,3,5) fp this, of 115 "demo_env 105" False]
  show ?thesis using p d by fastforce
qed

end
