(* ===== verification/Hub.thy ===== *)
theory Hub
  imports Packet GoChan DnsUtil Tunnel "HOL-Library.Multiset"
begin

text \<open>
  The server's hub: \<^verbatim>\<open>server.go\<close> (its data), \<^verbatim>\<open>server_hub.go\<close> (address pool,
  routes, retention) and the name table of \<^verbatim>\<open>server_dns.go\<close>. Clients are shared by
  pointer, so they live in a store (\<open>hub_heap\<close>) and tables hold references into it; the
  reference of a client is its position in the order of creation. Mutexes make each operation
  here atomic, so an operation is a function on the whole hub. A nil \<^verbatim>\<open>net.IP\<close> is the
  empty list. Times are Unix nanoseconds.
\<close>

section \<open>Data (server.go)\<close>

record packet =
  pk_data :: bytes
  pk_broadcast :: bool
  pk_dstAddr :: addrport

record Client =
  natType :: byte
  controlChan :: "GamePacket chan"
  dataAddr :: addrport
  packetChan :: "packet chan"
  virtualIp :: netip
  hostname :: gostring
  noisePublicKey :: bytes
  clientID :: bytes

type_synonym cref = nat

record transferPacket =
  tp_gp :: GamePacket
  tp_srcAddr :: addrport

record routerSnapshot =
  clientMap :: "(ip4, cref) gomap"
  clientSlice :: "cref list"

record offlineClient =
  oc_virtualIp :: netip
  oc_hostname :: gostring
  oc_expiry :: int

datatype WSHandler = handle_Handshake | handle_NoiseHandshake | handle_P2PEstablished | handle_P2PClosed

record Hub =
  hub_heap :: "Client list"
  hub_controlChan :: "GamePacket chan"
  hub_transferChan :: "transferPacket chan"
  hub_packetChan :: "packet chan"
  hub_p2pTaskChan :: "P2PTask chan"
  hub_router :: routerSnapshot
  hub_tm :: TunnelManager
  hub_dnsMap :: "(gostring, netip) gomap"
  hub_freeIps :: "byte list"
  hub_retentionMap :: "(bytes, offlineClient) gomap"
  hub_Subnet :: IPNet
  hub_wsHandlers :: "(byte, WSHandler) gomap"

abbreviation client :: "Hub \<Rightarrow> cref \<Rightarrow> Client" where
  "client h c \<equiv> hub_heap h ! c"

text \<open>A write to the fields of a client.\<close>

definition set_client :: "cref \<Rightarrow> Client \<Rightarrow> Hub \<Rightarrow> Hub" where
  "set_client c cl h = h\<lparr>hub_heap := (hub_heap h)[c := cl]\<rparr>"

definition newClient :: "addrport \<Rightarrow> netip \<Rightarrow> Client" where
  "newClient addr ip =
     \<lparr>natType = 0, controlChan = make_chan 16, dataAddr = addr, packetChan = make_chan 128,
      virtualIp = ip, hostname = [], noisePublicKey = replicate 32 0, clientID = replicate 16 0\<rparr>"

section \<open>Creation (server_hub.go)\<close>

definition subnet :: IPNet where
  "subnet = \<lparr>net_IP = net_IPv4 10 0 6 1, net_Mask = [255, 255, 255, 0]\<rparr>"

text \<open>\<^verbatim>\<open>for i := 254; i >= 2; i--\<close>\<close>

fun free_from :: "nat \<Rightarrow> byte list" where
  "free_from i = (if 2 \<le> i then of_nat i # free_from (i - 1) else [])"

declare free_from.simps [simp del]

definition RegisterWSHandler :: "byte \<Rightarrow> WSHandler \<Rightarrow> Hub \<Rightarrow> Hub" where
  "RegisterWSHandler pType handler h = h\<lparr>hub_wsHandlers := gm_set pType handler (hub_wsHandlers h)\<rparr>"

definition registerDefaultWSHandlers :: "Hub \<Rightarrow> Hub" where
  "registerDefaultWSHandlers h =
     (let h = RegisterWSHandler TypeHandshake handle_Handshake h;
          h = RegisterWSHandler TypeNoiseHandshake handle_NoiseHandshake h;
          h = RegisterWSHandler TypeP2PEstablished handle_P2PEstablished h
      in RegisterWSHandler TypeP2PClosed handle_P2PClosed h)"

definition NewHub :: Hub where
  "NewHub = registerDefaultWSHandlers
     \<lparr>hub_heap = [], hub_controlChan = make_chan 16, hub_transferChan = make_chan 128,
      hub_packetChan = make_chan 128, hub_p2pTaskChan = make_chan 32,
      hub_router = \<lparr>clientMap = [], clientSlice = []\<rparr>, hub_tm = NewTunnelManager, hub_dnsMap = [],
      hub_freeIps = free_from 254, hub_retentionMap = [], hub_Subnet = subnet, hub_wsHandlers = []\<rparr>"

section \<open>Routes (server_hub.go)\<close>

text \<open>The copy loop builds the new map and the new slice together.\<close>

fun copy_routes :: "(ip4, cref) gomap \<Rightarrow> routerSnapshot \<Rightarrow> routerSnapshot" where
  "copy_routes [] new = new"
| "copy_routes ((k, v) # old) new =
     copy_routes old \<lparr>clientMap = gm_set k v (clientMap new), clientSlice = clientSlice new @ [v]\<rparr>"

fun copy_routes_except :: "ip4 \<Rightarrow> (ip4, cref) gomap \<Rightarrow> routerSnapshot \<Rightarrow> routerSnapshot" where
  "copy_routes_except vIp [] new = new"
| "copy_routes_except vIp ((k, v) # old) new =
     copy_routes_except vIp old
       (if k \<noteq> vIp then \<lparr>clientMap = gm_set k v (clientMap new), clientSlice = clientSlice new @ [v]\<rparr> else new)"

abbreviation no_routes :: routerSnapshot where
  "no_routes \<equiv> \<lparr>clientMap = [], clientSlice = []\<rparr>"

definition addClient :: "cref \<Rightarrow> Hub \<Rightarrow> Hub" where
  "addClient c h =
     (let new = copy_routes (clientMap (hub_router h)) no_routes
      in h\<lparr>hub_router := \<lparr>clientMap = gm_set (IpToKey (virtualIp (client h c))) c (clientMap new),
                            clientSlice = clientSlice new @ [c]\<rparr>\<rparr>)"

definition removeClient :: "cref \<Rightarrow> Hub \<Rightarrow> Hub" where
  "removeClient c h =
     (let vIp = IpToKey (virtualIp (client h c))
      in case gm_get (clientMap (hub_router h)) vIp of
           None \<Rightarrow> h
         | Some _ \<Rightarrow> h\<lparr>hub_router := copy_routes_except vIp (clientMap (hub_router h)) no_routes,
                        hub_tm := RemoveA vIp (hub_tm h)\<rparr>)"

section \<open>The address pool (server_hub.go)\<close>

text \<open>The end of the list is the top of the stack.\<close>

definition getIp :: "Hub \<Rightarrow> netip \<times> Hub" where
  "getIp h =
     (if hub_freeIps h = [] then ([], h)
      else let top = last (hub_freeIps h);
               net = (case To4 (net_IP (hub_Subnet h)) of Some v \<Rightarrow> v | None \<Rightarrow> [])
           in ((copy_at 0 4 net (replicate 4 0))[3 := top], h\<lparr>hub_freeIps := butlast (hub_freeIps h)\<rparr>))"

definition releaseIp :: "netip \<Rightarrow> Hub \<Rightarrow> Hub" where
  "releaseIp ip h = (case To4 ip of None \<Rightarrow> h | Some v4 \<Rightarrow> h\<lparr>hub_freeIps := hub_freeIps h @ [v4 ! 3]\<rparr>)"

section \<open>Names (server_dns.go)\<close>

definition addDns :: "gostring \<Rightarrow> netip \<Rightarrow> Hub \<Rightarrow> Hub" where
  "addDns name ip h = h\<lparr>hub_dnsMap := gm_set name ip (gm_copy (hub_dnsMap h))\<rparr>"

definition removeDns :: "gostring \<Rightarrow> Hub \<Rightarrow> Hub" where
  "removeDns name h = h\<lparr>hub_dnsMap := gm_copy_except name (hub_dnsMap h)\<rparr>"

text \<open>\<^verbatim>\<open>strings.Replace(s, old, "", 1)\<close> for a non-empty \<^verbatim>\<open>old\<close>: the first
  occurrence is cut out.\<close>

fun cut_first :: "gostring \<Rightarrow> gostring \<Rightarrow> gostring" where
  "cut_first old [] = []"
| "cut_first old (b # s) =
     (if take (length old) (b # s) = old then drop (length old) (b # s) else b # cut_first old s)"

definition getDns :: "gostring \<Rightarrow> gostring \<Rightarrow> Hub \<Rightarrow> netip" where
  "getDns name domain h =
     (case gm_get (hub_dnsMap h) (cut_first (domain @ str ''.'') name) of Some ip \<Rightarrow> ip | None \<Rightarrow> [])"

section \<open>Retention (server_hub.go)\<close>

fun clean_loop :: "int \<Rightarrow> (bytes \<times> offlineClient) list \<Rightarrow> Hub \<Rightarrow> Hub" where
  "clean_loop now [] h = h"
| "clean_loop now ((cid, oc) # rest) h =
     clean_loop now rest
       (if oc_expiry oc < now then
          (let h = releaseIp (oc_virtualIp oc) h;
               h = removeDns (oc_hostname oc) h
           in h\<lparr>hub_retentionMap := gm_delete cid (hub_retentionMap h)\<rparr>)
        else h)"

definition cleanRetention :: "int \<Rightarrow> Hub \<Rightarrow> Hub" where
  "cleanRetention now h = clean_loop now (hub_retentionMap h) h"

section \<open>Snapshots\<close>

lemma copy_routes_append:
  "gm_wf old \<Longrightarrow> fst ` set (clientMap new) \<inter> fst ` set old = {} \<Longrightarrow>
   copy_routes old new = \<lparr>clientMap = clientMap new @ old, clientSlice = clientSlice new @ map snd old\<rparr>"
proof (induction old new rule: copy_routes.induct)
  case (2 k v old new)
  then have "gm_set k v (clientMap new) = clientMap new @ [(k, v)]" by (intro gm_set_fresh) auto
  with 2 show ?case by (auto simp: gm_wf_def)
qed simp

lemma copy_routes_id: "gm_wf old \<Longrightarrow> copy_routes old no_routes = \<lparr>clientMap = old, clientSlice = map snd old\<rparr>"
  by (simp add: copy_routes_append)

lemma copy_routes_except_filter: "copy_routes_except vIp old new = copy_routes (gm_delete vIp old) new"
  by (induction vIp old new rule: copy_routes_except.induct) (auto simp: gm_delete_def)

lemma addClient_eq:
  "gm_wf (clientMap (hub_router h)) \<Longrightarrow> addClient c h =
     h\<lparr>hub_router := \<lparr>clientMap = gm_set (IpToKey (virtualIp (client h c))) c (clientMap (hub_router h)),
                       clientSlice = map snd (clientMap (hub_router h)) @ [c]\<rparr>\<rparr>"
  by (simp add: addClient_def copy_routes_id Let_def)

lemma removeClient_eq:
  "gm_wf (clientMap (hub_router h)) \<Longrightarrow> removeClient c h =
     (let vIp = IpToKey (virtualIp (client h c))
      in if gm_get (clientMap (hub_router h)) vIp = None then h
         else h\<lparr>hub_router := \<lparr>clientMap = gm_delete vIp (clientMap (hub_router h)),
                                clientSlice = map snd (gm_delete vIp (clientMap (hub_router h)))\<rparr>,
                hub_tm := RemoveA vIp (hub_tm h)\<rparr>)"
  by (auto simp: removeClient_def copy_routes_except_filter copy_routes_id Let_def split: option.splits)

lemma addDns_eq: "gm_wf (hub_dnsMap h) \<Longrightarrow> addDns name ip h = h\<lparr>hub_dnsMap := gm_set name ip (hub_dnsMap h)\<rparr>"
  by (simp add: addDns_def)

lemma removeDns_eq: "gm_wf (hub_dnsMap h) \<Longrightarrow> removeDns name h = h\<lparr>hub_dnsMap := gm_delete name (hub_dnsMap h)\<rparr>"
  by (simp add: removeDns_def)

text \<open>The route table and the name table are copy-on-write tables.\<close>

definition route :: "Hub \<Rightarrow> ip4 \<Rightarrow> cref option" where
  "route h k = gm_get (clientMap (hub_router h)) k"

interpretation names: cow_table "\<lambda>h. gm_get (hub_dnsMap h)" addDns removeDns "\<lambda>h. gm_wf (hub_dnsMap h)"
  by unfold_locales (auto simp: addDns_eq removeDns_eq)

lemma route_addClient:
  "gm_wf (clientMap (hub_router h)) \<Longrightarrow>
   route (addClient c h) k = (if k = IpToKey (virtualIp (client h c)) then Some c else route h k)"
  by (simp add: route_def addClient_eq)

lemma route_removeClient:
  "gm_wf (clientMap (hub_router h)) \<Longrightarrow>
   route (removeClient c h) k = (if k = IpToKey (virtualIp (client h c)) then None else route h k)"
  by (simp add: route_def removeClient_eq Let_def)

lemma wf_routes:
  "gm_wf (clientMap (hub_router h)) \<Longrightarrow> gm_wf (clientMap (hub_router (addClient c h)))"
  "gm_wf (clientMap (hub_router h)) \<Longrightarrow> gm_wf (clientMap (hub_router (removeClient c h)))"
  by (simp_all add: addClient_eq removeClient_eq Let_def)

section \<open>The pool as leases\<close>

text \<open>An address of the pool in the hub's network.\<close>

abbreviation host :: "byte \<Rightarrow> netip" where
  "host x \<equiv> [10, 0, 6, x]"

definition pool :: "byte set" where
  "pool = of_nat ` {2..254}"

lemma getIp_eq:
  "hub_Subnet h = subnet \<Longrightarrow> getIp h =
     (if hub_freeIps h = [] then ([], h)
      else (host (last (hub_freeIps h)), h\<lparr>hub_freeIps := butlast (hub_freeIps h)\<rparr>))"
  by (simp add: getIp_def subnet_def copy_at_def eval_nat_numeral Let_def)

lemma releaseIp_host: "releaseIp (host x) h = h\<lparr>hub_freeIps := hub_freeIps h @ [x]\<rparr>"
  by (simp add: releaseIp_def)

text \<open>
  The contract of a pool of leases: taking gives something that was free and is not free any
  more, returning makes it free, and nothing else changes.
\<close>

locale lease_pool =
  fixes free :: "'s \<Rightarrow> 'x multiset"
    and grab :: "'s \<Rightarrow> ('x \<times> 's) option"
    and give :: "'x \<Rightarrow> 's \<Rightarrow> 's"
    and ok :: "'s \<Rightarrow> bool"
  assumes grab_none: "ok s \<Longrightarrow> grab s = None \<longleftrightarrow> free s = {#}"
    and grab_some: "ok s \<Longrightarrow> grab s = Some (x, s') \<Longrightarrow> free s = add_mset x (free s') \<and> ok s'"
    and give_free: "ok s \<Longrightarrow> free (give x s) = add_mset x (free s)"
    and ok_give: "ok s \<Longrightarrow> ok (give x s)"
begin

text \<open>A run of requests (\<open>None\<close>) and returns (\<open>Some x\<close>), with the leases it hands out.\<close>

fun run :: "'x option list \<Rightarrow> 's \<Rightarrow> 'x list \<times> 's" where
  "run [] s = ([], s)"
| "run (None # ops) s =
     (case grab s of None \<Rightarrow> run ops s | Some (x, s') \<Rightarrow> (let (xs, t) = run ops s' in (x # xs, t)))"
| "run (Some x # ops) s = run ops (give x s)"

fun returned :: "'x option list \<Rightarrow> 'x multiset" where
  "returned [] = {#}"
| "returned (None # ops) = returned ops"
| "returned (Some x # ops) = add_mset x (returned ops)"

text \<open>Conservation: what was free or came back is what is free or was handed out.\<close>

lemma run_conserves:
  "ok s \<Longrightarrow> run ops s = (xs, t) \<Longrightarrow> ok t \<and> free s + returned ops = free t + mset xs"
proof (induction ops s arbitrary: xs rule: run.induct)
  case (2 ops s)
  then show ?case
    by (auto split: option.splits prod.splits dest: grab_some)
next
  case (3 x ops s)
  then show ?case by (auto simp: give_free ok_give)
qed simp

end

text \<open>A request of the pool as the handshake sees it: nil means that no address is left.\<close>

definition getIp_lease :: "Hub \<Rightarrow> (byte \<times> Hub) option" where
  "getIp_lease h = (case getIp h of (ip, h') \<Rightarrow> if ip = [] then None else Some (ip ! 3, h'))"

interpretation ips: lease_pool "\<lambda>h. mset (hub_freeIps h)" getIp_lease "\<lambda>x. releaseIp (host x)" "\<lambda>h. hub_Subnet h = subnet"
proof
  fix h h' :: Hub and x :: byte
  assume ok: "hub_Subnet h = subnet"
  show "getIp_lease h = None \<longleftrightarrow> mset (hub_freeIps h) = {#}"
    using ok by (simp add: getIp_lease_def getIp_eq)
  assume "getIp_lease h = Some (x, h')"
  then have ne: "hub_freeIps h \<noteq> []" "x = last (hub_freeIps h)" "h' = h\<lparr>hub_freeIps := butlast (hub_freeIps h)\<rparr>"
    using ok by (auto simp: getIp_lease_def getIp_eq split: if_splits)
  obtain ys y where "hub_freeIps h = ys @ [y]" using ne(1) by (metis rev_exhaust)
  then show "mset (hub_freeIps h) = add_mset x (mset (hub_freeIps h')) \<and> hub_Subnet h' = subnet"
    using ne ok by simp
qed (simp_all add: releaseIp_host)

lemma NewHub_sel [simp]:
  "hub_heap NewHub = []" "hub_router NewHub = no_routes" "hub_tm NewHub = NewTunnelManager"
  "hub_dnsMap NewHub = []" "hub_freeIps NewHub = free_from 254" "hub_retentionMap NewHub = []"
  "hub_Subnet NewHub = subnet" "hub_transferChan NewHub = make_chan 128"
  "hub_packetChan NewHub = make_chan 128" "hub_p2pTaskChan NewHub = make_chan 32"
  by (simp_all add: NewHub_def registerDefaultWSHandlers_def RegisterWSHandler_def Let_def)

definition hosts :: "nat list" where
  "hosts = [2..<255]"

lemma free_from_rev: "1 \<le> n \<Longrightarrow> free_from n = rev (map of_nat [2..<Suc n])"
proof (induction n rule: nat_induct_at_least)
  case base
  then show ?case by (simp add: free_from.simps)
next
  case (Suc n)
  then show ?case by (simp add: free_from.simps [of "Suc n"])
qed

lemma free_from_254: "free_from 254 = rev (map of_nat hosts)"
proof -
  have "1 \<le> (254 :: nat)" and "Suc 254 = 255" by simp_all
  then show ?thesis unfolding hosts_def using free_from_rev by metis
qed

lemma set_hosts: "set hosts = {2..254}"
proof -
  have "Suc 254 = 255" by simp
  then show ?thesis unfolding hosts_def set_upt by (metis atLeastLessThanSuc_atLeastAtMost)
qed

lemma of_nat_byte_inj: "inj_on (of_nat :: nat \<Rightarrow> byte) {0..<256}"
  by (rule inj_onI) (simp add: word_of_nat_eq_iff take_bit_eq_mod)

lemma free_254: "distinct (free_from 254)" "set (free_from 254) = pool" "length (free_from 254) = 253"
proof -
  have "inj_on (of_nat :: nat \<Rightarrow> byte) (set hosts)"
    unfolding set_hosts by (rule inj_on_subset [OF of_nat_byte_inj]) auto
  moreover have "distinct hosts" unfolding hosts_def by (rule distinct_upt)
  ultimately show "distinct (free_from 254)" by (simp add: free_from_254 distinct_map)
  show "set (free_from 254) = pool" by (simp add: free_from_254 pool_def set_hosts)
  show "length (free_from 254) = 253" unfolding free_from_254 hosts_def length_rev length_map length_upt by simp
qed

text \<open>Requests only, on the stack as it is.\<close>

lemma run_requests:
  "hub_Subnet h = subnet \<Longrightarrow> n \<le> length (hub_freeIps h) \<Longrightarrow>
   fst (ips.run (replicate n None) h) = take n (rev (hub_freeIps h)) \<and>
   hub_freeIps (snd (ips.run (replicate n None) h)) = take (length (hub_freeIps h) - n) (hub_freeIps h)"
proof (induction n arbitrary: h)
  case (Suc n)
  obtain ys y where fs: "hub_freeIps h = ys @ [y]"
    using Suc.prems(2) by (cases "hub_freeIps h" rule: rev_exhaust) auto
  define h' where "h' = h\<lparr>hub_freeIps := ys\<rparr>"
  have grab: "getIp_lease h = Some (y, h')"
    using Suc.prems fs by (simp add: getIp_lease_def getIp_eq h'_def)
  have "fst (ips.run (replicate n None) h') = take n (rev (hub_freeIps h')) \<and>
    hub_freeIps (snd (ips.run (replicate n None) h')) = take (length (hub_freeIps h') - n) (hub_freeIps h')"
    using Suc.prems fs by (intro Suc.IH) (simp_all add: h'_def)
  then show ?case using grab fs by (simp add: case_prod_beta h'_def)
qed simp

lemma new_hub_order:
  assumes "n = length (free_from 254)"
  shows "fst (ips.run (replicate n None) NewHub) = map of_nat hosts"
    and "fst (getIp (snd (ips.run (replicate n None) NewHub))) = []"
proof -
  have r: "fst (ips.run (replicate n None) NewHub) = rev (free_from 254)"
    "hub_freeIps (snd (ips.run (replicate n None) NewHub)) = []"
    using run_requests [of NewHub n] assms by simp_all
  then show "fst (ips.run (replicate n None) NewHub) = map of_nat hosts"
    by (simp add: free_from_254)
  have "hub_Subnet (snd (ips.run (replicate n None) NewHub)) = subnet"
    using ips.run_conserves [of NewHub "replicate n None"] by (metis NewHub_sel(7) prod.collapse)
  with r(2) show "fst (getIp (snd (ips.run (replicate n None) NewHub))) = []" by (simp add: getIp_eq)
qed

text \<open>
  The address pool: for any sequence of requests and returns, what is free afterwards together
  with what was handed out is exactly what was free before together with what was returned; in
  particular an address handed out is not free until it is returned. A new hub hands out
  10.0.6.2, 10.0.6.3, \<dots>, 10.0.6.254 in this order, then nil.
\<close>

lemma address_pool:
  assumes "hub_Subnet h = subnet" and "ips.run ops h = (xs, h')"
  shows "mset (hub_freeIps h) + ips.returned ops = mset (hub_freeIps h') + mset xs \<and>
    fst (ips.run (replicate 253 None) NewHub) = map of_nat hosts \<and>
    fst (getIp (snd (ips.run (replicate 253 None) NewHub))) = []"
  using ips.run_conserves [OF assms] new_hub_order [OF free_254(3) [symmetric]] by blast

lemma free_254_top: "\<exists>rest. free_from 254 = rest @ [3, 2]"
proof -
  have "hosts = 2 # 3 # [4..<255]" by (simp add: hosts_def)
  then obtain r where r: "hosts = 2 # 3 # r" by blast
  then have "free_from 254 = rev (map of_nat r) @ [3, 2]" unfolding free_from_254 r by simp
  then show ?thesis by blast
qed

end
