(* ===== verification/HubWs.thy ===== *)
theory HubWs
  imports Hub Socket
begin

text \<open>
  The server's control connections (\<^verbatim>\<open>server_ws.go\<close>): the handlers of control
  messages, the read and write loops of one connection, message by message, and the life of a
  connection. A handler runs to completion before the next step; where the code leaves a window
  between two locks, the handler is written as the composition of the parts on either side of
  it, so that other steps can be placed in between.
\<close>

section \<open>Handlers\<close>

text \<open>
  The part of \<^verbatim>\<open>handleHandshake\<close> under the retention lock. \<open>dSnapshot\<close> is the name
  table loaded before.
\<close>

definition handshake_assign :: "(gostring, netip) gomap \<Rightarrow> cref \<Rightarrow> bytes \<Rightarrow> Hub \<Rightarrow> Hub" where
  "handshake_assign dSnapshot c payload h =
     (let cl = (client h c)\<lparr>natType := payload ! 0, noisePublicKey := take 32 (drop 1 payload),
                            clientID := take 16 (drop 33 payload)\<rparr>
      in case gm_get (hub_retentionMap h) (clientID cl) of
           Some oc \<Rightarrow>
             set_client c (cl\<lparr>virtualIp := oc_virtualIp oc, hostname := oc_hostname oc\<rparr>)
               (h\<lparr>hub_retentionMap := gm_delete (clientID cl) (hub_retentionMap h)\<rparr>)
         | None \<Rightarrow>
             (let (ip, h') = getIp h
              in set_client c (cl\<lparr>virtualIp := ip, hostname := UniqueHostName (drop 49 payload) dSnapshot\<rparr>) h'))"

text \<open>The part after the lock: publish the route and the name, then confirm.\<close>

definition send_control :: "bool \<Rightarrow> cref \<Rightarrow> GamePacket \<Rightarrow> Hub \<Rightarrow> Hub" where
  "send_control stop c gp h =
     set_client c ((client h c)\<lparr>controlChan := fst (select_send stop gp (controlChan (client h c)))\<rparr>) h"

definition handshake_publish :: "bool \<Rightarrow> cref \<Rightarrow> Hub \<Rightarrow> Hub \<times> error option" where
  "handshake_publish stop c h =
     (if virtualIp (client h c) = [] then (h, Some (New ''no virtual IP available''))
      else let h = addClient c h;
               h = addDns (hostname (client h c)) (virtualIp (client h c)) h;
               newGp = NewGamePacket ip4_zero (IpToKey (virtualIp (client h c))) TypeHandshake (hostname (client h c))
           in (send_control stop c newGp h, None))"

definition handleHandshake :: "bool \<Rightarrow> cref \<Rightarrow> GamePacket \<Rightarrow> Hub \<Rightarrow> Hub \<times> error option" where
  "handleHandshake stop c gp h =
     (if length (Payload gp) < 49 then (h, Some (Code PacketTooShort))
      else let dSnapshot = hub_dnsMap h;
               h = handshake_assign dSnapshot c (Payload gp) h
           in handshake_publish stop c h)"

definition handleNoiseHandshake :: "bool \<Rightarrow> cref \<Rightarrow> GamePacket \<Rightarrow> Hub \<Rightarrow> Hub \<times> error option" where
  "handleNoiseHandshake stop c gp h =
     (case gm_get (clientMap (hub_router h)) (IpToKey (Destination gp)) of
        None \<Rightarrow> (h, None)
      | Some dstC \<Rightarrow>
          let pendingBuffer = noisePublicKey (client h dstC) @ Payload gp;
              newGp = NewGamePacket (IpToKey (Destination gp)) (IpToKey (virtualIp (client h c))) TypeNoiseResponse pendingBuffer
          in (send_control stop c newGp h, None))"

definition handleP2PEstablished :: "cref \<Rightarrow> GamePacket \<Rightarrow> Hub \<Rightarrow> Hub \<times> error option" where
  "handleP2PEstablished c gp h =
     (h\<lparr>hub_tm := tunnel_established (IpToKey (virtualIp (client h c))) (IpToKey (Destination gp)) (hub_tm h)\<rparr>, None)"

definition handleP2PClosed :: "cref \<Rightarrow> GamePacket \<Rightarrow> Hub \<Rightarrow> Hub \<times> error option" where
  "handleP2PClosed c gp h =
     (h\<lparr>hub_tm := tunnel_closed (IpToKey (virtualIp (client h c))) (IpToKey (Destination gp)) (hub_tm h)\<rparr>, None)"

definition HandleWSMessage :: "bool \<Rightarrow> cref \<Rightarrow> GamePacket \<Rightarrow> Hub \<Rightarrow> Hub \<times> error option" where
  "HandleWSMessage stop c gp h =
     (case gm_get (hub_wsHandlers h) (PType gp) of
        None \<Rightarrow> (h, None)
      | Some handle_Handshake \<Rightarrow> handleHandshake stop c gp h
      | Some handle_NoiseHandshake \<Rightarrow> handleNoiseHandshake stop c gp h
      | Some handle_P2PEstablished \<Rightarrow> handleP2PEstablished c gp h
      | Some handle_P2PClosed \<Rightarrow> handleP2PClosed c gp h)"

section \<open>The loops of a connection\<close>

definition pongGp :: GamePacket where
  "pongGp = NewGamePacket ip4_zero ip4_zero TypePong []"

text \<open>
  One turn: the packet variable is reused from turn to turn. A ping is answered through the
  control queue with a plain send, which blocks while the queue is full.
\<close>

definition readPump :: "bool \<Rightarrow> cref \<Rightarrow> ws_event \<Rightarrow> GamePacket \<Rightarrow> Hub \<Rightarrow> GamePacket \<times> Hub \<times> pump" where
  "readPump stop c ev gp h =
     (case ev of
        WsClosed \<Rightarrow> (gp, h, PumpStop)
      | WsTimeout \<Rightarrow> (gp, h, PumpContinue)
      | WsReadError \<Rightarrow> (gp, h, PumpContinue)
      | WsOther \<Rightarrow> (gp, h, PumpContinue)
      | WsPing \<Rightarrow>
          (case chan_send pongGp (controlChan (client h c)) of
             Sent ch \<Rightarrow> (gp, set_client c ((client h c)\<lparr>controlChan := ch\<rparr>) h, PumpContinue)
           | _ \<Rightarrow> (gp, h, PumpBlocked))
      | WsBinary data \<Rightarrow>
          (case ParseControl gp data of
             (gp, Some err) \<Rightarrow> (gp, h, PumpContinue)
           | (gp, None) \<Rightarrow>
               if PType gp \<noteq> TypeHandshake \<and> virtualIp (client h c) = [] then (gp, h, PumpContinue)
               else (case HandleWSMessage stop c gp h of
                       (h, None) \<Rightarrow> (gp, h, PumpContinue)
                     | (h, Some err) \<Rightarrow> (gp, h, if PType gp = TypeHandshake then PumpStop else PumpContinue))))"

text \<open>
  One turn of \<^verbatim>\<open>writePump\<close>: the frame it writes for the next queued packet, and whether
  the loop goes on. \<open>writer_ok\<close> is the result of \<^verbatim>\<open>NextWriter\<close>, \<open>close_ok\<close> that of
  closing the writer; \<open>buf\<close> is the pool buffer. An oversized packet is written as an empty one.
\<close>

definition writePump :: "lz4 \<Rightarrow> slice \<Rightarrow> slice \<Rightarrow> slice \<Rightarrow> bool \<Rightarrow> bool \<Rightarrow> cref \<Rightarrow> Hub \<Rightarrow> (Hub \<times> ws_frame option \<times> pump) option" where
  "writePump z probeBuf cbuf buf writer_ok close_ok c h =
     (case chan_recv (controlChan (client h c)) of
        None \<Rightarrow> if ch_closed (controlChan (client h c)) then Some (h, Some CloseFrame, PumpStop) else None
      | Some (gp, ch) \<Rightarrow>
          let h = set_client c ((client h c)\<lparr>controlChan := ch\<rparr>) h
          in if PType gp = TypePong then Some (h, Some PongFrame, PumpContinue)
             else if \<not> writer_ok then Some (h, None, PumpStop)
             else case EncodePacket z probeBuf cbuf buf True False None gp of
                    (data, _, _) \<Rightarrow>
                      Some (h, Some (BinaryFrame (case data of None \<Rightarrow> [] | Some d \<Rightarrow> d)),
                            if close_ok then PumpContinue else PumpReturn))"

section \<open>The life of a connection\<close>

definition connect :: "Hub \<Rightarrow> cref \<times> Hub" where
  "connect h = (length (hub_heap h), h\<lparr>hub_heap := hub_heap h @ [newClient addrport_zero []]\<rparr>)"

text \<open>The two steps at the end of \<^verbatim>\<open>serverWS\<close>: retain the identity, then drop the route.\<close>

definition retain :: "int \<Rightarrow> int \<Rightarrow> cref \<Rightarrow> Hub \<Rightarrow> Hub" where
  "retain retentionTime now c h =
     h\<lparr>hub_retentionMap := gm_set (clientID (client h c))
        \<lparr>oc_virtualIp = virtualIp (client h c), oc_hostname = hostname (client h c),
         oc_expiry = now + retentionTime\<rparr> (hub_retentionMap h)\<rparr>"

definition disconnect :: "int \<Rightarrow> int \<Rightarrow> cref \<Rightarrow> Hub \<Rightarrow> Hub" where
  "disconnect retentionTime now c h =
     (if virtualIp (client h c) \<noteq> [] then removeClient c (retain retentionTime now c h) else h)"

end
