(* ===== verification/Leases.thy ===== *)
theory Leases
  imports HubWs
begin

text \<open>
  Who holds which address and name. A lease is held by a live connection or kept for an offline
  client; \<open>lease\<close> reads the leases off the hub, \<open>lease_ok\<close> relates them to the free addresses
  and the name table, and the lemmas give the effect of every control operation on them.
\<close>

section \<open>Lease tables\<close>

datatype holder = Live cref | Kept bytes

type_synonym leases = "holder \<Rightarrow> (netip \<times> gostring) option"

text \<open>
  Free addresses are pairwise distinct; a leased address is a pool address that is not free and
  its name resolves to it; no two holders share an address.
\<close>

definition lease_ok :: "leases \<Rightarrow> byte list \<Rightarrow> (gostring \<rightharpoonup> netip) \<Rightarrow> bool" where
  "lease_ok l free dns \<longleftrightarrow>
     distinct free \<and> set free \<subseteq> pool \<and>
     (\<forall>x ip n. l x = Some (ip, n) \<longrightarrow> (\<exists>b\<in>pool. b \<notin> set free \<and> ip = host b) \<and> dns n = Some ip) \<and>
     (\<forall>x y ip n m. l x = Some (ip, n) \<longrightarrow> l y = Some (ip, m) \<longrightarrow> x = y)"

text \<open>Nothing is lost: every pool address is free or leased, every name belongs to a lease.\<close>

definition lease_complete :: "leases \<Rightarrow> byte list \<Rightarrow> (gostring \<rightharpoonup> netip) \<Rightarrow> bool" where
  "lease_complete l free dns \<longleftrightarrow>
     host ` pool \<subseteq> host ` set free \<union> fst ` ran l \<and> {(ip, n). dns n = Some ip} \<subseteq> ran l"

lemma lease_okD:
  assumes "lease_ok l free dns" and "l x = Some (ip, n)"
  shows "\<exists>b\<in>pool. b \<notin> set free \<and> ip = host b" and "dns n = Some ip"
  using assms by (auto simp: lease_ok_def)

lemma lease_ok_unique: "lease_ok l free dns \<Longrightarrow> l x = Some (ip, n) \<Longrightarrow> l y = Some (ip, m) \<Longrightarrow> x = y"
  by (auto simp: lease_ok_def)

lemma lease_ok_names: "lease_ok l free dns \<Longrightarrow> l x = Some (ip, n) \<Longrightarrow> l y = Some (ip', n) \<Longrightarrow> x = y"
  using lease_okD(2) lease_ok_unique by (metis option.inject)

lemma lease_drop: "lease_ok l free dns \<Longrightarrow> lease_ok (l(x := None)) free dns"
  by (auto simp: lease_ok_def split: if_splits)

lemma lease_move:
  assumes "lease_ok l free dns" and "l x = Some v"
  shows "lease_ok (l(x := None, y := Some v)) free dns"
  using assms by (cases v) (auto simp: lease_ok_def split: if_splits)

lemma lease_new:
  assumes "lease_ok l (free @ [b]) dns" and "dns n = None"
  shows "lease_ok (l(x := Some (host b, n))) free (dns(n \<mapsto> host b))"
proof -
  have b: "b \<in> pool" "b \<notin> set free" "distinct free" "set free \<subseteq> pool"
    using assms(1) by (auto simp: lease_ok_def)
  have old: "ip \<noteq> host b \<and> m \<noteq> n \<and> dns m = Some ip \<and> (\<exists>c\<in>pool. c \<notin> set free \<and> ip = host c)"
    if "l y = Some (ip, m)" for y ip m
    using lease_okD [OF assms(1) that] assms(2) by auto
  show ?thesis
    unfolding lease_ok_def
  proof (intro conjI allI impI)
    fix y z ip m m'
    assume "(l(x := Some (host b, n))) y = Some (ip, m)" "(l(x := Some (host b, n))) z = Some (ip, m')"
    then show "y = z"
      using old lease_ok_unique [OF assms(1)] by (auto split: if_splits)
  next
    fix y ip m assume y: "(l(x := Some (host b, n))) y = Some (ip, m)"
    show "\<exists>c\<in>pool. c \<notin> set free \<and> ip = host c" using y old b by (cases "y = x") auto
    show "(dns(n \<mapsto> host b)) m = Some ip" using y old by (cases "y = x") auto
  qed (use b in auto)
qed

lemma lease_free:
  assumes "lease_ok l free dns" and "l x = Some (host b, n)"
  shows "lease_ok (l(x := None)) (free @ [b]) (dns(n := None))"
proof -
  have b: "b \<in> pool" "b \<notin> set free" "distinct free" "set free \<subseteq> pool"
    using lease_okD(1) [OF assms] assms(1) by (auto simp: lease_ok_def)
  have old: "m \<noteq> n \<and> dns m = Some ip \<and> (\<exists>c\<in>pool. c \<notin> set (free @ [b]) \<and> ip = host c)"
    if y: "l y = Some (ip, m)" "y \<noteq> x" for y ip m
  proof -
    obtain c where "c \<in> pool" "c \<notin> set free" "ip = host c" "dns m = Some ip"
      using lease_okD [OF assms(1) y(1)] by auto
    moreover have "c \<noteq> b" using y assms lease_ok_unique calculation(3) by metis
    moreover have "m \<noteq> n" using y assms lease_ok_names by metis
    ultimately show ?thesis by auto
  qed
  show ?thesis
    unfolding lease_ok_def
  proof (intro conjI allI impI)
    fix y z ip m m'
    assume "(l(x := None)) y = Some (ip, m)" "(l(x := None)) z = Some (ip, m')"
    then show "y = z" using lease_ok_unique [OF assms(1)] by (auto split: if_splits)
  next
    fix y ip m assume y: "(l(x := None)) y = Some (ip, m)"
    show "\<exists>c\<in>pool. c \<notin> set (free @ [b]) \<and> ip = host c" using y old by (auto split: if_splits)
    show "(dns(n := None)) m = Some ip" using y old by (auto split: if_splits)
  qed (use b in auto)
qed

lemma complete_move:
  assumes "lease_complete l free dns" and "l x = Some v" and "l y = None"
  shows "lease_complete (l(x := None, y := Some v)) free dns"
proof -
  have "ran l \<subseteq> ran (l(x := None, y := Some v))"
    using assms(2,3) by (auto simp: ran_def) (metis option.inject option.distinct(1))
  then show ?thesis using assms(1) unfolding lease_complete_def by blast
qed

lemma complete_new:
  assumes "lease_complete l (free @ [b]) dns" and "l x = None"
  shows "lease_complete (l(x := Some (host b, n))) free (dns(n \<mapsto> host b))"
  using assms unfolding lease_complete_def by (auto simp: ran_map_upd split: if_splits)

lemma subset_insert_swap: "A \<subseteq> F \<union> R \<Longrightarrow> R \<subseteq> insert v R' \<Longrightarrow> A \<subseteq> insert v F \<union> R'"
  by blast

lemma complete_free:
  assumes "lease_complete l free dns" and "lease_ok l free dns" and "l x = Some (host b, n)"
  shows "lease_complete (l(x := None)) (free @ [b]) (dns(n := None))"
proof -
  have ran: "ran l \<subseteq> insert (host b, n) (ran (l(x := None)))"
  proof
    fix v assume "v \<in> ran l"
    then obtain y where "l y = Some v" by (auto simp: ran_def)
    with assms(3) show "v \<in> insert (host b, n) (ran (l(x := None)))"
      by (cases "y = x") (auto simp: ran_def)
  qed
  from image_mono [OF this, of fst] have fst: "fst ` ran l \<subseteq> insert (host b) (fst ` ran (l(x := None)))" by simp
  have c: "host ` pool \<subseteq> host ` set free \<union> fst ` ran l" "{(ip, n). dns n = Some ip} \<subseteq> ran l"
    using assms(1) by (simp_all add: lease_complete_def)
  have "(ip, m) \<in> ran (l(x := None))" if "(dns(n := None)) m = Some ip" for ip m
  proof -
    have "m \<noteq> n" "dns m = Some ip" using that by (auto split: if_splits)
    then have "(ip, m) \<in> ran l" using c(2) by blast
    then show ?thesis using ran \<open>m \<noteq> n\<close> by blast
  qed
  moreover have "host ` pool \<subseteq> host ` set (free @ [b]) \<union> fst ` ran (l(x := None))"
    using subset_insert_swap [OF c(1) fst] by simp
  ultimately show ?thesis unfolding lease_complete_def by blast
qed

section \<open>The leases of a hub\<close>

definition lease :: "cref set \<Rightarrow> Hub \<Rightarrow> leases" where
  "lease live h x =
     (case x of
        Live c \<Rightarrow> if c \<in> live \<and> virtualIp (client h c) \<noteq> []
                  then Some (virtualIp (client h c), hostname (client h c)) else None
      | Kept cid \<Rightarrow> map_option (\<lambda>oc. (oc_virtualIp oc, oc_hostname oc)) (gm_get (hub_retentionMap h) cid))"

text \<open>
  The invariant of the hub: its tables are well formed, its leases are sound, and the route of
  every live address leads to its holder.
\<close>

definition hub_inv :: "cref set \<Rightarrow> Hub \<Rightarrow> bool" where
  "hub_inv live h \<longleftrightarrow>
     gm_wf (clientMap (hub_router h)) \<and> gm_wf (hub_dnsMap h) \<and> gm_wf (hub_retentionMap h) \<and>
     tm_wf (hub_tm h) \<and> hub_Subnet h = subnet \<and> hub_wsHandlers h = hub_wsHandlers NewHub \<and>
     live \<subseteq> {..<length (hub_heap h)} \<and>
     lease_ok (lease live h) (hub_freeIps h) (gm_get (hub_dnsMap h)) \<and>
     (\<forall>c ip n. lease live h (Live c) = Some (ip, n) \<longrightarrow> route h (IpToKey ip) = Some c)"

lemma hub_invD:
  assumes "hub_inv live h"
  shows "gm_wf (clientMap (hub_router h))" "gm_wf (hub_dnsMap h)" "gm_wf (hub_retentionMap h)"
    "tm_wf (hub_tm h)" "hub_Subnet h = subnet" "live \<subseteq> {..<length (hub_heap h)}"
    "lease_ok (lease live h) (hub_freeIps h) (gm_get (hub_dnsMap h))"
    "lease live h (Live c) = Some (ip, n) \<Longrightarrow> route h (IpToKey ip) = Some c"
    "hub_wsHandlers h = hub_wsHandlers NewHub"
  using assms by (simp_all add: hub_inv_def)

lemma NewHub_inv: "hub_inv {} NewHub"
proof -
  have "lease {} NewHub = (\<lambda>_. None)" by (auto simp: lease_def fun_eq_iff split: holder.split)
  then show ?thesis by (simp add: hub_inv_def lease_ok_def free_254)
qed

lemma NewHub_complete: "lease_complete (lease {} NewHub) (hub_freeIps NewHub) (gm_get (hub_dnsMap NewHub))"
  by (simp add: lease_complete_def free_254)

text \<open>Operations that leave identities, pool, names, retention and routes alone keep the invariant.\<close>

definition same_leases :: "Hub \<Rightarrow> Hub \<Rightarrow> bool" where
  "same_leases h h' \<longleftrightarrow>
     hub_router h' = hub_router h \<and> hub_dnsMap h' = hub_dnsMap h \<and> hub_freeIps h' = hub_freeIps h \<and>
     hub_retentionMap h' = hub_retentionMap h \<and> hub_Subnet h' = hub_Subnet h \<and>
     hub_wsHandlers h' = hub_wsHandlers h \<and>
     map virtualIp (hub_heap h') = map virtualIp (hub_heap h) \<and>
     map hostname (hub_heap h') = map hostname (hub_heap h) \<and>
     map clientID (hub_heap h') = map clientID (hub_heap h) \<and>
     (tm_wf (hub_tm h) \<longrightarrow> tm_wf (hub_tm h'))"

lemma same_leases_refl [simp]: "same_leases h h"
  by (simp add: same_leases_def)

lemma same_leases_trans: "same_leases h h' \<Longrightarrow> same_leases h' h'' \<Longrightarrow> same_leases h h''"
  by (auto simp: same_leases_def)

lemma map_eq_nth: "map f xs = map f ys \<Longrightarrow> c < length ys \<Longrightarrow> f (xs ! c) = f (ys ! c)"
  by (metis length_map nth_map)

lemma same_leases_client:
  assumes "same_leases h h'"
  shows "length (hub_heap h') = length (hub_heap h)"
    and "c < length (hub_heap h) \<Longrightarrow> virtualIp (client h' c) = virtualIp (client h c)"
    and "c < length (hub_heap h) \<Longrightarrow> hostname (client h' c) = hostname (client h c)"
    and "c < length (hub_heap h) \<Longrightarrow> clientID (client h' c) = clientID (client h c)"
proof -
  have m: "map virtualIp (hub_heap h') = map virtualIp (hub_heap h)"
    "map hostname (hub_heap h') = map hostname (hub_heap h)"
    "map clientID (hub_heap h') = map clientID (hub_heap h)"
    using assms by (simp_all add: same_leases_def)
  from m(1) show "length (hub_heap h') = length (hub_heap h)" by (rule map_eq_imp_length_eq)
  assume c: "c < length (hub_heap h)"
  show "virtualIp (client h' c) = virtualIp (client h c)" by (rule map_eq_nth [OF m(1) c])
  show "hostname (client h' c) = hostname (client h c)" by (rule map_eq_nth [OF m(2) c])
  show "clientID (client h' c) = clientID (client h c)" by (rule map_eq_nth [OF m(3) c])
qed

lemma same_leases_lease:
  assumes "same_leases h h'" and "live \<subseteq> {..<length (hub_heap h)}"
  shows "lease live h' = lease live h"
proof
  fix x
  show "lease live h' x = lease live h x"
  proof (cases x)
    case (Live c)
    then show ?thesis
      using same_leases_client(2,3) [OF assms(1), of c] assms(2) by (cases "c \<in> live") (auto simp: lease_def)
  next
    case (Kept cid)
    then show ?thesis using assms(1) by (simp add: lease_def same_leases_def)
  qed
qed

lemma same_leases_inv:
  assumes "same_leases h h'" and "hub_inv live h"
  shows "hub_inv live h'"
proof -
  have "lease live h' = lease live h"
    using same_leases_lease assms hub_invD(6) by blast
  moreover have "route h' = route h" using assms(1) by (simp add: same_leases_def route_def fun_eq_iff)
  ultimately show ?thesis
    using assms same_leases_client(1) [OF assms(1)] unfolding hub_inv_def same_leases_def by simp
qed

lemma same_leases_set_client:
  assumes "virtualIp cl = virtualIp (client h c)" "hostname cl = hostname (client h c)" "clientID cl = clientID (client h c)"
  shows "same_leases h (set_client c cl h)"
proof (cases "c < length (hub_heap h)")
  case True
  then show ?thesis using assms
    by (simp add: same_leases_def set_client_def list_eq_iff_nth_eq nth_list_update)
next
  case False
  then show ?thesis by (simp add: same_leases_def set_client_def list_update_beyond)
qed

lemma same_leases_tm: "(tm_wf (hub_tm h) \<Longrightarrow> tm_wf tm) \<Longrightarrow> same_leases h (h\<lparr>hub_tm := tm\<rparr>)"
  by (simp add: same_leases_def)

section \<open>The handshake\<close>

lemma set_client_sel [simp]:
  "hub_router (set_client c cl h) = hub_router h" "hub_dnsMap (set_client c cl h) = hub_dnsMap h"
  "hub_freeIps (set_client c cl h) = hub_freeIps h" "hub_retentionMap (set_client c cl h) = hub_retentionMap h"
  "hub_Subnet (set_client c cl h) = hub_Subnet h" "hub_wsHandlers (set_client c cl h) = hub_wsHandlers h" "hub_tm (set_client c cl h) = hub_tm h"
  "length (hub_heap (set_client c cl h)) = length (hub_heap h)"
  "c < length (hub_heap h) \<Longrightarrow> client (set_client c cl h) c = cl"
  "d \<noteq> c \<Longrightarrow> client (set_client c cl h) d = client h d"
  by (simp_all add: set_client_def)

lemma lease_set_client:
  assumes "c \<in> live" "c < length (hub_heap h)"
  shows "lease live (set_client c cl h) =
    (lease live h)(Live c := if virtualIp cl = [] then None else Some (virtualIp cl, hostname cl))"
proof
  fix x
  show "lease live (set_client c cl h) x =
    ((lease live h)(Live c := if virtualIp cl = [] then None else Some (virtualIp cl, hostname cl))) x"
    using assms by (cases x) (auto simp: lease_def set_client_def nth_list_update)
qed

lemma lease_frame:
  "lease live (h\<lparr>hub_router := r\<rparr>) = lease live h" "lease live (h\<lparr>hub_freeIps := f\<rparr>) = lease live h"
  "lease live (h\<lparr>hub_dnsMap := d\<rparr>) = lease live h" "lease live (h\<lparr>hub_tm := t\<rparr>) = lease live h"
  by (simp_all add: lease_def fun_eq_iff split: holder.split)

lemma lease_delete_kept:
  "lease live (h\<lparr>hub_retentionMap := gm_delete cid (hub_retentionMap h)\<rparr>) = (lease live h)(Kept cid := None)"
  by (auto simp: lease_def fun_eq_iff split: holder.split)

lemma lease_set_kept:
  "lease live (h\<lparr>hub_retentionMap := gm_set cid oc (hub_retentionMap h)\<rparr>) =
   (lease live h)(Kept cid := Some (oc_virtualIp oc, oc_hostname oc))"
  by (auto simp: lease_def fun_eq_iff split: holder.split)

lemma host_key [simp]: "IpToKey (host b) = IP4 10 0 6 b"
  by simp

lemma leased_host:
  assumes "hub_inv live h" and "lease live h x = Some (ip, n)"
  obtains b where "b \<in> pool" "b \<notin> set (hub_freeIps h)" "ip = host b" "gm_get (hub_dnsMap h) n = Some (host b)"
  using lease_okD [OF hub_invD(7) [OF assms(1)] assms(2)] by auto

text \<open>Between the two halves of the handshake: the lease is there, its route and name are not yet.\<close>

definition pub_ready :: "cref set \<Rightarrow> cref \<Rightarrow> Hub \<Rightarrow> bool" where
  "pub_ready live c h \<longleftrightarrow>
     gm_wf (clientMap (hub_router h)) \<and> gm_wf (hub_dnsMap h) \<and> gm_wf (hub_retentionMap h) \<and>
     tm_wf (hub_tm h) \<and> hub_Subnet h = subnet \<and> hub_wsHandlers h = hub_wsHandlers NewHub \<and>
     live \<subseteq> {..<length (hub_heap h)} \<and> c \<in> live \<and>
     virtualIp (client h c) \<noteq> [] \<and>
     lease_ok (lease live h) (hub_freeIps h)
       ((gm_get (hub_dnsMap h))(hostname (client h c) \<mapsto> virtualIp (client h c))) \<and>
     (\<forall>d ip n. d \<noteq> c \<longrightarrow> lease live h (Live d) = Some (ip, n) \<longrightarrow> route h (IpToKey ip) = Some d)"

definition published :: "cref \<Rightarrow> Hub \<Rightarrow> Hub" where
  "published c h = addDns (hostname (client h c)) (virtualIp (client h c)) (addClient c h)"

lemma handshake_publish_eq:
  "handshake_publish stop c h =
     (if virtualIp (client h c) = [] then (h, Some (New ''no virtual IP available''))
      else (send_control stop c (NewGamePacket ip4_zero (IpToKey (virtualIp (client h c))) TypeHandshake (hostname (client h c)))
              (published c h), None))"
  by (simp add: handshake_publish_def published_def addDns_def addClient_def Let_def)

lemma same_leases_send_control: "same_leases h (send_control stop c gp h)"
  unfolding send_control_def by (rule same_leases_set_client) simp_all

lemma send_control_inv: "hub_inv live h \<Longrightarrow> hub_inv live (send_control stop c gp h)"
  by (rule same_leases_inv [OF same_leases_send_control])

lemma published_inv:
  assumes "pub_ready live c h"
  shows "hub_inv live (published c h)"
proof -
  let ?ip = "virtualIp (client h c)" and ?n = "hostname (client h c)"
  have r: "gm_wf (clientMap (hub_router h))" "gm_wf (hub_dnsMap h)" "c \<in> live"
    using assms by (auto simp: pub_ready_def)
  have ok: "lease_ok (lease live h) (hub_freeIps h) ((gm_get (hub_dnsMap h))(?n \<mapsto> ?ip))"
    using assms by (simp add: pub_ready_def)
  have mine: "lease live h (Live c) = Some (?ip, ?n)"
    using assms by (simp add: pub_ready_def lease_def)
  have eq: "published c h = h\<lparr>hub_router := hub_router (addClient c h), hub_dnsMap := gm_set ?n ?ip (hub_dnsMap h)\<rparr>"
    using r by (simp add: published_def addClient_eq addDns_eq)
  have same: "lease live (published c h) = lease live h" by (simp add: eq lease_frame)
  have "route (published c h) (IpToKey ip) = Some d" if d: "lease live h (Live d) = Some (ip, n)" for d ip n
  proof (cases "d = c")
    case True
    then show ?thesis using d mine by (simp add: published_def route_def addDns_def addClient_def Let_def)
  next
    case False
    then have "ip \<noteq> ?ip" using d mine lease_ok_unique [OF ok] by blast
    then have "IpToKey ip \<noteq> IpToKey ?ip"
      using lease_okD(1) [OF ok d] lease_okD(1) [OF ok mine] by auto
    moreover have "route h (IpToKey ip) = Some d" using assms False d by (auto simp: pub_ready_def)
    ultimately show ?thesis using route_addClient [OF r(1), of c] by (simp add: eq route_def)
  qed
  moreover have "gm_wf (clientMap (hub_router (published c h)))"
    using wf_routes(1) [OF r(1)] by (simp add: eq)
  ultimately show ?thesis
    using assms ok unfolding hub_inv_def same by (simp add: pub_ready_def eq)
qed

text \<open>The client record after the assignment of an address and a name.\<close>

definition handshaken :: "bytes \<Rightarrow> netip \<Rightarrow> gostring \<Rightarrow> Client \<Rightarrow> Client" where
  "handshaken payload ip name cl =
     cl\<lparr>natType := payload ! 0, noisePublicKey := take 32 (drop 1 payload),
        clientID := take 16 (drop 33 payload), virtualIp := ip, hostname := name\<rparr>"

abbreviation handshake_id :: "bytes \<Rightarrow> bytes" where
  "handshake_id payload \<equiv> take 16 (drop 33 payload)"

lemma handshaken_sel [simp]:
  "virtualIp (handshaken p ip n cl) = ip" "hostname (handshaken p ip n cl) = n"
  "clientID (handshaken p ip n cl) = handshake_id p" "controlChan (handshaken p ip n cl) = controlChan cl"
  "noisePublicKey (handshaken p ip n cl) = take 32 (drop 1 p)" "natType (handshaken p ip n cl) = p ! 0"
  by (simp_all add: handshaken_def)

lemma assign_kept:
  "gm_get (hub_retentionMap h) (handshake_id p) = Some oc \<Longrightarrow>
   handshake_assign d c p h = set_client c (handshaken p (oc_virtualIp oc) (oc_hostname oc) (client h c))
     (h\<lparr>hub_retentionMap := gm_delete (handshake_id p) (hub_retentionMap h)\<rparr>)"
  by (simp add: handshake_assign_def handshaken_def Let_def)

lemma assign_fresh:
  "gm_get (hub_retentionMap h) (handshake_id p) = None \<Longrightarrow> hub_Subnet h = subnet \<Longrightarrow> hub_freeIps h = free @ [b] \<Longrightarrow>
   handshake_assign d c p h = set_client c (handshaken p (host b) (UniqueHostName (drop 49 p) d) (client h c))
     (h\<lparr>hub_freeIps := free\<rparr>)"
  by (simp add: handshake_assign_def handshaken_def getIp_eq Let_def)

lemma assign_empty:
  "gm_get (hub_retentionMap h) (handshake_id p) = None \<Longrightarrow> hub_Subnet h = subnet \<Longrightarrow> hub_freeIps h = [] \<Longrightarrow>
   handshake_assign d c p h = set_client c (handshaken p [] (UniqueHostName (drop 49 p) d) (client h c)) h"
  by (simp add: handshake_assign_def handshaken_def getIp_eq Let_def)

lemma lease_kept: "gm_get (hub_retentionMap h) cid = Some oc \<Longrightarrow> lease live h (Kept cid) = Some (oc_virtualIp oc, oc_hostname oc)"
  by (simp add: lease_def)

lemma pub_ready_kept:
  assumes "hub_inv live h" "c \<in> live" "gm_get (hub_retentionMap h) (handshake_id p) = Some oc"
  shows "pub_ready live c (handshake_assign d c p h)"
    and "lease live (handshake_assign d c p h) =
      (lease live h)(Kept (handshake_id p) := None, Live c := Some (oc_virtualIp oc, oc_hostname oc))"
proof -
  note inv = hub_invD [OF assms(1)]
  have c: "c < length (hub_heap h)" using inv(6) assms(2) by blast
  obtain b where b: "oc_virtualIp oc = host b" "gm_get (hub_dnsMap h) (oc_hostname oc) = Some (host b)"
    using leased_host [OF assms(1) lease_kept [OF assms(3)]] by blast
  show l: "lease live (handshake_assign d c p h) =
      (lease live h)(Kept (handshake_id p) := None, Live c := Some (oc_virtualIp oc, oc_hostname oc))"
    using assms(2,3) b(1) c by (simp add: assign_kept lease_set_client lease_delete_kept)
  have "lease_ok (lease live (handshake_assign d c p h)) (hub_freeIps h) (gm_get (hub_dnsMap h))"
    unfolding l by (rule lease_move [OF inv(7) lease_kept [OF assms(3)]])
  then show "pub_ready live c (handshake_assign d c p h)"
    using inv assms(2,3) b c l unfolding pub_ready_def
    by (auto simp: assign_kept route_def fun_upd_idem map_upd_triv)
qed

lemma pub_ready_fresh:
  assumes "hub_inv live h" "c \<in> live" "gm_get (hub_retentionMap h) (handshake_id p) = None" "hub_freeIps h = free @ [b]"
  shows "pub_ready live c (handshake_assign (hub_dnsMap h) c p h)"
    and "lease live (handshake_assign (hub_dnsMap h) c p h) =
      (lease live h)(Live c := Some (host b, UniqueHostName (drop 49 p) (hub_dnsMap h)))"
proof -
  note inv = hub_invD [OF assms(1)]
  let ?n = "UniqueHostName (drop 49 p) (hub_dnsMap h)"
  have c: "c < length (hub_heap h)" using inv(6) assms(2) by blast
  note eq = assign_fresh [OF assms(3) inv(5) assms(4), of "hub_dnsMap h" c]
  show l: "lease live (handshake_assign (hub_dnsMap h) c p h) = (lease live h)(Live c := Some (host b, ?n))"
    using assms(2) c by (simp add: eq lease_set_client lease_frame)
  have "lease_ok (lease live (handshake_assign (hub_dnsMap h) c p h)) free ((gm_get (hub_dnsMap h))(?n \<mapsto> host b))"
    unfolding l using inv(7) assms(4) by (intro lease_new) simp_all
  then show "pub_ready live c (handshake_assign (hub_dnsMap h) c p h)"
    using inv assms(2) c l unfolding pub_ready_def by (auto simp: eq route_def)
qed

lemma assign_empty_inv:
  assumes "hub_inv live h" "c \<in> live" "gm_get (hub_retentionMap h) (handshake_id p) = None" "hub_freeIps h = []"
  shows "hub_inv live (handshake_assign d c p h)"
    and "lease live (handshake_assign d c p h) = (lease live h)(Live c := None)"
proof -
  note inv = hub_invD [OF assms(1)]
  have c: "c < length (hub_heap h)" using inv(6) assms(2) by blast
  note eq = assign_empty [OF assms(3) inv(5) assms(4), of d c]
  show l: "lease live (handshake_assign d c p h) = (lease live h)(Live c := None)"
    using assms(2) c by (simp add: eq lease_set_client)
  show "hub_inv live (handshake_assign d c p h)"
    unfolding hub_inv_def l using inv lease_drop [OF inv(7), of "Live c"] by (auto simp: eq route_def)
qed

text \<open>The outcomes of a handshake with a complete payload.\<close>

lemma handleHandshake_cases:
  assumes "hub_inv live h" and "c \<in> live" and "49 \<le> length (Payload gp)"
  obtains (kept) oc where "gm_get (hub_retentionMap h) (handshake_id (Payload gp)) = Some oc"
      "handleHandshake stop c gp h =
        (send_control stop c (NewGamePacket ip4_zero (IpToKey (oc_virtualIp oc)) TypeHandshake (oc_hostname oc))
          (published c (handshake_assign (hub_dnsMap h) c (Payload gp) h)), None)"
      "pub_ready live c (handshake_assign (hub_dnsMap h) c (Payload gp) h)"
  | (fresh) free b where "gm_get (hub_retentionMap h) (handshake_id (Payload gp)) = None" "hub_freeIps h = free @ [b]"
      "handleHandshake stop c gp h =
        (send_control stop c (NewGamePacket ip4_zero (IP4 10 0 6 b) TypeHandshake (UniqueHostName (drop 49 (Payload gp)) (hub_dnsMap h)))
          (published c (handshake_assign (hub_dnsMap h) c (Payload gp) h)), None)"
      "pub_ready live c (handshake_assign (hub_dnsMap h) c (Payload gp) h)"
  | (full) "gm_get (hub_retentionMap h) (handshake_id (Payload gp)) = None" "hub_freeIps h = []"
      "handleHandshake stop c gp h =
        (handshake_assign (hub_dnsMap h) c (Payload gp) h, Some (New ''no virtual IP available''))"
proof -
  note inv = hub_invD [OF assms(1)]
  have c: "c < length (hub_heap h)" using inv(6) assms(2) by blast
  have len: "\<not> length (Payload gp) < 49" using assms(3) by simp
  show thesis
  proof (cases "gm_get (hub_retentionMap h) (handshake_id (Payload gp))")
    case (Some oc)
    note pub_ready_kept(1) [OF assms(1,2) Some, of "hub_dnsMap h"]
    with Some c len show thesis
      by (intro kept [OF Some])
        (auto simp: handleHandshake_def Let_def handshake_publish_eq pub_ready_def assign_kept)
  next
    case None
    show thesis
    proof (cases "hub_freeIps h" rule: rev_cases)
      case Nil
      with None c len inv(5) show thesis
        by (intro full) (auto simp: handleHandshake_def Let_def handshake_publish_eq assign_empty)
    next
      case (snoc free b)
      note pub_ready_fresh(1) [OF assms(1,2) None snoc]
      with None snoc c len inv(5) show thesis
        by (intro fresh [OF None snoc])
          (auto simp: handleHandshake_def Let_def handshake_publish_eq pub_ready_def assign_fresh)
    qed
  qed
qed

lemma handleHandshake_inv:
  assumes "hub_inv live h" and "c \<in> live"
  shows "hub_inv live (fst (handleHandshake stop c gp h))"
proof (cases "length (Payload gp) < 49")
  case True
  then show ?thesis using assms(1) by (simp add: handleHandshake_def)
next
  case False
  then have "49 \<le> length (Payload gp)" by simp
  with assms show ?thesis
  proof (cases rule: handleHandshake_cases [where stop = stop])
    case (full)
    then show ?thesis using assign_empty_inv(1) [OF assms full(1,2)] by simp
  qed (simp_all add: send_control_inv published_inv)
qed

section \<open>The other control messages and the life of a connection\<close>

lemma handleNoiseHandshake_same: "same_leases h (fst (handleNoiseHandshake stop c gp h))"
  by (simp add: handleNoiseHandshake_def same_leases_send_control Let_def split: option.split)

lemma handleP2P_same:
  "same_leases h (fst (handleP2PEstablished c gp h))" "same_leases h (fst (handleP2PClosed c gp h))"
  using event_step_wf [of "hub_tm h" "PeerEstablished A B" for A B] event_step_wf [of "hub_tm h" "PeerClosed A B" for A B]
  by (simp_all add: handleP2PEstablished_def handleP2PClosed_def same_leases_tm)

lemma HandleWSMessage_inv:
  assumes "hub_inv live h" "c \<in> live"
  shows "hub_inv live (fst (HandleWSMessage stop c gp h))"
  using assms handleHandshake_inv same_leases_inv [OF _ assms(1)] handleNoiseHandshake_same handleP2P_same
  by (auto simp: HandleWSMessage_def split: option.split WSHandler.split)

lemma readPump_cases:
  obtains (same) "same_leases h (fst (snd (readPump stop c ev gp h)))"
  | (message) gp' data where "ev = WsBinary data" "ParseControl gp data = (gp', None)"
      "PType gp' = TypeHandshake \<or> virtualIp (client h c) \<noteq> []"
      "fst (snd (readPump stop c ev gp h)) = fst (HandleWSMessage stop c gp' h)"
proof (cases ev)
  case (WsBinary data)
  obtain gp' err where p: "ParseControl gp data = (gp', err)" by (cases "ParseControl gp data")
  show thesis
  proof (cases "err = None \<and> (PType gp' = TypeHandshake \<or> virtualIp (client h c) \<noteq> [])")
    case True
    then show thesis
      using WsBinary p by (intro message) (auto simp: readPump_def split: option.split prod.split)
  next
    case False
    then show thesis
      using WsBinary p by (intro same) (auto simp: readPump_def split: option.split)
  qed
next
  case WsPing
  have "same_leases h (set_client c ((client h c)\<lparr>controlChan := ch\<rparr>) h)" for ch
    by (rule same_leases_set_client) simp_all
  with WsPing show thesis by (intro same) (simp add: readPump_def split: send_outcome.split)
qed (auto simp: readPump_def intro: same)

lemma readPump_inv:
  assumes "hub_inv live h" "c \<in> live"
  shows "hub_inv live (fst (snd (readPump stop c ev gp h)))"
  by (cases rule: readPump_cases [of h stop c ev gp])
    (use assms same_leases_inv HandleWSMessage_inv in auto)

lemma writePump_same:
  "writePump z pb cb buf w cl c h = Some (h', f, p) \<Longrightarrow> same_leases h h'"
  by (auto simp: writePump_def Let_def intro!: same_leases_set_client split: option.splits prod.splits if_splits)

lemma connect_inv:
  assumes "hub_inv live h"
  shows "hub_inv (insert (fst (connect h)) live) (snd (connect h))"
    and "lease (insert (fst (connect h)) live) (snd (connect h)) = lease live h"
proof -
  note inv = hub_invD [OF assms]
  have fresh: "length (hub_heap h) \<notin> live" using inv(6) by auto
  show l: "lease (insert (fst (connect h)) live) (snd (connect h)) = lease live h"
  proof
    fix x
    show "lease (insert (fst (connect h)) live) (snd (connect h)) x = lease live h x"
      using inv(6) fresh
      by (cases x) (auto simp: lease_def connect_def newClient_def nth_append)
  qed
  show "hub_inv (insert (fst (connect h)) live) (snd (connect h))"
    unfolding hub_inv_def l using inv by (auto simp: connect_def route_def)
qed

lemma lease_minus: "lease (live - {c}) h = (lease live h)(Live c := None)"
  by (auto simp: lease_def fun_eq_iff split: holder.split)

lemma disconnect_lease:
  assumes "c \<in> live"
  shows "lease (live - {c}) (disconnect rt now c h) =
    (case lease live h (Live c) of
       None \<Rightarrow> lease live h
     | Some v \<Rightarrow> (lease live h)(Live c := None, Kept (clientID (client h c)) := Some v))"
proof (cases "virtualIp (client h c) = []")
  case True
  then show ?thesis
    by (auto simp: disconnect_def lease_minus) (simp add: lease_def fun_eq_iff split: holder.split)
next
  case False
  have "lease L (removeClient c h') = lease L h'" for L h'
    by (simp add: removeClient_def Let_def lease_def fun_eq_iff split: option.split holder.split)
  with False assms show ?thesis
    by (auto simp: disconnect_def lease_minus retain_def lease_set_kept) (simp add: lease_def)
qed

lemma disconnect_inv:
  assumes "hub_inv live h" "c \<in> live"
  shows "hub_inv (live - {c}) (disconnect rt now c h)"
proof (cases "virtualIp (client h c) = []")
  case True
  have "lease (live - {c}) h = lease live h"
    using True by (simp add: lease_minus) (simp add: lease_def fun_eq_iff split: holder.split)
  then show ?thesis
    using assms(1) True by (auto simp: disconnect_def hub_inv_def)
next
  case False
  note inv = hub_invD [OF assms(1)]
  let ?ip = "virtualIp (client h c)" and ?h = "disconnect rt now c h"
  have mine: "lease live h (Live c) = Some (?ip, hostname (client h c))"
    using False assms(2) by (simp add: lease_def)
  have l: "lease (live - {c}) ?h =
      (lease live h)(Live c := None, Kept (clientID (client h c)) := Some (?ip, hostname (client h c)))"
    using disconnect_lease [OF assms(2)] mine by simp
  have eq: "?h = removeClient c (retain rt now c h)" using False by (simp add: disconnect_def)
  have sel: "hub_dnsMap ?h = hub_dnsMap h" "hub_freeIps ?h = hub_freeIps h" "hub_Subnet ?h = hub_Subnet h" "hub_wsHandlers ?h = hub_wsHandlers h"
    "length (hub_heap ?h) = length (hub_heap h)" "gm_wf (hub_retentionMap ?h)" "tm_wf (hub_tm ?h)"
    using inv tm_wf_RemoveA by (simp_all add: eq removeClient_def retain_def Let_def split: option.split)
  have r: "route ?h k = (if k = IpToKey ?ip then None else route h k)" for k
    using route_removeClient [of "retain rt now c h" c] inv(1) by (simp add: eq retain_def route_def)
  have "route ?h (IpToKey ip) = Some d" if d: "lease live h (Live d) = Some (ip, n)" "d \<noteq> c" for d ip n
  proof -
    have "ip \<noteq> ?ip" using d mine lease_ok_unique [OF inv(7)] by blast
    then have "IpToKey ip \<noteq> IpToKey ?ip"
      using lease_okD(1) [OF inv(7) d(1)] lease_okD(1) [OF inv(7) mine] by auto
    then show ?thesis using r inv(8) [OF d(1)] by simp
  qed
  moreover have "gm_wf (clientMap (hub_router ?h))"
    using wf_routes(2) [of "retain rt now c h" c] inv(1) by (simp add: eq retain_def)
  ultimately show ?thesis
    unfolding hub_inv_def l sel(1-4) using inv sel(5-7) lease_move [OF inv(7) mine] by (auto split: if_splits)
qed

section \<open>The sweep of retained clients\<close>

lemma release_kept:
  assumes "hub_inv live h" "gm_get (hub_retentionMap h) cid = Some oc"
  defines "h' \<equiv> (removeDns (oc_hostname oc) (releaseIp (oc_virtualIp oc) h))
    \<lparr>hub_retentionMap := gm_delete cid (hub_retentionMap h)\<rparr>"
  shows "hub_inv live h'" and "lease live h' = (lease live h)(Kept cid := None)"
    and "\<exists>b. oc_virtualIp oc = host b \<and> hub_freeIps h' = hub_freeIps h @ [b] \<and>
      gm_get (hub_dnsMap h') = (gm_get (hub_dnsMap h))(oc_hostname oc := None)"
proof -
  note inv = hub_invD [OF assms(1)] and kept = lease_kept [OF assms(2), of live]
  obtain b where b: "oc_virtualIp oc = host b" using leased_host [OF assms(1) kept] by blast
  have eq: "h' = h\<lparr>hub_freeIps := hub_freeIps h @ [b], hub_dnsMap := gm_delete (oc_hostname oc) (hub_dnsMap h),
      hub_retentionMap := gm_delete cid (hub_retentionMap h)\<rparr>"
    using inv(2) b by (simp add: h'_def releaseIp_host removeDns_eq)
  show l: "lease live h' = (lease live h)(Kept cid := None)"
    by (auto simp: eq lease_def fun_eq_iff split: holder.split)
  show "hub_inv live h'"
    unfolding hub_inv_def l using inv lease_free [OF inv(7) kept [unfolded b]]
    by (auto simp: eq route_def)
  show "\<exists>b. oc_virtualIp oc = host b \<and> hub_freeIps h' = hub_freeIps h @ [b] \<and>
      gm_get (hub_dnsMap h') = (gm_get (hub_dnsMap h))(oc_hostname oc := None)"
    using b by (simp add: eq)
qed

lemma clean_step:
  "clean_loop now ((cid, oc) # rest) h =
     (if oc_expiry oc < now
      then clean_loop now rest ((removeDns (oc_hostname oc) (releaseIp (oc_virtualIp oc) h))
        \<lparr>hub_retentionMap := gm_delete cid (hub_retentionMap h)\<rparr>)
      else clean_loop now rest h)"
  by (simp add: releaseIp_def removeDns_def Let_def split: option.split)

lemma clean_loop_inv:
  assumes "hub_inv live h" and "distinct (map fst es)" and "\<forall>(cid, oc) \<in> set es. gm_get (hub_retentionMap h) cid = Some oc"
  shows "hub_inv live (clean_loop now es h) \<and>
    gm_get (hub_retentionMap (clean_loop now es h)) =
      (\<lambda>cid. if \<exists>oc. (cid, oc) \<in> set es \<and> oc_expiry oc < now then None else gm_get (hub_retentionMap h) cid) \<and>
    hub_heap (clean_loop now es h) = hub_heap h"
  using assms
proof (induction es arbitrary: h)
  case (Cons e es)
  obtain cid oc where e: "e = (cid, oc)" by (cases e)
  have get: "gm_get (hub_retentionMap h) cid = Some oc" using Cons.prems(3) e by auto
  show ?case
  proof (cases "oc_expiry oc < now")
    case True
    let ?h = "(removeDns (oc_hostname oc) (releaseIp (oc_virtualIp oc) h))\<lparr>hub_retentionMap := gm_delete cid (hub_retentionMap h)\<rparr>"
    have "hub_heap ?h = hub_heap h" by (simp add: removeDns_def releaseIp_def split: option.split)
    moreover have "\<forall>(cid', oc') \<in> set es. gm_get (hub_retentionMap ?h) cid' = Some oc'"
      using Cons.prems(2,3) e by (auto simp: rev_image_eqI)
    ultimately show ?thesis
      using Cons.IH [of ?h] Cons.prems(2) release_kept(1) [OF Cons.prems(1) get] True
      unfolding e clean_step by (auto simp: fun_eq_iff)
  next
    case False
    then show ?thesis
      using Cons.IH [of h] Cons.prems get unfolding e clean_step by (auto simp: fun_eq_iff dest: bspec)
  qed
qed simp

lemma cleanRetention_inv:
  assumes "hub_inv live h"
  shows "hub_inv live (cleanRetention now h)"
    and "gm_get (hub_retentionMap (cleanRetention now h)) cid =
      (case gm_get (hub_retentionMap h) cid of None \<Rightarrow> None | Some oc \<Rightarrow> if oc_expiry oc < now then None else Some oc)"
    and "hub_heap (cleanRetention now h) = hub_heap h"
proof -
  note inv = hub_invD [OF assms]
  have "\<forall>(cid, oc) \<in> set (hub_retentionMap h). gm_get (hub_retentionMap h) cid = Some oc"
    using inv(3) by (auto simp: gm_get_Some_iff)
  note loop = clean_loop_inv [OF assms inv(3) [unfolded gm_wf_def] this, of now, folded cleanRetention_def]
  then show "hub_inv live (cleanRetention now h)" "hub_heap (cleanRetention now h) = hub_heap h" by auto
  show "gm_get (hub_retentionMap (cleanRetention now h)) cid =
      (case gm_get (hub_retentionMap h) cid of None \<Rightarrow> None | Some oc \<Rightarrow> if oc_expiry oc < now then None else Some oc)"
    using loop by (simp add: gm_get_Some_iff [OF inv(3), symmetric] split: option.split)
qed

end
