(* ===== verification/HubUdp.thy ===== *)
theory HubUdp
  imports HubWs
begin

text \<open>
  The server's data plane, datagram by datagram: relaying (\<^verbatim>\<open>transfer\<close> in
  \<^verbatim>\<open>server.go\<close>), the UDP listeners and the batch writer (\<^verbatim>\<open>server_udp.go\<close>),
  hole punching (\<^verbatim>\<open>server_p2p.go\<close>) and DNS answers (\<^verbatim>\<open>server_dns.go\<close>). The
  sockets and the DNS message library are outside: a turn takes the datagram it reads, and the
  library is a parameter. A panic of the process is \<open>None\<close>.
\<close>

section \<open>Hole punching (server_p2p.go)\<close>

definition newP2PTask :: "bool \<Rightarrow> ip4 \<Rightarrow> ip4 \<Rightarrow> addrport \<Rightarrow> addrport \<Rightarrow> Hub \<Rightarrow> Hub" where
  "newP2PTask stop srcVip dstVip srcAddr dstAddr h =
     h\<lparr>hub_p2pTaskChan := fst (select_send stop
        \<lparr>pt_DstVip = dstVip, pt_Dst = dstAddr, pt_SrcVip = srcVip, pt_Src = srcAddr\<rparr> (hub_p2pTaskChan h))\<rparr>"

definition trySendControl :: "cref \<Rightarrow> GamePacket \<Rightarrow> Hub \<Rightarrow> Hub" where
  "trySendControl c gp h =
     set_client c ((client h c)\<lparr>controlChan := fst (try_send gp (controlChan (client h c)))\<rparr>) h"

text \<open>
  One \<^verbatim>\<open>TypeP2PCommand\<close> to client \<open>to\<close>: building its payload panics when the address has no
  IPv4 form.
\<close>

definition send_command :: "cref \<Rightarrow> ip4 \<Rightarrow> ip4 \<Rightarrow> addrport \<Rightarrow> byte \<Rightarrow> Hub \<Rightarrow> Hub option" where
  "send_command to src dst addr nt h =
     (case UDPAddrPortToBytes addr nt of
        None \<Rightarrow> None
      | Some payload \<Rightarrow> Some (trySendControl to (NewGamePacket src dst TypeP2PCommand payload) h))"

definition handleP2PCommand :: "cref \<Rightarrow> cref \<Rightarrow> P2PTask \<Rightarrow> Hub \<Rightarrow> Hub option" where
  "handleP2PCommand srcClient dstClient task h =
     (let srcAddr = dataAddr (client h srcClient); dstAddr = dataAddr (client h dstClient);
          srcNat = natType (client h srcClient); dstNat = natType (client h dstClient);
          D = pt_DstVip task; S = pt_SrcVip task
      in case (if srcNat = TypeSymmetric
               then send_command dstClient S D srcAddr srcNat
                      (trySendControl srcClient (NewGamePacket D S TypeP2PCheck []) h)
               else Some h) of
           None \<Rightarrow> None
         | Some h \<Rightarrow>
      case (if dstNat = TypeSymmetric
            then send_command srcClient D S dstAddr dstNat
                   (trySendControl dstClient (NewGamePacket S D TypeP2PCheck []) h)
            else Some h) of
        None \<Rightarrow> None
      | Some h \<Rightarrow>
      case (if dstNat = TypeCone then send_command srcClient D S dstAddr dstNat h else Some h) of
        None \<Rightarrow> None
      | Some h \<Rightarrow>
          if srcNat = TypeCone then send_command dstClient S D srcAddr srcNat h else Some h)"

text \<open>One turn of the scheduler; \<open>None\<close> inside is an empty queue, outside a panic.\<close>

definition handleP2PTask :: "Hub \<Rightarrow> Hub option option" where
  "handleP2PTask h =
     (case chan_recv (hub_p2pTaskChan h) of
        None \<Rightarrow> Some None
      | Some (task, ch) \<Rightarrow>
          let h = h\<lparr>hub_p2pTaskChan := ch\<rparr>;
              h = h\<lparr>hub_tm := tunnel_task (pt_SrcVip task) (pt_DstVip task) (hub_tm h)\<rparr>
          in case (gm_get (clientMap (hub_router h)) (pt_SrcVip task), gm_get (clientMap (hub_router h)) (pt_DstVip task)) of
               (Some srcClient, Some dstClient) \<Rightarrow>
                 (case handleP2PCommand srcClient dstClient task h of None \<Rightarrow> None | Some h \<Rightarrow> Some (Some h))
             | _ \<Rightarrow> Some (Some h))"

section \<open>Relaying (server.go)\<close>

definition updateAddrCheck :: "cref \<Rightarrow> addrport \<Rightarrow> Hub \<Rightarrow> Hub" where
  "updateAddrCheck c addr h =
     (if dataAddr (client h c) = addr then h else set_client c ((client h c)\<lparr>dataAddr := addr\<rparr>) h)"

text \<open>What became of a relayed packet: queued for sending, dropped, or the goroutine stopped.\<close>

datatype relayed = Relayed | Dropped | Stopped

definition transfer :: "bool \<Rightarrow> bool \<Rightarrow> transferPacket \<Rightarrow> Hub \<Rightarrow> Hub \<times> relayed" where
  "transfer stop stopTask tp h =
     (let dst = Destination (tp_gp tp); src = SourceVirtualIp (tp_gp tp);
          snapshot = hub_router h; srcIp = IpToKey src
      in case gm_get (clientMap snapshot) srcIp of
           None \<Rightarrow> (h, Dropped)
         | Some srcClient \<Rightarrow>
             let h = updateAddrCheck srcClient (tp_srcAddr tp) h
             in if the (To4 dst) ! 3 = 255 \<or> IsMulticast dst then (h, Dropped)
                else if Contains (hub_Subnet h) dst \<and> \<not> IsLoopback dst then
                  let dstIp = IpToKey (the (To4 dst))
                  in case gm_get (clientMap snapshot) dstIp of
                       None \<Rightarrow> (h, Dropped)
                     | Some c \<Rightarrow>
                         let dstAddr = dataAddr (client h c);
                             (tm, est) = ifEstablish srcIp dstIp (natType (client h srcClient)) (natType (client h c)) (hub_tm h);
                             h = h\<lparr>hub_tm := tm\<rparr>;
                             h = (if est then newP2PTask stopTask srcIp dstIp (tp_srcAddr tp) dstAddr h else h)
                         in if \<not> IsValid dstAddr then (h, Dropped)
                            else (case select_send stop
                                      \<lparr>pk_data = raw_bytes (tp_gp tp), pk_broadcast = False, pk_dstAddr = dstAddr\<rparr>
                                      (hub_packetChan h) of
                                    (ch, SelSent) \<Rightarrow> (h\<lparr>hub_packetChan := ch\<rparr>, Relayed)
                                  | (ch, SelDone) \<Rightarrow> (h, Stopped)
                                  | (ch, SelDefault) \<Rightarrow> (h, Dropped))
                else (h, Dropped))"

section \<open>DNS answers (server_dns.go)\<close>

text \<open>
  The DNS message library: unpacking, the names of the questions, a copy turned into a reply,
  the setters the code uses, the parser of a resource record, and packing.
\<close>

record ('m, 'r) dns_lib =
  dl_unpack :: "bytes \<Rightarrow> 'm result"
  dl_questions :: "'m \<Rightarrow> gostring list"
  dl_reply :: "'m \<Rightarrow> 'm"
  dl_authoritative :: "'m \<Rightarrow> 'm"
  dl_nameError :: "'m \<Rightarrow> 'm"
  dl_new :: "gostring \<Rightarrow> 'r result"
  dl_answer :: "'r \<Rightarrow> 'm \<Rightarrow> 'm"
  dl_pack :: "'m \<Rightarrow> bytes result"

definition buildDnsResponse :: "('m, 'r) dns_lib \<Rightarrow> bytes \<Rightarrow> Hub \<Rightarrow> bytes result" where
  "buildDnsResponse dl r h =
     (if length r < 2 then Inl (Code PacketTooShort)
      else case dl_unpack dl (drop 2 r) of
             Inl err \<Rightarrow> Inl err
           | Inr msg \<Rightarrow>
               (case dl_questions dl msg of
                  [] \<Rightarrow> Inl (Code ParseDNSError)
                | name # _ \<Rightarrow>
                    let msgResp = dl_reply dl msg;
                        dnsRes = getDns name (str ''.et'') h;
                        msgResp = dl_authoritative dl msgResp
                    in if dnsRes = [] then dl_pack dl (dl_nameError dl msgResp)
                       else case dl_new dl (name @ str '' 60 IN A '' @ ip_String dnsRes) of
                              Inl err \<Rightarrow> Inl (Code ParseDNSError)
                            | Inr rr \<Rightarrow>
                                (case dl_pack dl (dl_answer dl rr msgResp) of
                                   Inl err \<Rightarrow> Inl err
                                 | Inr data \<Rightarrow> Inr (take 2 r @ data))))"

section \<open>The UDP listeners and the writer (server_udp.go)\<close>

datatype disposed = Queued | CleanUp | Returned

text \<open>One datagram of the main socket. \<open>gp\<close> is the pooled packet; \<open>buf\<close>, \<open>pb\<close>, \<open>cb\<close> and \<open>eb\<close>
  are pool buffers.\<close>

definition listenUdp :: "lz4 \<Rightarrow> ('m, 'r) dns_lib \<Rightarrow> slice \<Rightarrow> slice \<Rightarrow> slice \<Rightarrow> slice \<Rightarrow> bool \<Rightarrow> addrport \<Rightarrow> bytes \<Rightarrow>
    GamePacket \<Rightarrow> Hub \<Rightarrow> GamePacket \<times> Hub \<times> disposed" where
  "listenUdp z dl buf pb cb eb stop srcAddrPort payload gp h =
     (case ParsePacket buf payload True None gp of
        (gp, Some err) \<Rightarrow> (gp\<lparr>RawData := None\<rparr>, h, CleanUp)
      | (gp, None) \<Rightarrow>
          let rawPType = clear_flag (PType gp)
          in if rawPType = TypePing then
               (gp\<lparr>RawData := None\<rparr>,
                case gm_get (clientMap (hub_router h)) (IpToKey (SourceVirtualIp gp)) of
                  None \<Rightarrow> h | Some c \<Rightarrow> updateAddrCheck c srcAddrPort h, CleanUp)
             else if rawPType = TypeDnsRequest then
               (case buildDnsResponse dl (Payload gp) h of
                  Inl err \<Rightarrow> (gp\<lparr>RawData := None\<rparr>, h, CleanUp)
                | Inr dnsResp \<Rightarrow>
                    let dnsGp = NewGamePacket ip4_zero (IpToKey (SourceVirtualIp gp)) TypeDnsResponse dnsResp;
                        data = (case EncodePacket z pb cb eb False False None dnsGp of
                                  (None, _, _) \<Rightarrow> [] | (Some d, _, _) \<Rightarrow> d);
                        p = \<lparr>pk_data = data, pk_broadcast = False, pk_dstAddr = srcAddrPort\<rparr>
                    in (gp\<lparr>RawData := None\<rparr>,
                        h\<lparr>hub_packetChan := fst (try_send p (hub_packetChan h))\<rparr>, CleanUp))
             else if rawPType = TypeData then
               (case select_send stop \<lparr>tp_gp = gp, tp_srcAddr = srcAddrPort\<rparr> (hub_transferChan h) of
                  (ch, SelSent) \<Rightarrow> (gp, h\<lparr>hub_transferChan := ch\<rparr>, Queued)
                | (ch, SelDone) \<Rightarrow> (gp, h, Returned)
                | (ch, SelDefault) \<Rightarrow> (gp\<lparr>RawData := None\<rparr>, h, CleanUp))
             else (gp\<lparr>RawData := None\<rparr>, h, CleanUp))"

text \<open>One datagram of the check socket.\<close>

definition listenCheck :: "addrport \<Rightarrow> bytes \<Rightarrow> GamePacket \<Rightarrow> Hub \<Rightarrow> (GamePacket \<times> Hub) option" where
  "listenCheck addrPort content gp h =
     (case ParseControl gp content of
        (gp, Some err) \<Rightarrow> Some (gp, h)
      | (gp, None) \<Rightarrow>
          if PType gp = TypeP2PCheck then
            let srcVip = IpToKey (SourceVirtualIp gp); dstVip = IpToKey (Destination gp)
            in case Exist srcVip dstVip (hub_tm h) of
                 None \<Rightarrow> Some (gp, h)
               | Some _ \<Rightarrow>
                   (case (gm_get (clientMap (hub_router h)) srcVip, gm_get (clientMap (hub_router h)) dstVip) of
                      (Some srcClient, Some dstClient) \<Rightarrow>
                        (case send_command dstClient srcVip dstVip addrPort (natType (client h srcClient)) h of
                           None \<Rightarrow> None
                         | Some h \<Rightarrow> Some (gp, h))
                    | _ \<Rightarrow> Some (gp, h))
          else Some (gp, h))"

text \<open>One batch: a first packet, then up to fifteen more without waiting.\<close>

fun drain :: "nat \<Rightarrow> 'a list \<Rightarrow> 'a chan \<Rightarrow> 'a list \<times> 'a chan" where
  "drain 0 batch ch = (batch, ch)"
| "drain (Suc n) batch ch =
     (case chan_recv ch of None \<Rightarrow> (batch, ch) | Some (p, ch') \<Rightarrow> drain n (batch @ [p]) ch')"

fun broadcast_msgs :: "Hub \<Rightarrow> bytes \<Rightarrow> cref list \<Rightarrow> (bytes \<times> addrport) list" where
  "broadcast_msgs h data [] = []"
| "broadcast_msgs h data (c # cs) =
     (if IsValid (dataAddr (client h c)) then [(data, dataAddr (client h c))] else []) @ broadcast_msgs h data cs"

fun batch_msgs :: "Hub \<Rightarrow> packet list \<Rightarrow> (bytes \<times> addrport) list" where
  "batch_msgs h [] = []"
| "batch_msgs h (p # ps) =
     (if pk_broadcast p then broadcast_msgs h (pk_data p) (clientSlice (hub_router h))
      else if IsValid (pk_dstAddr p) then [(pk_data p, pk_dstAddr p)] else []) @ batch_msgs h ps"

definition writeUdpPacket :: "Hub \<Rightarrow> (Hub \<times> (bytes \<times> addrport) list) option" where
  "writeUdpPacket h =
     (case chan_recv (hub_packetChan h) of
        None \<Rightarrow> None
      | Some (pa, ch) \<Rightarrow>
          (case drain 15 [pa] ch of (batch, ch) \<Rightarrow> Some (h\<lparr>hub_packetChan := ch\<rparr>, batch_msgs h batch)))"

section \<open>What relaying does\<close>

text \<open>The unicast addresses of the virtual network.\<close>

fun unicast :: "ip4 \<Rightarrow> bool" where
  "unicast (IP4 a b c d) \<longleftrightarrow> a = 10 \<and> b = 0 \<and> c = 6 \<and> d \<noteq> 255"

lemma unicast_conditions:
  "\<not> (ip4_bytes (gp_dst gp) ! 3 = 255 \<or> IsMulticast (Destination gp)) \<and>
     Contains subnet (Destination gp) \<and> \<not> IsLoopback (Destination gp) \<longleftrightarrow> unicast (gp_dst gp)"
  by (cases "gp_dst gp") (auto simp: IsMulticast_def IsLoopback_def Contains_def subnet_def mask_bytes_def)

text \<open>
  The specification of relaying: where a packet from a registered source to a unicast address
  of the network is sent. The source's own address is the one it has just been seen at.
\<close>

definition relay_target :: "transferPacket \<Rightarrow> Hub \<Rightarrow> addrport option" where
  "relay_target tp h =
     (case route h (gp_src (tp_gp tp)) of
        None \<Rightarrow> None
      | Some s \<Rightarrow>
          if unicast (gp_dst (tp_gp tp)) then
            (case route h (gp_dst (tp_gp tp)) of
               None \<Rightarrow> None
             | Some d \<Rightarrow>
                 let a = (if d = s then tp_srcAddr tp else dataAddr (client h d))
                 in if IsValid a then Some a else None)
          else None)"

definition routes_ok :: "Hub \<Rightarrow> bool" where
  "routes_ok h \<longleftrightarrow> ran (route h) \<subseteq> {..<length (hub_heap h)}"

lemma routes_okD: "routes_ok h \<Longrightarrow> route h k = Some c \<Longrightarrow> c < length (hub_heap h)"
  by (auto simp: routes_ok_def ran_def)

lemma updateAddrCheck_sel [simp]:
  "hub_packetChan (updateAddrCheck c a h) = hub_packetChan h" "hub_Subnet (updateAddrCheck c a h) = hub_Subnet h"
  "hub_tm (updateAddrCheck c a h) = hub_tm h" "hub_router (updateAddrCheck c a h) = hub_router h"
  "hub_p2pTaskChan (updateAddrCheck c a h) = hub_p2pTaskChan h"
  "hub_transferChan (updateAddrCheck c a h) = hub_transferChan h"
  by (simp_all add: updateAddrCheck_def set_client_def)

lemma updateAddrCheck_client:
  "c < length (hub_heap h) \<Longrightarrow>
   client (updateAddrCheck c a h) d = (if d = c then (client h c)\<lparr>dataAddr := a\<rparr> else client h d)"
  by (auto simp: updateAddrCheck_def set_client_def)

text \<open>The part of \<open>transfer\<close> after the source is known and the destination is found.\<close>

lemma transfer_unknown: "route h (gp_src (tp_gp tp)) = None \<Longrightarrow> transfer stop st tp h = (h, Dropped)"
  by (simp add: transfer_def route_def Let_def)

lemma transfer_no_target:
  assumes "hub_Subnet h = subnet" "route h (gp_src (tp_gp tp)) = Some s"
    and "\<not> unicast (gp_dst (tp_gp tp)) \<or> route h (gp_dst (tp_gp tp)) = None"
  shows "transfer stop st tp h = (updateAddrCheck s (tp_srcAddr tp) h, Dropped)"
  using assms unicast_conditions [of "tp_gp tp"]
  by (cases "gp_dst (tp_gp tp)") (auto simp: transfer_def route_def Let_def split: option.split)

definition relay_decision :: "bool \<Rightarrow> ip4 \<Rightarrow> ip4 \<Rightarrow> cref \<Rightarrow> cref \<Rightarrow> addrport \<Rightarrow> Hub \<Rightarrow> Hub" where
  "relay_decision st src dst s d srcAddr h =
     (let (tm, est) = ifEstablish src dst (natType (client h s)) (natType (client h d)) (hub_tm h);
          h = h\<lparr>hub_tm := tm\<rparr>
      in if est then newP2PTask st src dst srcAddr (dataAddr (client h d)) h else h)"

lemma relay_decision_sel [simp]:
  "hub_packetChan (relay_decision st src dst s d a h) = hub_packetChan h"
  "hub_router (relay_decision st src dst s d a h) = hub_router h"
  "hub_heap (relay_decision st src dst s d a h) = hub_heap h"
  by (simp_all add: relay_decision_def newP2PTask_def case_prod_beta Let_def)

lemma transfer_found:
  assumes "hub_Subnet h = subnet" "route h (gp_src (tp_gp tp)) = Some s" "unicast (gp_dst (tp_gp tp))"
    and "route h (gp_dst (tp_gp tp)) = Some d" and "h1 = updateAddrCheck s (tp_srcAddr tp) h"
    and "h2 = relay_decision st (gp_src (tp_gp tp)) (gp_dst (tp_gp tp)) s d (tp_srcAddr tp) h1"
  shows "transfer stop st tp h =
    (if \<not> IsValid (dataAddr (client h1 d)) then (h2, Dropped)
     else case select_send stop \<lparr>pk_data = raw_bytes (tp_gp tp), pk_broadcast = False, pk_dstAddr = dataAddr (client h1 d)\<rparr> (hub_packetChan h) of
            (ch, SelSent) \<Rightarrow> (h2\<lparr>hub_packetChan := ch\<rparr>, Relayed)
          | (ch, SelDone) \<Rightarrow> (h2, Stopped)
          | (ch, SelDefault) \<Rightarrow> (h2, Dropped))"
proof -
  have u: "\<not> (ip4_bytes (gp_dst (tp_gp tp)) ! 3 = 255 \<or> IsMulticast (Destination (tp_gp tp)))"
    "Contains (hub_Subnet h1) (Destination (tp_gp tp)) \<and> \<not> IsLoopback (Destination (tp_gp tp))"
    using assms(1,3,5) unicast_conditions [of "tp_gp tp"] by auto
  have pc: "hub_packetChan h1 = hub_packetChan h" by (simp add: assms(5))
  obtain tm est where e: "ifEstablish (gp_src (tp_gp tp)) (gp_dst (tp_gp tp)) (natType (client h1 s)) (natType (client h1 d)) (hub_tm h1) = (tm, est)"
    by fastforce
  then have h2: "h2 = (if est then newP2PTask st (gp_src (tp_gp tp)) (gp_dst (tp_gp tp)) (tp_srcAddr tp) (dataAddr (client h1 d)) (h1\<lparr>hub_tm := tm\<rparr>)
      else h1\<lparr>hub_tm := tm\<rparr>)"
    by (simp add: assms(6) relay_decision_def Let_def)
  show ?thesis
    using assms(2,4) u pc e unfolding h2
    by (cases est)
      (simp_all add: transfer_def Let_def route_def assms(5) [symmetric] newP2PTask_def)
qed

text \<open>
  C12. Relaying is correct: \<open>transfer\<close> queues a packet exactly when its source is registered, its
  destination is a unicast address of the network held by a registered client whose public
  address is known, and the queue has room; then exactly the received bytes are queued, once,
  for that client's public address. Otherwise nothing is queued.
\<close>

theorem transfer_relays:
  assumes "hub_Subnet h = subnet" and "routes_ok h" and "chan_open (hub_packetChan h)"
  shows "case relay_target tp h of
     None \<Rightarrow> snd (transfer False st tp h) = Dropped \<and> hub_packetChan (fst (transfer False st tp h)) = hub_packetChan h
   | Some a \<Rightarrow>
       if length (ch_items (hub_packetChan h)) < ch_cap (hub_packetChan h)
       then snd (transfer False st tp h) = Relayed \<and>
         ch_items (hub_packetChan (fst (transfer False st tp h))) =
           ch_items (hub_packetChan h) @ [\<lparr>pk_data = raw_bytes (tp_gp tp), pk_broadcast = False, pk_dstAddr = a\<rparr>]
       else snd (transfer False st tp h) = Dropped \<and> hub_packetChan (fst (transfer False st tp h)) = hub_packetChan h"
proof (cases "route h (gp_src (tp_gp tp))")
  case None
  then show ?thesis by (simp add: relay_target_def transfer_unknown)
next
  case (Some s)
  note s = this
  have len: "s < length (hub_heap h)" using routes_okD [OF assms(2) s] .
  show ?thesis
  proof (cases "unicast (gp_dst (tp_gp tp)) \<and> route h (gp_dst (tp_gp tp)) \<noteq> None")
    case False
    then have "relay_target tp h = None" using s by (auto simp: relay_target_def split: option.split)
    then show ?thesis using False s assms(1) by (auto simp: transfer_no_target)
  next
    case True
    then obtain d where d: "route h (gp_dst (tp_gp tp)) = Some d" by auto
    let ?a = "dataAddr (client (updateAddrCheck s (tp_srcAddr tp) h) d)"
    have t: "relay_target tp h = (if IsValid ?a then Some ?a else None)"
      using s d True len by (simp add: relay_target_def updateAddrCheck_client)
    have opn: "\<not> ch_closed (hub_packetChan h)" using assms(3) by (simp add: chan_open_def)
    show ?thesis
      using transfer_found [OF assms(1) s _ d refl refl, of False st] True opn
      by (simp add: t select_send_def try_send_def chan_send_def)
  qed
qed

section \<open>Hole punching\<close>

text \<open>The clients whose address a command names: those behind a NAT whose type is known.\<close>

definition punchable :: "Client \<Rightarrow> bool" where
  "punchable c \<longleftrightarrow> natType c = TypeCone \<or> natType c = TypeSymmetric"

definition no_ipv4 :: "addrport \<Rightarrow> bool" where
  "no_ipv4 a \<longleftrightarrow> As4 (ap_addr a) = None"

lemma send_command_eq:
  "send_command to src dst a nt h =
     (if no_ipv4 a then None else Some (trySendControl to (NewGamePacket src dst TypeP2PCommand (the (UDPAddrPortToBytes a nt))) h))"
  by (simp add: send_command_def UDPAddrPortToBytes_def no_ipv4_def split: option.split)

lemma handleP2PCommand_none:
  "handleP2PCommand s d task h = None \<longleftrightarrow>
     punchable (client h s) \<and> no_ipv4 (dataAddr (client h s)) \<or> punchable (client h d) \<and> no_ipv4 (dataAddr (client h d))"
proof -
  have "TypeCone \<noteq> TypeSymmetric" by (simp add: nat_type_defs)
  then show ?thesis
    by (cases "natType (client h s) = TypeSymmetric"; cases "natType (client h d) = TypeSymmetric";
        cases "no_ipv4 (dataAddr (client h s))"; cases "no_ipv4 (dataAddr (client h d))")
      (simp_all add: handleP2PCommand_def punchable_def Let_def send_command_eq)
qed

lemma option_kept_none: "(case x of None \<Rightarrow> None | Some y \<Rightarrow> Some (f y)) = None \<longleftrightarrow> x = None"
  by (cases x) simp_all

text \<open>
  C21. When the server process panics in its hole-punching code, exactly: the scheduler, when the
  task at the head of its queue names two registered clients and one of them, behind a NAT of a
  known type, has no IPv4 data address (it has sent no datagram yet, or its latest one came over
  IPv6); the check listener, when a well-formed check for an existing tunnel between registered
  clients comes from an address that has no IPv4 form.
\<close>

theorem server_panics_iff:
  "(handleP2PTask h = None \<longleftrightarrow>
      (\<exists>task rest s d. ch_items (hub_p2pTaskChan h) = task # rest \<and> route h (pt_SrcVip task) = Some s \<and> route h (pt_DstVip task) = Some d \<and>
         (punchable (client h s) \<and> no_ipv4 (dataAddr (client h s)) \<or> punchable (client h d) \<and> no_ipv4 (dataAddr (client h d))))) \<and>
   (listenCheck a content gp h = None \<longleftrightarrow>
      no_ipv4 a \<and> (\<exists>g. ParseControl gp content = (g, None) \<and> PType g = TypeP2PCheck \<and> Exist (gp_src g) (gp_dst g) (hub_tm h) \<noteq> None \<and>
         route h (gp_src g) \<noteq> None \<and> route h (gp_dst g) \<noteq> None))" (is "?task \<and> ?check")
proof
  show ?task
  proof (cases "ch_items (hub_p2pTaskChan h)")
    case (Cons task rest)
    then show ?thesis
      by (cases "route h (pt_SrcVip task)"; cases "route h (pt_DstVip task)")
        (simp_all add: handleP2PTask_def chan_recv_def route_def Let_def option_kept_none handleP2PCommand_none)
  qed (simp add: handleP2PTask_def chan_recv_def)
  show ?check
    by (cases "ParseControl gp content")
      (auto simp: listenCheck_def route_def send_command_eq Let_def split: option.split)
qed

text \<open>
  A packet to a client that has registered but never sent a datagram brings the server down:
  relaying it creates a hole-punching task before it notices that the destination's public
  address is unknown, and the scheduler panics while it encodes that address.
\<close>

lemma unknown_address_crash:
  assumes "hub_Subnet h = subnet" and "routes_ok h"
    and "route h (gp_src (tp_gp tp)) = Some s" and "route h (gp_dst (tp_gp tp)) = Some d" and "s \<noteq> d"
    and "unicast (gp_dst (tp_gp tp))"
    and "TypeUnknown < natType (client h s)" and "natType (client h d) = TypeCone \<or> natType (client h d) = TypeSymmetric"
    and "dataAddr (client h d) = addrport_zero"
    and "Exist (gp_src (tp_gp tp)) (gp_dst (tp_gp tp)) (hub_tm h) = None"
    and "hub_p2pTaskChan h = make_chan 32"
  shows "handleP2PTask (fst (transfer False False tp h)) = None"
proof -
  have s: "s < length (hub_heap h)" using routes_okD [OF assms(2,3)] .
  let ?S = "gp_src (tp_gp tp)" and ?D = "gp_dst (tp_gp tp)"
  define h1 where "h1 = updateAddrCheck s (tp_srcAddr tp) h"
  define h2 where "h2 = relay_decision False ?S ?D s d (tp_srcAddr tp) h1"
  have cl: "natType (client h1 s) = natType (client h s)" "client h1 d = client h d"
    using s assms(5) by (simp_all add: h1_def updateAddrCheck_client)
  have "\<not> IsValid (dataAddr (client h1 d))" by (simp add: cl assms(9) IsValid_def addrport_zero_def)
  then have t: "fst (transfer False False tp h) = h2"
    using transfer_found [OF assms(1,3,6,4) h1_def h2_def, of False] by simp
  have "\<not> (natType (client h1 s) \<le> TypeUnknown \<or> natType (client h1 d) \<le> TypeUnknown)"
    using assms(7,8) cl by (auto simp: nat_type_defs)
  then have e: "ifEstablish ?S ?D (natType (client h1 s)) (natType (client h1 d)) (hub_tm h1) =
      (AddTunnel ?S ?D TunnelInit (hub_tm h), True)"
    using assms(10) by (simp add: ifEstablish_def h1_def)
  then have tasks: "ch_items (hub_p2pTaskChan h2) =
      [\<lparr>pt_DstVip = ?D, pt_Dst = dataAddr (client h1 d), pt_SrcVip = ?S, pt_Src = tp_srcAddr tp\<rparr>]"
    using assms(11)
    by (simp add: h2_def relay_decision_def newP2PTask_def Let_def h1_def select_send_def try_send_def chan_send_def)
  have r: "gm_get (clientMap (hub_router h2)) ?S = Some s" "gm_get (clientMap (hub_router h2)) ?D = Some d"
    using assms(3,4) by (simp_all add: h2_def h1_def route_def)
  have heap: "client h2 = client h1" by (simp add: h2_def)
  have none: "UDPAddrPortToBytes (dataAddr (client h d)) x = None" for x
    by (simp add: assms(9) UDPAddrPortToBytes_def addrport_zero_def)
  show ?thesis
    unfolding t handleP2PTask_def chan_recv_def tasks using assms(8)
    by (auto simp: r Let_def handleP2PCommand_def send_command_def trySendControl_def none cl heap
        nat_type_defs fun_eq_iff split: option.split)
qed

text \<open>
  Two clients behind cone NATs are introduced to each other: each gets one command from the other's
  virtual address with the other's public address.
\<close>

abbreviation cone_payload :: "ip4 \<Rightarrow> addrport \<Rightarrow> bytes" where
  "cone_payload ip a \<equiv> ip4_bytes ip @ be16 (ap_port a) @ [TypeCone]"

lemma cone_payload_decoded:
  "BytesToIP (take 6 (cone_payload ip a)) = Some \<lparr>ua_IP = ip4_bytes ip, ua_Port = uint (ap_port a)\<rparr>" "drop 6 (cone_payload ip a) = [TypeCone]"
  by (cases ip; simp add: BytesToIP_def be16_def get_be16_split)+

lemma cone_commands:
  assumes "natType (client h s) = TypeCone" "natType (client h d) = TypeCone"
    and "As4 (ap_addr (dataAddr (client h s))) = Some ipS" "As4 (ap_addr (dataAddr (client h d))) = Some ipD"
  shows "handleP2PCommand s d task h =
    Some (trySendControl d (NewGamePacket (pt_SrcVip task) (pt_DstVip task) TypeP2PCommand (cone_payload ipS (dataAddr (client h s))))
      (trySendControl s (NewGamePacket (pt_DstVip task) (pt_SrcVip task) TypeP2PCommand (cone_payload ipD (dataAddr (client h d)))) h))"
proof -
  have "TypeCone \<noteq> TypeSymmetric" by (simp add: nat_type_defs)
  then show ?thesis using assms by (simp add: handleP2PCommand_def send_command_def UDPAddrPortToBytes_def Let_def)
qed

section \<open>The batch writer\<close>

lemma drain_take: "drain n batch ch = (batch @ take n (ch_items ch), ch\<lparr>ch_items := drop n (ch_items ch)\<rparr>)"
proof (induction n arbitrary: batch ch)
  case (Suc n)
  then show ?case by (cases "ch_items ch") (simp_all add: chan_recv_def)
qed simp

lemma writeUdpPacket_batch:
  "writeUdpPacket h =
     (if ch_items (hub_packetChan h) = [] then None
      else Some (h\<lparr>hub_packetChan := (hub_packetChan h)\<lparr>ch_items := drop 16 (ch_items (hub_packetChan h))\<rparr>\<rparr>,
                 batch_msgs h (take 16 (ch_items (hub_packetChan h)))))"
  by (cases "ch_items (hub_packetChan h)") (simp_all add: writeUdpPacket_def chan_recv_def drain_take)

text \<open>Turns of the writer until the queue is empty, with everything it sends.\<close>

function write_all :: "Hub \<Rightarrow> Hub \<times> (bytes \<times> addrport) list" where
  "write_all h = (case writeUdpPacket h of
       None \<Rightarrow> (h, [])
     | Some (h', msgs) \<Rightarrow> (case write_all h' of (h'', rest) \<Rightarrow> (h'', msgs @ rest)))"
  by pat_completeness auto

termination
  by (relation "measure (\<lambda>h. length (ch_items (hub_packetChan h)))")
    (auto simp: writeUdpPacket_batch split: if_splits)

declare write_all.simps [simp del]

lemma batch_msgs_append: "batch_msgs h (ps @ qs) = batch_msgs h ps @ batch_msgs h qs"
  by (induction ps) simp_all

lemma batch_msgs_frame: "batch_msgs (h\<lparr>hub_packetChan := ch\<rparr>) ps = batch_msgs h ps"
proof -
  have "broadcast_msgs (h\<lparr>hub_packetChan := ch\<rparr>) data cs = broadcast_msgs h data cs" for data cs
    by (induction cs) simp_all
  then show ?thesis by (induction ps) simp_all
qed

lemma write_all_batch: "snd (write_all h) = batch_msgs h (ch_items (hub_packetChan h)) \<and> ch_items (hub_packetChan (fst (write_all h))) = []"
proof (induction h rule: write_all.induct)
  case (1 h)
  show ?case
  proof (cases "ch_items (hub_packetChan h) = []")
    case True
    then show ?thesis by (simp add: write_all.simps [of h] writeUdpPacket_batch)
  next
    case False
    let ?h = "h\<lparr>hub_packetChan := (hub_packetChan h)\<lparr>ch_items := drop 16 (ch_items (hub_packetChan h))\<rparr>\<rparr>"
    have w: "writeUdpPacket h = Some (?h, batch_msgs h (take 16 (ch_items (hub_packetChan h))))"
      using False by (simp add: writeUdpPacket_batch)
    have "batch_msgs h (ch_items (hub_packetChan h)) =
        batch_msgs h (take 16 (ch_items (hub_packetChan h))) @ batch_msgs h (drop 16 (ch_items (hub_packetChan h)))"
      by (simp only: batch_msgs_append [symmetric] append_take_drop_id)
    then show ?thesis
      using 1 [OF w refl] by (simp add: write_all.simps [of h] w case_prod_beta batch_msgs_frame)
  qed
qed

text \<open>
  The writer loses and reorders nothing: run until its queue is empty, whatever the sizes of
  the batches, it sends for the queued packets in their order: a unicast packet once to its
  address, a broadcast packet to every client of the route table whose public address is known.
\<close>

lemma writer_sends_queue:
  "let sent = (\<lambda>p. if pk_broadcast p
                  then map (\<lambda>c. (pk_data p, dataAddr (client h c))) (filter (\<lambda>c. IsValid (dataAddr (client h c))) (clientSlice (hub_router h)))
                  else if IsValid (pk_dstAddr p) then [(pk_data p, pk_dstAddr p)] else [])
   in snd (write_all h) = concat (map sent (ch_items (hub_packetChan h))) \<and>
      ch_items (hub_packetChan (fst (write_all h))) = []"
proof -
  have b: "broadcast_msgs h data cs =
      map (\<lambda>c. (data, dataAddr (client h c))) (filter (\<lambda>c. IsValid (dataAddr (client h c))) cs)" for data cs
    by (induction cs) simp_all
  have "batch_msgs h ps = concat (map (\<lambda>p. if pk_broadcast p
      then map (\<lambda>c. (pk_data p, dataAddr (client h c))) (filter (\<lambda>c. IsValid (dataAddr (client h c))) (clientSlice (hub_router h)))
      else if IsValid (pk_dstAddr p) then [(pk_data p, pk_dstAddr p)] else []) ps)" for ps
    by (induction ps) (simp_all add: b)
  then show ?thesis using write_all_batch [of h] by (simp add: Let_def)
qed

section \<open>DNS\<close>

text \<open>A question for a dotless name of the domain is looked up under that name.\<close>

lemma cut_first_end: "d \<notin> set name \<Longrightarrow> cut_first (d # rest) (name @ d # rest) = name"
  by (induction name) auto

lemma getDns_plain:
  assumes "46 \<notin> set name" and "gm_get (hub_dnsMap h) name = Some ip"
  shows "getDns (name @ str ''.et.'') (str ''.et'') h = ip"
proof -
  have "str ''.et'' @ str ''.'' = (46 :: byte) # map of_char ''et.''" "str ''.et.'' = (46 :: byte) # map of_char ''et.''"
    by (simp_all add: of_char_def)
  then have "cut_first (str ''.et'' @ str ''.'') (name @ str ''.et.'') = name"
    using cut_first_end [OF assms(1)] by metis
  then show ?thesis using assms(2) by (simp add: getDns_def)
qed

text \<open>
  A positive DNS answer reaches the program that asked: for a registered name the server's reply
  starts with the port bytes of the request, and the packet the client builds from it goes to
  exactly that port and carries exactly the packed answer.
\<close>

lemma dns_answer_delivered:
  assumes "2 \<le> length r" and "dl_unpack dl (drop 2 r) = Inr msg" and "dl_questions dl msg = (name @ str ''.et.'') # qs"
    and "46 \<notin> set name" and "gm_get (hub_dnsMap h) name = Some ip" and "ip \<noteq> []"
    and "dl_new dl ((name @ str ''.et.'') @ str '' 60 IN A '' @ ip_String ip) = Inr rr"
    and "dl_pack dl (dl_answer dl rr (dl_authoritative dl (dl_reply dl msg))) = Inr data"
  shows "buildDnsResponse dl r h = Inr (take 2 r @ data) \<and>
    (\<exists>p. BuildDNSResponse (take 2 r @ data) localIp dnsIp = Inr p \<and>
         take 2 (drop 22 p) = take 2 r \<and> drop 28 p = data)"
proof -
  have r: "take 2 r = [r ! 0, r ! 1]" using assms(1) by (cases r rule: list.exhaust; cases "tl r") auto
  have g: "getDns (name @ str ''.et.'') (str ''.et'') h = ip" by (rule getDns_plain [OF assms(4,5)])
  have "buildDnsResponse dl r h = Inr (take 2 r @ data)"
    using assms g by (simp add: buildDnsResponse_def Let_def)
  moreover have "2 \<le> length (take 2 r @ data)" using assms(1) by simp
  from BuildDNSResponse_layout [OF this, of localIp dnsIp]
  have "\<exists>p. BuildDNSResponse (take 2 r @ data) localIp dnsIp = Inr p \<and> take 2 (drop 22 p) = take 2 r \<and> drop 28 p = data"
    by (simp add: r Let_def ip_header_def udp_segment_def)
  ultimately show ?thesis by blast
qed

text \<open>
  A negative DNS answer does not reach the program that asked: the server sends it without the
  port bytes, so the client takes the first two bytes of the DNS message, its identifier, for
  the port and drops them from the message.
\<close>

lemma nxdomain_port_lost:
  assumes "2 \<le> length r" and "dl_unpack dl (drop 2 r) = Inr msg" and "dl_questions dl msg = name # qs"
    and "getDns name (str ''.et'') h = []"
    and "dl_pack dl (dl_nameError dl (dl_authoritative dl (dl_reply dl msg))) = Inr data" and "2 \<le> length data"
  shows "buildDnsResponse dl r h = Inr data \<and>
    (\<exists>p. BuildDNSResponse data localIp dnsIp = Inr p \<and> take 2 (drop 22 p) = take 2 data \<and> drop 28 p = drop 2 data)"
proof -
  have "buildDnsResponse dl r h = Inr data"
    using assms by (simp add: buildDnsResponse_def Let_def)
  moreover have d: "take 2 data = [data ! 0, data ! 1]"
    using assms(6) by (cases data rule: list.exhaust; cases "tl data") auto
  ultimately show ?thesis
    using BuildDNSResponse_layout [OF assms(6), of localIp dnsIp] by (simp add: d Let_def ip_header_def udp_segment_def)
qed

text \<open>
  A name that itself contains the domain is registered but cannot be resolved: the lookup cuts
  the first occurrence of the domain out of the question, not the last.
\<close>

lemma dns_inner_domain:
  assumes "gm_get (hub_dnsMap h) (str ''a.et.b'') = Some ip" and "gm_get (hub_dnsMap h) (str ''ab.et.'') = None"
  shows "getDns (str ''a.et.b'' @ str ''.et.'') (str ''.et'') h = []"
  using assms(2) by (simp add: getDns_def of_char_def)

section \<open>Concrete instances\<close>

definition demo_addr :: "byte \<Rightarrow> addrport" where
  "demo_addr n = \<lparr>ap_addr = Addr4 (IP4 192 0 2 n), ap_port = 4000\<rparr>"

definition demo_peer :: "byte \<Rightarrow> byte \<Rightarrow> addrport \<Rightarrow> Client" where
  "demo_peer b nt addr = (newClient addr (host b))\<lparr>natType := nt\<rparr>"

text \<open>Two registered clients, 10.0.6.2 and 10.0.6.3, with a NAT type and public addresses.\<close>

definition demo_hub :: "byte \<Rightarrow> addrport \<Rightarrow> addrport \<Rightarrow> Hub" where
  "demo_hub nt a b = NewHub\<lparr>hub_heap := [demo_peer 2 nt a, demo_peer 3 nt b],
     hub_router := \<lparr>clientMap = [(IP4 10 0 6 2, 0), (IP4 10 0 6 3, 1)], clientSlice = [0, 1]\<rparr>\<rparr>"

definition demo_tp :: transferPacket where
  "demo_tp = \<lparr>tp_gp = gp_empty\<lparr>gp_src := IP4 10 0 6 2, gp_dst := IP4 10 0 6 3,
       RawData := Some \<lparr>sl_data = [1, 2, 3], sl_cap = 8\<rparr>\<rparr>, tp_srcAddr = demo_addr 1\<rparr>"

lemma demo_hub_sel [simp]:
  "hub_Subnet (demo_hub nt a b) = subnet" "hub_packetChan (demo_hub nt a b) = make_chan 128"
  "hub_p2pTaskChan (demo_hub nt a b) = make_chan 32" "hub_heap (demo_hub nt a b) = [demo_peer 2 nt a, demo_peer 3 nt b]"
  "hub_tm (demo_hub nt a b) = NewTunnelManager"
  by (simp_all add: demo_hub_def)

lemma demo_route: "route (demo_hub nt a b) = [IP4 10 0 6 2 \<mapsto> 0, IP4 10 0 6 3 \<mapsto> 1]"
  by (auto simp: route_def demo_hub_def fun_eq_iff)

lemma demo_routes_ok: "routes_ok (demo_hub nt a b)"
  by (auto simp: routes_ok_def demo_route ran_def split: if_splits)

lemma demo_tp_sel [simp]:
  "gp_src (tp_gp demo_tp) = IP4 10 0 6 2" "gp_dst (tp_gp demo_tp) = IP4 10 0 6 3" "raw_bytes (tp_gp demo_tp) = [1, 2, 3]"
  by (simp_all add: demo_tp_def raw_bytes_def gp_empty_def)

theorem transfer_relays_witness:
  "snd (transfer False False demo_tp (demo_hub TypeUnknown (demo_addr 1) (demo_addr 7))) = Relayed \<and>
   ch_items (hub_packetChan (fst (transfer False False demo_tp (demo_hub TypeUnknown (demo_addr 1) (demo_addr 7))))) =
     [\<lparr>pk_data = [1, 2, 3], pk_broadcast = False, pk_dstAddr = demo_addr 7\<rparr>]"
proof -
  have "relay_target demo_tp (demo_hub TypeUnknown (demo_addr 1) (demo_addr 7)) = Some (demo_addr 7)"
    by (simp add: relay_target_def demo_route demo_peer_def newClient_def IsValid_def) (simp add: demo_addr_def)
  with transfer_relays [where tp = demo_tp and st = False, OF demo_hub_sel(1) demo_routes_ok, of TypeUnknown "demo_addr 1" "demo_addr 7"]
  show ?thesis by simp
qed

text \<open>A DNS library whose messages are their question, with two header bytes when packed.\<close>

definition echo_dns :: "(gostring, gostring) dns_lib" where
  "echo_dns = \<lparr>dl_unpack = Inr, dl_questions = (\<lambda>m. [m]), dl_reply = id, dl_authoritative = id,
     dl_nameError = id, dl_new = Inr, dl_answer = (\<lambda>r m. m @ r), dl_pack = (\<lambda>m. Inr ([7, 9] @ m))\<rparr>"

definition demo_names :: Hub where
  "demo_names = NewHub\<lparr>hub_dnsMap := [(str ''pc'', host 2), (str ''a.et.b'', host 3)]\<rparr>"

lemma str_neq:
  "str ''pc'' \<noteq> (str ''a.et.b'' :: bytes)" "str ''pc'' \<noteq> (str ''ab.et.'' :: bytes)" "str ''a.et.b'' \<noteq> (str ''ab.et.'' :: bytes)"
  "(46 :: byte) \<notin> set (str ''pc'')"
  by (simp_all add: of_char_def)

end
