(* ===== verification/Server.thy ===== *)
theory Server
  imports Leases HubUdp
begin

text \<open>
  The running server: a step relation over the hub and the set of live connections, with one
  rule per loop of the program (connection accepted, control message read, control packet
  written, connection ended, retention swept, datagram read, check datagram read, packet relayed,
  batch written, hole-punching task taken), and what holds in every reachable state. The windows
  that the code leaves between two locks are shown by sequences of the parts of a handler.
\<close>

section \<open>Data-plane steps keep the leases\<close>

lemma same_leases_updateAddrCheck: "same_leases h (updateAddrCheck c a h)"
  by (simp add: updateAddrCheck_def same_leases_set_client)

lemma same_leases_trySendControl: "same_leases h (trySendControl c gp h)"
  unfolding trySendControl_def by (rule same_leases_set_client) simp_all

lemma same_leases_send_command: "send_command c s d a nt h = Some h' \<Longrightarrow> same_leases h h'"
  by (auto simp: send_command_def same_leases_trySendControl split: option.splits)

lemma same_leases_after_try: "same_leases (trySendControl c gp h) h' \<Longrightarrow> same_leases h h'"
  by (rule same_leases_trans [OF same_leases_trySendControl])

lemma same_leases_command: "handleP2PCommand s d task h = Some h' \<Longrightarrow> same_leases h h'"
  by (auto simp: handleP2PCommand_def Let_def dest!: same_leases_send_command same_leases_after_try
      intro: same_leases_trans split: option.splits if_splits)

lemma same_leases_frame:
  "same_leases h (h\<lparr>hub_p2pTaskChan := ch\<rparr>)" "same_leases h (h\<lparr>hub_packetChan := pc\<rparr>)"
  "same_leases h (h\<lparr>hub_transferChan := tc\<rparr>)"
  by (simp_all add: same_leases_def)

lemma tunnel_task_wf: "tm_wf tm \<Longrightarrow> tm_wf (tunnel_task a b tm)"
  using event_step_wf [of tm "TaskTaken a b"] by simp

lemma ifEstablish_wf: "tm_wf tm \<Longrightarrow> tm_wf (fst (ifEstablish a b x y tm))"
  using event_step_wf [of tm "DataSeen a b x y"] by simp

lemma same_leases_task:
  assumes "handleP2PTask h = Some (Some h')"
  shows "same_leases h h'"
proof -
  obtain task ch where "chan_recv (hub_p2pTaskChan h) = Some (task, ch)"
    using assms by (auto simp: handleP2PTask_def split: option.splits)
  define h1 where "h1 = h\<lparr>hub_p2pTaskChan := ch, hub_tm := tunnel_task (pt_SrcVip task) (pt_DstVip task) (hub_tm h)\<rparr>"
  have "same_leases h h1" by (simp add: h1_def same_leases_def tunnel_task_wf)
  moreover have "same_leases h1 h'"
    using assms \<open>chan_recv _ = _\<close>
    by (auto simp: handleP2PTask_def h1_def Let_def dest: same_leases_command split: option.splits)
  ultimately show ?thesis by (rule same_leases_trans)
qed

lemma same_leases_decision: "same_leases h (relay_decision st s d a b addr h)"
  using ifEstablish_wf
  by (auto simp: relay_decision_def newP2PTask_def Let_def same_leases_def case_prod_beta)

lemma same_leases_transfer: "same_leases h (fst (transfer stop st tp h))" if "hub_Subnet h = subnet"
proof (cases "route h (gp_src (tp_gp tp))")
  case None
  then show ?thesis by (simp add: transfer_unknown)
next
  case (Some s)
  show ?thesis
  proof (cases "unicast (gp_dst (tp_gp tp)) \<and> route h (gp_dst (tp_gp tp)) \<noteq> None")
    case False
    then show ?thesis
      using Some that by (auto simp: transfer_no_target same_leases_updateAddrCheck)
  next
    case True
    then obtain d where d: "route h (gp_dst (tp_gp tp)) = Some d" by auto
    let ?h2 = "relay_decision st (gp_src (tp_gp tp)) (gp_dst (tp_gp tp)) s d (tp_srcAddr tp) (updateAddrCheck s (tp_srcAddr tp) h)"
    have "same_leases h ?h2"
      by (rule same_leases_trans [OF same_leases_updateAddrCheck same_leases_decision])
    moreover from this have "same_leases h (?h2\<lparr>hub_packetChan := ch\<rparr>)" for ch
      using same_leases_frame(2) same_leases_trans by blast
    ultimately show ?thesis
      using transfer_found [OF that Some _ d refl refl, of stop st] True
      by (simp split: prod.split selected.split)
  qed
qed

lemma same_leases_listenUdp: "same_leases h (fst (snd (listenUdp z dl buf pb cb eb stop a payload gp h)))"
  by (simp add: listenUdp_def Let_def same_leases_updateAddrCheck same_leases_frame
      split: prod.split option.split sum.split selected.split)

lemma same_leases_listenCheck: "listenCheck a content gp h = Some (gp', h') \<Longrightarrow> same_leases h h'"
  by (auto simp: listenCheck_def Let_def dest: same_leases_send_command split: prod.splits option.splits if_splits)

lemma same_leases_write: "writeUdpPacket h = Some (h', msgs) \<Longrightarrow> same_leases h h'"
  by (auto simp: writeUdpPacket_batch same_leases_frame split: if_splits)

section \<open>The step relation\<close>

text \<open>
  A polite handshake: the first one on its connection, with an identifier that no other live
  client uses. The code demands neither; \<open>polite\<close> selects the runs in which clients behave so.
\<close>

definition polite_read :: "cref set \<Rightarrow> cref \<Rightarrow> ws_event \<Rightarrow> GamePacket \<Rightarrow> Hub \<Rightarrow> bool" where
  "polite_read live c ev gp h \<longleftrightarrow>
     (\<forall>data gp'. ev = WsBinary data \<longrightarrow> ParseControl gp data = (gp', None) \<longrightarrow> PType gp' = TypeHandshake \<longrightarrow>
        virtualIp (client h c) = [] \<and>
        (\<forall>d\<in>live. d \<noteq> c \<longrightarrow> virtualIp (client h d) \<noteq> [] \<longrightarrow> clientID (client h d) \<noteq> handshake_id (Payload gp')))"

type_synonym server = "cref set \<times> Hub"

inductive server_step :: "bool \<Rightarrow> lz4 \<Rightarrow> ('m, 'r) dns_lib \<Rightarrow> int \<Rightarrow> server \<Rightarrow> server \<Rightarrow> bool"
  for polite :: bool and z :: lz4 and dl :: "('m, 'r) dns_lib" and rt :: int where
  accept: "server_step polite z dl rt (live, h) (insert (fst (connect h)) live, snd (connect h))"
| control_read: "c \<in> live \<Longrightarrow> polite \<longrightarrow> polite_read live c ev gp h \<Longrightarrow>
    server_step polite z dl rt (live, h) (live, fst (snd (readPump stop c ev gp h)))"
| control_write: "c \<in> live \<Longrightarrow> writePump z pb cb buf w cl c h = Some (h', f, p) \<Longrightarrow>
    server_step polite z dl rt (live, h) (live, h')"
| ended: "c \<in> live \<Longrightarrow> server_step polite z dl rt (live, h) (live - {c}, disconnect rt now c h)"
| sweep: "server_step polite z dl rt (live, h) (live, cleanRetention now h)"
| datagram: "server_step polite z dl rt (live, h) (live, fst (snd (listenUdp z dl buf pb cb eb stop a payload gp h)))"
| check: "listenCheck a content gp h = Some (gp', h') \<Longrightarrow> server_step polite z dl rt (live, h) (live, h')"
| relay: "chan_recv (hub_transferChan h) = Some (tp, ch) \<Longrightarrow>
    server_step polite z dl rt (live, h) (live, fst (transfer stop st tp (h\<lparr>hub_transferChan := ch\<rparr>)))"
| batch: "writeUdpPacket h = Some (h', msgs) \<Longrightarrow> server_step polite z dl rt (live, h) (live, h')"
| task: "handleP2PTask h = Some (Some h') \<Longrightarrow> server_step polite z dl rt (live, h) (live, h')"

definition server_inv :: "server \<Rightarrow> bool" where
  "server_inv s \<longleftrightarrow> hub_inv (fst s) (snd s) \<and> routes_ok (snd s)"

lemma same_leases_routes: "same_leases h h' \<Longrightarrow> routes_ok h \<Longrightarrow> routes_ok h'"
  using same_leases_client(1) [of h h'] by (simp add: routes_ok_def same_leases_def route_def ran_def)

lemma server_inv_same: "same_leases h h' \<Longrightarrow> server_inv (live, h) \<Longrightarrow> server_inv (live, h')"
  by (simp add: server_inv_def same_leases_inv same_leases_routes)

lemma published_routes:
  assumes "gm_wf (clientMap (hub_router h))" "routes_ok h" "c < length (hub_heap h)"
  shows "routes_ok (published c h)"
proof -
  have "route (published c h) k = (if k = IpToKey (virtualIp (client h c)) then Some c else route h k)" for k
    using route_addClient [OF assms(1), of c k] by (simp add: published_def addDns_def route_def)
  moreover have "hub_heap (published c h) = hub_heap h" by (simp add: published_def addDns_def addClient_def Let_def)
  ultimately show ?thesis using assms(2,3) by (auto simp: routes_ok_def ran_def split: if_splits)
qed

lemma assign_frame:
  "hub_router (handshake_assign d c p h) = hub_router h"
  "length (hub_heap (handshake_assign d c p h)) = length (hub_heap h)"
  by (simp_all add: handshake_assign_def getIp_def Let_def split: option.split)

lemma handshake_server_inv:
  assumes "server_inv (live, h)" "c \<in> live"
  shows "server_inv (live, fst (handleHandshake stop c gp h))"
proof -
  have inv: "hub_inv live h" and r: "routes_ok h" using assms(1) by (auto simp: server_inv_def)
  let ?h = "handshake_assign (hub_dnsMap h) c (Payload gp) h"
  have ra: "routes_ok ?h" using r by (simp add: routes_ok_def assign_frame route_def ran_def)
  have "c < length (hub_heap ?h)" using hub_invD(6) [OF inv] assms(2) by (auto simp: assign_frame)
  moreover have "gm_wf (clientMap (hub_router ?h))" using hub_invD(1) [OF inv] by (simp add: assign_frame)
  ultimately have "routes_ok (published c ?h)" using published_routes ra by blast
  then have "routes_ok (send_control stop c g (published c ?h))" for g
    by (rule same_leases_routes [OF same_leases_send_control])
  then have "routes_ok (fst (handleHandshake stop c gp h))"
    using r ra by (simp add: handleHandshake_def handshake_publish_eq Let_def)
  then show ?thesis using handleHandshake_inv [OF inv assms(2)] by (simp add: server_inv_def)
qed

lemma message_server_inv:
  assumes "server_inv (live, h)" "c \<in> live"
  shows "server_inv (live, fst (HandleWSMessage stop c gp h))"
  using handshake_server_inv [OF assms] server_inv_same [OF _ assms(1)] handleNoiseHandshake_same handleP2P_same assms(1)
  by (auto simp: HandleWSMessage_def split: option.split WSHandler.split)

lemma read_server_inv:
  assumes "server_inv (live, h)" "c \<in> live"
  shows "server_inv (live, fst (snd (readPump stop c ev gp h)))"
  by (cases rule: readPump_cases [of h stop c ev gp])
    (use server_inv_same [OF _ assms(1)] message_server_inv [OF assms] in auto)

lemma accept_server_inv:
  assumes "server_inv (live, h)"
  shows "server_inv (insert (fst (connect h)) live, snd (connect h))"
proof -
  have "route (snd (connect h)) = route h" by (simp add: connect_def route_def fun_eq_iff)
  moreover have "length (hub_heap (snd (connect h))) = Suc (length (hub_heap h))" by (simp add: connect_def)
  ultimately show ?thesis
    using assms connect_inv(1) [of live h] by (auto simp: server_inv_def routes_ok_def)
qed

lemma ended_server_inv:
  assumes "server_inv (live, h)" "c \<in> live"
  shows "server_inv (live - {c}, disconnect rt now c h)"
proof -
  have inv: "hub_inv live h" and r: "routes_ok h" using assms(1) by (auto simp: server_inv_def)
  have wf: "gm_wf (clientMap (hub_router (retain rt now c h)))" using hub_invD(1) [OF inv] by (simp add: retain_def)
  have heap: "hub_heap (disconnect rt now c h) = hub_heap h"
    by (simp add: disconnect_def removeClient_def retain_def Let_def split: option.split)
  have "ran (route (disconnect rt now c h)) \<subseteq> ran (route h)"
    using route_removeClient [OF wf, of c] by (auto simp: disconnect_def ran_def retain_def route_def split: if_splits)
  then have "routes_ok (disconnect rt now c h)" using r heap by (auto simp: routes_ok_def)
  then show ?thesis using disconnect_inv [OF inv assms(2)] by (simp add: server_inv_def)
qed

lemma sweep_server_inv:
  assumes "server_inv (live, h)"
  shows "server_inv (live, cleanRetention now h)"
proof -
  have inv: "hub_inv live h" and r: "routes_ok h" using assms by (auto simp: server_inv_def)
  have "hub_router (clean_loop now es g) = hub_router g" for es g
    by (induction es arbitrary: g) (auto simp: releaseIp_def removeDns_def Let_def split: option.split)
  then show ?thesis
    using cleanRetention_inv(1,3) [OF inv, of now] r
    by (simp add: server_inv_def routes_ok_def route_def ran_def cleanRetention_def)
qed

lemma server_step_inv: "server_step polite z dl rt s t \<Longrightarrow> server_inv s \<Longrightarrow> server_inv t"
proof (induction rule: server_step.induct)
  case (relay h tp ch live stop st)
  then have "server_inv (live, h\<lparr>hub_transferChan := ch\<rparr>)" using server_inv_same [OF same_leases_frame(3)] by blast
  moreover have "hub_Subnet (h\<lparr>hub_transferChan := ch\<rparr>) = subnet" using relay.prems hub_invD(5) [of live h] by (simp add: server_inv_def)
  ultimately show ?case using server_inv_same [OF same_leases_transfer] by blast
qed (simp_all add: accept_server_inv read_server_inv ended_server_inv sweep_server_inv
    server_inv_same [OF writePump_same] server_inv_same [OF same_leases_listenUdp]
    server_inv_same [OF same_leases_listenCheck] server_inv_same [OF same_leases_write] server_inv_same [OF same_leases_task])

interpretation server_run: preserved "server_step polite z dl rt" server_inv for polite z dl rt
  by unfold_locales (rule server_step_inv)

lemma server_inv_new: "server_inv ({}, NewHub)"
  by (simp add: server_inv_def NewHub_inv routes_ok_def route_def ran_def)

lemma reachable_inv: "(server_step polite z dl rt)\<^sup>*\<^sup>* ({}, NewHub) s \<Longrightarrow> server_inv s"
  using server_run.reach_inv server_inv_new by blast


section \<open>Nothing is lost when clients behave\<close>

text \<open>Identifiers: a live client with an address shares its identifier with no one.\<close>

definition ids_ok :: "cref set \<Rightarrow> Hub \<Rightarrow> bool" where
  "ids_ok live h \<longleftrightarrow>
     (\<forall>c v. lease live h (Live c) = Some v \<longrightarrow> lease live h (Kept (clientID (client h c))) = None \<and>
        (\<forall>d w. lease live h (Live d) = Some w \<longrightarrow> clientID (client h d) = clientID (client h c) \<longrightarrow> d = c))"

definition polite_inv :: "server \<Rightarrow> bool" where
  "polite_inv s \<longleftrightarrow> server_inv s \<and> ids_ok (fst s) (snd s) \<and>
     lease_complete (lease (fst s) (snd s)) (hub_freeIps (snd s)) (gm_get (hub_dnsMap (snd s)))"

lemma lease_live: "lease live h (Live c) = Some v \<Longrightarrow> c \<in> live \<and> virtualIp (client h c) \<noteq> []"
  by (auto simp: lease_def split: if_splits)

lemma polite_same:
  assumes "same_leases h h'" "polite_inv (live, h)"
  shows "polite_inv (live, h')"
proof -
  have sub: "live \<subseteq> {..<length (hub_heap h)}" using assms(2) hub_invD(6) by (auto simp: polite_inv_def server_inv_def)
  note l = same_leases_lease [OF assms(1) sub]
  have "clientID (client h' c) = clientID (client h c)" if "lease live h (Live c) = Some v" for c v
    using that lease_live [OF that] sub same_leases_client(4) [OF assms(1)] by blast
  then have "ids_ok live h'" using assms(2) by (auto simp: polite_inv_def ids_ok_def l)
  then show ?thesis
    using assms server_inv_same [OF assms(1)] by (simp add: polite_inv_def l same_leases_def)
qed

lemma polite_accept:
  assumes "polite_inv (live, h)"
  shows "polite_inv (insert (fst (connect h)) live, snd (connect h))"
proof -
  have inv: "hub_inv live h" using assms by (simp add: polite_inv_def server_inv_def)
  note l = connect_inv(2) [OF inv]
  have "clientID (client (snd (connect h)) c) = clientID (client h c)" if "lease live h (Live c) = Some v" for c v
    using lease_live [OF that] hub_invD(6) [OF inv] by (auto simp: connect_def nth_append)
  then have "ids_ok (insert (fst (connect h)) live) (snd (connect h))"
    using assms by (auto simp: polite_inv_def ids_ok_def l)
  then show ?thesis
    using assms accept_server_inv [of live h] by (simp add: polite_inv_def l) (simp add: connect_def)
qed

lemma polite_ended:
  assumes "polite_inv (live, h)" "c \<in> live"
  shows "polite_inv (live - {c}, disconnect rt now c h)"
proof (cases "lease live h (Live c)")
  case None
  then have "virtualIp (client h c) = []" using assms(2) by (auto simp: lease_def split: if_splits)
  then have d: "disconnect rt now c h = h" by (simp add: disconnect_def)
  have l: "lease (live - {c}) h = lease live h" using disconnect_lease [OF assms(2), of rt now h] None d by simp
  show ?thesis
    using assms ended_server_inv [of live h c rt now] d l by (simp add: polite_inv_def ids_ok_def)
next
  case (Some v)
  let ?h = "disconnect rt now c h" and ?cid = "clientID (client h c)"
  have l: "lease (live - {c}) ?h = (lease live h)(Live c := None, Kept ?cid := Some v)"
    using disconnect_lease [OF assms(2), of rt now h] Some by simp
  have heap: "hub_heap ?h = hub_heap h" "hub_freeIps ?h = hub_freeIps h" "hub_dnsMap ?h = hub_dnsMap h"
    by (simp_all add: disconnect_def removeClient_def retain_def Let_def split: option.split)
  have ids: "ids_ok live h" using assms(1) by (simp add: polite_inv_def)
  have kept: "lease live h (Kept ?cid) = None" using ids Some by (auto simp: ids_ok_def)
  have "ids_ok (live - {c}) ?h"
    using ids Some unfolding ids_ok_def l heap by (auto split: if_splits)
  moreover have "lease_complete (lease (live - {c}) ?h) (hub_freeIps ?h) (gm_get (hub_dnsMap ?h))"
    unfolding l heap using assms(1) Some kept by (intro complete_move) (auto simp: polite_inv_def)
  ultimately show ?thesis
    using assms ended_server_inv [of live h c rt now] by (simp add: polite_inv_def)
qed

lemma clean_loop_polite:
  assumes "hub_inv live h" "ids_ok live h" "lease_complete (lease live h) (hub_freeIps h) (gm_get (hub_dnsMap h))"
    and "distinct (map fst es)" "\<forall>(cid, oc) \<in> set es. gm_get (hub_retentionMap h) cid = Some oc"
  shows "ids_ok live (clean_loop now es h) \<and>
    lease_complete (lease live (clean_loop now es h)) (hub_freeIps (clean_loop now es h)) (gm_get (hub_dnsMap (clean_loop now es h)))"
  using assms
proof (induction es arbitrary: h)
  case (Cons e es)
  obtain cid oc where e: "e = (cid, oc)" by (cases e)
  have get: "gm_get (hub_retentionMap h) cid = Some oc" using Cons.prems(5) e by auto
  show ?case
  proof (cases "oc_expiry oc < now")
    case True
    define h' where "h' = (removeDns (oc_hostname oc) (releaseIp (oc_virtualIp oc) h))\<lparr>hub_retentionMap := gm_delete cid (hub_retentionMap h)\<rparr>"
    note rel = release_kept [OF Cons.prems(1) get, folded h'_def]
    obtain b where b: "oc_virtualIp oc = host b" "hub_freeIps h' = hub_freeIps h @ [b]"
      "gm_get (hub_dnsMap h') = (gm_get (hub_dnsMap h))(oc_hostname oc := None)"
      using rel(3) by blast
    have heap: "hub_heap h' = hub_heap h" by (simp add: h'_def removeDns_def releaseIp_def split: option.split)
    have "lease_complete (lease live h') (hub_freeIps h') (gm_get (hub_dnsMap h'))"
      unfolding rel(2) b using Cons.prems(3) hub_invD(7) [OF Cons.prems(1)] lease_kept [OF get] b(1)
      by (intro complete_free) simp_all
    moreover have "ids_ok live h'" using Cons.prems(2) unfolding ids_ok_def rel(2) heap by auto
    moreover have "\<forall>(cid', oc') \<in> set es. gm_get (hub_retentionMap h') cid' = Some oc'"
      using Cons.prems(4,5) e by (auto simp: h'_def rev_image_eqI)
    ultimately show ?thesis
      using Cons.IH [OF rel(1)] Cons.prems(4) True unfolding e clean_step h'_def [symmetric] by simp
  next
    case False
    then show ?thesis using Cons.IH [of h] Cons.prems unfolding e clean_step by simp
  qed
qed simp

lemma polite_sweep:
  assumes "polite_inv (live, h)"
  shows "polite_inv (live, cleanRetention now h)"
proof -
  have inv: "hub_inv live h" using assms by (simp add: polite_inv_def server_inv_def)
  have "\<forall>(cid, oc) \<in> set (hub_retentionMap h). gm_get (hub_retentionMap h) cid = Some oc"
    using hub_invD(3) [OF inv] by (auto simp: gm_get_Some_iff)
  then show ?thesis
    using assms sweep_server_inv [of live h now] clean_loop_polite [OF inv _ _ hub_invD(3) [OF inv, unfolded gm_wf_def], of now]
    by (simp add: polite_inv_def cleanRetention_def)
qed

lemma published_frame:
  "hub_heap (published c h) = hub_heap h" "hub_freeIps (published c h) = hub_freeIps h"
  "lease live (published c h) = lease live h"
  by (simp_all add: published_def addDns_def addClient_def Let_def lease_frame)

lemma published_dns:
  "gm_wf (hub_dnsMap h) \<Longrightarrow>
   gm_get (hub_dnsMap (published c h)) = (gm_get (hub_dnsMap h))(hostname (client h c) \<mapsto> virtualIp (client h c))"
  by (simp add: published_def addDns_def addClient_def Let_def)

lemma assign_ids:
  assumes "ids_ok live h" "c < length (hub_heap h)" "lease live h (Live c) = None"
    and "\<And>d v. lease live h (Live d) = Some v \<Longrightarrow> clientID (client h d) \<noteq> handshake_id p"
    and "lease live (handshake_assign D c p h) = (lease live h)(Kept (handshake_id p) := None, Live c := v)"
  shows "ids_ok live (handshake_assign D c p h)"
proof -
  have me: "clientID (client (handshake_assign D c p h) c) = handshake_id p"
    using assms(2) by (simp add: handshake_assign_def getIp_def Let_def split: option.split)
  have others: "client (handshake_assign D c p h) d = client h d" if "d \<noteq> c" for d
    using that by (simp add: handshake_assign_def getIp_def set_client_def Let_def split: option.split)
  show ?thesis
    unfolding ids_ok_def
  proof (intro allI impI conjI)
    fix d v'
    assume "lease live (handshake_assign D c p h) (Live d) = Some v'"
    then have d: "d = c \<or> lease live h (Live d) = Some v'" unfolding assms(5) by (auto split: if_splits)
    then show "lease live (handshake_assign D c p h) (Kept (clientID (client (handshake_assign D c p h) d))) = None"
      using assms(1,3,4) me others unfolding ids_ok_def assms(5) by (cases "d = c") auto
    fix e w
    assume "lease live (handshake_assign D c p h) (Live e) = Some w"
      and eq: "clientID (client (handshake_assign D c p h) e) = clientID (client (handshake_assign D c p h) d)"
    then have e: "e = c \<or> lease live h (Live e) = Some w" unfolding assms(5) by (auto split: if_splits)
    show "e = d"
    proof (cases "d = c \<or> e = c")
      case True
      then show ?thesis using d e eq me others assms(4) by metis
    next
      case False
      then show ?thesis using d e eq others assms(1) unfolding ids_ok_def by metis
    qed
  qed
qed

lemma polite_published:
  assumes "server_inv (live, h)" "pub_ready live c (handshake_assign D c p h)" "ids_ok live (handshake_assign D c p h)"
    and "lease_complete (lease live (handshake_assign D c p h)) (hub_freeIps (handshake_assign D c p h))
      ((gm_get (hub_dnsMap (handshake_assign D c p h)))(hostname (client (handshake_assign D c p h) c) \<mapsto>
        virtualIp (client (handshake_assign D c p h) c)))"
  shows "polite_inv (live, send_control stop c g (published c (handshake_assign D c p h)))"
proof (rule polite_same [OF same_leases_send_control])
  let ?h = "handshake_assign D c p h"
  have inv: "hub_inv live h" and r: "routes_ok h" using assms(1) by (auto simp: server_inv_def)
  have "routes_ok ?h" using r by (simp add: routes_ok_def assign_frame route_def ran_def)
  moreover have "c < length (hub_heap ?h)" "gm_wf (clientMap (hub_router ?h))"
    using assms(2) by (auto simp: pub_ready_def)
  ultimately have "server_inv (live, published c ?h)"
    using published_inv [OF assms(2)] published_routes by (simp add: server_inv_def)
  then show "polite_inv (live, published c ?h)"
    using assms(2-4) published_dns [of ?h c] by (simp add: polite_inv_def published_frame ids_ok_def pub_ready_def)
qed

lemma polite_handshake:
  assumes "polite_inv (live, h)" "c \<in> live" "virtualIp (client h c) = []"
    and "\<forall>d\<in>live. d \<noteq> c \<longrightarrow> virtualIp (client h d) \<noteq> [] \<longrightarrow> clientID (client h d) \<noteq> handshake_id (Payload gp)"
    and "49 \<le> length (Payload gp)"
  shows "polite_inv (live, fst (handleHandshake stop c gp h))"
proof -
  have inv: "hub_inv live h" and srv: "server_inv (live, h)" and ids: "ids_ok live h"
    and cpl: "lease_complete (lease live h) (hub_freeIps h) (gm_get (hub_dnsMap h))"
    using assms(1) by (auto simp: polite_inv_def server_inv_def)
  let ?p = "Payload gp" let ?h = "handshake_assign (hub_dnsMap h) c ?p h"
  have c: "c < length (hub_heap h)" using hub_invD(6) [OF inv] assms(2) by blast
  have free: "lease live h (Live c) = None" using assms(3) by (simp add: lease_def)
  have other: "clientID (client h d) \<noteq> handshake_id ?p" if "lease live h (Live d) = Some v" for d v
    using assms(3,4) lease_live [OF that] by auto
  have ids': "ids_ok live ?h" if "lease live ?h = (lease live h)(Kept (handshake_id ?p) := None, Live c := v)" for v
    using assign_ids [OF ids c free _ that] other by blast
  have drop: "(lease live h)(Kept (handshake_id ?p) := None) = lease live h"
    if "gm_get (hub_retentionMap h) (handshake_id ?p) = None"
    using that by (simp add: lease_def fun_eq_iff)
  from inv assms(2,5) show ?thesis
  proof (cases rule: handleHandshake_cases [where stop = stop])
    case (kept oc)
    note l = pub_ready_kept(2) [OF inv assms(2) kept(1), of "hub_dnsMap h"]
    have "lease_complete (lease live ?h) (hub_freeIps h) (gm_get (hub_dnsMap h))"
      unfolding l using cpl lease_kept [OF kept(1)] free by (intro complete_move) simp_all
    moreover have "gm_get (hub_dnsMap h) (oc_hostname oc) = Some (oc_virtualIp oc)"
      using leased_host [OF inv lease_kept [OF kept(1)]] by metis
    ultimately show ?thesis
      using polite_published [OF srv kept(3) ids' [OF l]] kept(1,2) c by (simp add: assign_kept map_upd_triv)
  next
    case (fresh fs b)
    note l = pub_ready_fresh(2) [OF inv assms(2) fresh(1,2)]
    have "lease_complete (lease live ?h) fs ((gm_get (hub_dnsMap h))(UniqueHostName (drop 49 ?p) (hub_dnsMap h) \<mapsto> host b))"
      unfolding l using cpl fresh(2) free by (intro complete_new) simp_all
    then show ?thesis
      using polite_published [OF srv fresh(4) ids'] l drop [OF fresh(1)] fresh(1-3) c hub_invD(5) [OF inv]
      by (simp add: assign_fresh)
  next
    case full
    note l = assign_empty_inv(2) [OF inv assms(2) full(1,2), of "hub_dnsMap h"]
    then have "ids_ok live ?h" "lease live ?h = lease live h"
      using ids' [of None] drop [OF full(1)] free by (simp_all add: fun_upd_idem)
    then show ?thesis
      using handshake_server_inv [OF srv assms(2), of stop gp] cpl full hub_invD(5) [OF inv]
      by (simp add: polite_inv_def assign_empty)
  qed
qed

lemma default_handlers:
  "gm_get (hub_wsHandlers NewHub) t =
     (if t = TypeHandshake then Some handle_Handshake
      else if t = TypeNoiseHandshake then Some handle_NoiseHandshake
      else if t = TypeP2PEstablished then Some handle_P2PEstablished
      else if t = TypeP2PClosed then Some handle_P2PClosed else None)"
  by (auto simp: NewHub_def registerDefaultWSHandlers_def RegisterWSHandler_def Let_def type_defs)

lemma message_handler:
  assumes "hub_inv live h"
  shows "HandleWSMessage stop c gp h =
    (if PType gp = TypeHandshake then handleHandshake stop c gp h
     else if PType gp = TypeNoiseHandshake then handleNoiseHandshake stop c gp h
     else if PType gp = TypeP2PEstablished then handleP2PEstablished c gp h
     else if PType gp = TypeP2PClosed then handleP2PClosed c gp h else (h, None))"
  using hub_invD(9) [OF assms] by (simp add: HandleWSMessage_def default_handlers)

lemma polite_reading:
  assumes "polite_inv (live, h)" "c \<in> live" "polite_read live c ev gp h"
  shows "polite_inv (live, fst (snd (readPump stop c ev gp h)))"
proof (cases rule: readPump_cases [of h stop c ev gp])
  case same
  then show ?thesis using polite_same assms(1) by blast
next
  case (message gp' data)
  have inv: "hub_inv live h" using assms(1) by (simp add: polite_inv_def server_inv_def)
  show ?thesis
  proof (cases "PType gp' = TypeHandshake \<and> 49 \<le> length (Payload gp')")
    case True
    then have "polite_inv (live, fst (handleHandshake stop c gp' h))"
      using assms message(1,2) by (intro polite_handshake) (auto simp: polite_read_def)
    then show ?thesis using True message(4) message_handler [OF inv] by simp
  next
    case False
    have "same_leases h (fst (HandleWSMessage stop c gp' h))"
      using False handleNoiseHandshake_same handleP2P_same
      by (auto simp: message_handler [OF inv] handleHandshake_def)
    then show ?thesis using polite_same assms(1) message(4) by simp
  qed
qed

lemma polite_step_inv: "server_step True z dl rt s t \<Longrightarrow> polite_inv s \<Longrightarrow> polite_inv t"
proof (induction rule: server_step.induct)
  case (relay h tp ch live stop st)
  then have "polite_inv (live, h\<lparr>hub_transferChan := ch\<rparr>)" using polite_same [OF same_leases_frame(3)] by blast
  moreover have "hub_Subnet (h\<lparr>hub_transferChan := ch\<rparr>) = subnet"
    using relay.prems hub_invD(5) [of live h] by (simp add: polite_inv_def server_inv_def)
  ultimately show ?case using polite_same [OF same_leases_transfer] by blast
qed (simp_all add: polite_accept polite_reading polite_ended polite_sweep
    polite_same [OF writePump_same] polite_same [OF same_leases_listenUdp]
    polite_same [OF same_leases_listenCheck] polite_same [OF same_leases_write] polite_same [OF same_leases_task])

interpretation polite_run: preserved "server_step True z dl rt" polite_inv for z dl rt
  by unfold_locales (rule polite_step_inv)

lemma polite_inv_new: "polite_inv ({}, NewHub)"
  using NewHub_complete server_inv_new by (simp add: polite_inv_def ids_ok_def lease_def)

text \<open>
  C13. No address is lost when clients behave: if every connection sends one handshake and live clients
  use different identifiers, then in every reachable state each of the 253 pool addresses is
  free, or held by a live client, or retained for an offline one, and every entry of the name
  table belongs to such a holder.
\<close>

theorem server_no_leak:
  assumes "(server_step True z dl rt)\<^sup>*\<^sup>* ({}, NewHub) (live, h)"
  shows "(\<forall>b\<in>pool. b \<in> set (hub_freeIps h) \<or> (\<exists>c\<in>live. virtualIp (client h c) = host b) \<or>
      (\<exists>cid oc. gm_get (hub_retentionMap h) cid = Some oc \<and> oc_virtualIp oc = host b)) \<and>
    (\<forall>n ip. gm_get (hub_dnsMap h) n = Some ip \<longrightarrow>
      (\<exists>c\<in>live. hostname (client h c) = n \<and> virtualIp (client h c) = ip) \<or>
      (\<exists>cid oc. gm_get (hub_retentionMap h) cid = Some oc \<and> oc_hostname oc = n \<and> oc_virtualIp oc = ip))"
proof -
  have "polite_inv (live, h)" using polite_run.reach_inv [OF assms polite_inv_new] .
  then have c: "host ` pool \<subseteq> host ` set (hub_freeIps h) \<union> fst ` ran (lease live h)"
    "{(ip, n). gm_get (hub_dnsMap h) n = Some ip} \<subseteq> ran (lease live h)"
    by (simp_all add: polite_inv_def lease_complete_def)
  have held: "(\<exists>c\<in>live. hostname (client h c) = n \<and> virtualIp (client h c) = ip) \<or>
      (\<exists>cid oc. gm_get (hub_retentionMap h) cid = Some oc \<and> oc_hostname oc = n \<and> oc_virtualIp oc = ip)"
    if held: "(ip, n) \<in> ran (lease live h)" for ip n
  proof -
    obtain x where "lease live h x = Some (ip, n)" using held by (auto simp: ran_def)
    then show ?thesis by (cases x) (auto simp: lease_def split: if_splits)
  qed
  have "b \<in> set (hub_freeIps h) \<or> (\<exists>n. (host b, n) \<in> ran (lease live h))" if "b \<in> pool" for b
  proof -
    have "host b \<in> host ` set (hub_freeIps h) \<union> fst ` ran (lease live h)" using c(1) that by blast
    then show ?thesis by auto
  qed
  then show ?thesis using held c(2) by blast
qed

section \<open>Coming back\<close>

lemma send_control_client:
  "virtualIp (client (send_control stop c g h) d) = virtualIp (client h d)"
  "hostname (client (send_control stop c g h) d) = hostname (client h d)"
  "d \<noteq> c \<Longrightarrow> client (send_control stop c g h) d = client h d"
  "route (send_control stop c g h) = route h"
proof -
  have "client (send_control stop c g h) d = client h d \<or>
      (\<exists>ch. client (send_control stop c g h) d = (client h d)\<lparr>controlChan := ch\<rparr>)"
    by (cases "c < length (hub_heap h)"; cases "d = c")
      (auto simp: send_control_def set_client_def list_update_beyond)
  then show "virtualIp (client (send_control stop c g h) d) = virtualIp (client h d)"
    "hostname (client (send_control stop c g h) d) = hostname (client h d)" by auto
  show "d \<noteq> c \<Longrightarrow> client (send_control stop c g h) d = client h d" by (simp add: send_control_def)
  show "route (send_control stop c g h) = route h" by (simp add: send_control_def route_def fun_eq_iff)
qed

lemma kept_handshake:
  assumes "hub_inv live h" "d \<in> live" "49 \<le> length (Payload gp)"
    and "gm_get (hub_retentionMap h) (handshake_id (Payload gp)) = Some oc"
    and "controlChan (client h d) = make_chan 16"
  shows "\<exists>h'. handleHandshake False d gp h = (h', None) \<and>
    virtualIp (client h' d) = oc_virtualIp oc \<and> hostname (client h' d) = oc_hostname oc \<and>
    route h' (IpToKey (oc_virtualIp oc)) = Some d \<and> (\<forall>c. c \<noteq> d \<longrightarrow> client h' c = client h c) \<and>
    ch_items (controlChan (client h' d)) = [NewGamePacket ip4_zero (IpToKey (oc_virtualIp oc)) TypeHandshake (oc_hostname oc)]"
proof -
  let ?h = "handshake_assign (hub_dnsMap h) d (Payload gp) h"
  have d: "d < length (hub_heap h)" using hub_invD(6) [OF assms(1)] assms(2) by blast
  have e: "handleHandshake False d gp h =
      (send_control False d (NewGamePacket ip4_zero (IpToKey (oc_virtualIp oc)) TypeHandshake (oc_hostname oc)) (published d ?h), None)"
    using assms(1-3)
    by (cases rule: handleHandshake_cases [where stop = False]) (use assms(4) in auto)
  have a: "client ?h d = handshaken (Payload gp) (oc_virtualIp oc) (oc_hostname oc) (client h d)"
    "\<forall>c. c \<noteq> d \<longrightarrow> client ?h c = client h c"
    using assms(4) d by (simp_all add: assign_kept set_client_def)
  have r: "route (published d ?h) (IpToKey (oc_virtualIp oc)) = Some d"
    using route_addClient [of ?h d] hub_invD(1) [OF assms(1)] a(1)
    by (simp add: published_def route_def addDns_def assign_frame)
  have len: "d < length (hub_heap (published d ?h))" using d by (simp add: published_frame assign_frame)
  show ?thesis
    unfolding e using a r len assms(5)
    by (simp add: send_control_client published_frame)
      (simp add: send_control_def set_client_def published_frame assign_frame select_send_def try_send_def chan_send_def)
qed

lemma disconnect_kept:
  "virtualIp (client h c) \<noteq> [] \<Longrightarrow>
   gm_get (hub_retentionMap (disconnect rt now c h)) (clientID (client h c)) =
     Some \<lparr>oc_virtualIp = virtualIp (client h c), oc_hostname = hostname (client h c), oc_expiry = now + rt\<rparr>"
  by (simp add: disconnect_def removeClient_def retain_def Let_def split: option.split)

text \<open>
  C19. A client that comes back within the retention time is itself again: after its connection ended,
  and a sweep that ran before the retention expired, a new connection that sends the same
  identifier is confirmed with the old address and the old name, and the route leads to it.
\<close>

theorem reconnect_keeps_identity:
  assumes "(server_step False z dl rt)\<^sup>*\<^sup>* ({}, NewHub) (live, h)" and "c \<in> live" and "virtualIp (client h c) \<noteq> []"
    and "t \<le> now + rt" and "connect (cleanRetention t (disconnect rt now c h)) = (d, h2)"
    and "49 \<le> length (Payload gp)" and "handshake_id (Payload gp) = clientID (client h c)"
  shows "\<exists>h3. handleHandshake False d gp h2 = (h3, None) \<and>
    virtualIp (client h3 d) = virtualIp (client h c) \<and> hostname (client h3 d) = hostname (client h c) \<and>
    route h3 (IpToKey (virtualIp (client h c))) = Some d \<and>
    ch_items (controlChan (client h3 d)) =
      [NewGamePacket ip4_zero (IpToKey (virtualIp (client h c))) TypeHandshake (hostname (client h c))]"
proof -
  have inv: "hub_inv live h" using reachable_inv [OF assms(1)] by (simp add: server_inv_def)
  let ?h1 = "cleanRetention t (disconnect rt now c h)"
  note inv1 = disconnect_inv [OF inv assms(2), of rt now]
  have "gm_get (hub_retentionMap ?h1) (clientID (client h c)) =
      Some \<lparr>oc_virtualIp = virtualIp (client h c), oc_hostname = hostname (client h c), oc_expiry = now + rt\<rparr>"
    using cleanRetention_inv(2) [OF inv1, of t] disconnect_kept [OF assms(3), of rt now] assms(4) by simp
  moreover have h2: "d = length (hub_heap ?h1)" "h2 = ?h1\<lparr>hub_heap := hub_heap ?h1 @ [newClient addrport_zero []]\<rparr>"
    using assms(5) by (simp_all add: connect_def)
  ultimately have kept: "gm_get (hub_retentionMap h2) (handshake_id (Payload gp)) =
      Some \<lparr>oc_virtualIp = virtualIp (client h c), oc_hostname = hostname (client h c), oc_expiry = now + rt\<rparr>"
    using assms(7) by simp
  have inv2: "hub_inv (insert d (live - {c})) h2"
    using connect_inv(1) [OF cleanRetention_inv(1) [OF inv1, of t]] assms(5) by simp
  have ch: "controlChan (client h2 d) = make_chan 16" by (simp add: h2 newClient_def)
  from kept_handshake [OF inv2 _ assms(6) kept ch] show ?thesis by auto
qed

text \<open>A sweep only adds free addresses and removes names.\<close>

lemma clean_loop_mono:
  "gm_wf (hub_dnsMap h) \<Longrightarrow>
   set (hub_freeIps h) \<subseteq> set (hub_freeIps (clean_loop now es h)) \<and>
   (gm_get (hub_dnsMap h) n = None \<longrightarrow> gm_get (hub_dnsMap (clean_loop now es h)) n = None) \<and>
   hub_router (clean_loop now es h) = hub_router h"
proof (induction es arbitrary: h)
  case (Cons e es)
  obtain cid oc where e: "e = (cid, oc)" by (cases e)
  define h' where "h' = (removeDns (oc_hostname oc) (releaseIp (oc_virtualIp oc) h))\<lparr>hub_retentionMap := gm_delete cid (hub_retentionMap h)\<rparr>"
  have "hub_dnsMap h' = gm_delete (oc_hostname oc) (hub_dnsMap h)" "set (hub_freeIps h) \<subseteq> set (hub_freeIps h')"
    "hub_router h' = hub_router h"
    using Cons.prems by (auto simp: h'_def releaseIp_def removeDns_def split: option.split)
  then show ?case
    using Cons.IH [of h'] Cons.IH [of h] Cons.prems unfolding e clean_step h'_def [symmetric] by (auto split: if_splits)
qed simp

lemma clean_loop_released:
  assumes "hub_inv live h" and "distinct (map fst es)" and "\<forall>(cid, oc) \<in> set es. gm_get (hub_retentionMap h) cid = Some oc"
    and "(cid, oc) \<in> set es" and "oc_expiry oc < now" and "oc_virtualIp oc = host b"
  shows "b \<in> set (hub_freeIps (clean_loop now es h)) \<and> gm_get (hub_dnsMap (clean_loop now es h)) (oc_hostname oc) = None"
  using assms(1-4)
proof (induction es arbitrary: h)
  case (Cons e es)
  obtain cid' oc' where e: "e = (cid', oc')" by (cases e)
  define h' where "h' = (removeDns (oc_hostname oc') (releaseIp (oc_virtualIp oc') h))\<lparr>hub_retentionMap := gm_delete cid' (hub_retentionMap h)\<rparr>"
  have get: "gm_get (hub_retentionMap h) cid' = Some oc'" using Cons.prems(3) e by auto
  note rel = release_kept [OF Cons.prems(1) get, folded h'_def]
  show ?case
  proof (cases "e = (cid, oc)")
    case True
    then have "b \<in> set (hub_freeIps h')" "gm_get (hub_dnsMap h') (oc_hostname oc) = None"
      using rel(3) e assms(6) by auto
    moreover have "gm_wf (hub_dnsMap h')" using rel(1) by (rule hub_invD(2))
    ultimately show ?thesis
      using clean_loop_mono [of h' now es "oc_hostname oc"] True assms(5) unfolding e clean_step h'_def [symmetric] by auto
  next
    case False
    then have mem: "(cid, oc) \<in> set es" using Cons.prems(4) by auto
    have "\<forall>(c, o') \<in> set es. gm_get (hub_retentionMap h') c = Some o'"
      using Cons.prems(2,3) e by (auto simp: h'_def rev_image_eqI)
    then show ?thesis
      using Cons.IH [OF rel(1) _ _ mem] Cons.IH [OF Cons.prems(1) _ _ mem] Cons.prems(2,3)
      unfolding e clean_step h'_def [symmetric] by auto
  qed
qed simp

text \<open>
  C20. After the retention time the identity is gone: the first sweep later than that returns the
  address to the pool, removes the name from the name table and forgets the identifier, and the
  address is not routed.
\<close>

theorem retention_expires:
  assumes "(server_step False z dl rt)\<^sup>*\<^sup>* ({}, NewHub) (live, h)" and "c \<in> live" and "virtualIp (client h c) = host b"
    and "now + rt < t" and "h1 = cleanRetention t (disconnect rt now c h)"
  shows "b \<in> set (hub_freeIps h1) \<and> gm_get (hub_dnsMap h1) (hostname (client h c)) = None \<and>
    gm_get (hub_retentionMap h1) (clientID (client h c)) = None \<and> route h1 (IpToKey (host b)) = None"
proof -
  have inv: "hub_inv live h" using reachable_inv [OF assms(1)] by (simp add: server_inv_def)
  have ne: "virtualIp (client h c) \<noteq> []" using assms(3) by simp
  let ?h = "disconnect rt now c h"
  note inv1 = disconnect_inv [OF inv assms(2), of rt now]
  note kept = disconnect_kept [OF ne, of rt now]
  have mem: "\<forall>(cid, oc) \<in> set (hub_retentionMap ?h). gm_get (hub_retentionMap ?h) cid = Some oc"
    using hub_invD(3) [OF inv1] by (auto simp: gm_get_Some_iff)
  have entry: "(clientID (client h c), \<lparr>oc_virtualIp = host b, oc_hostname = hostname (client h c), oc_expiry = now + rt\<rparr>) \<in> set (hub_retentionMap ?h)"
    using kept hub_invD(3) [OF inv1] assms(3) by (simp add: gm_get_Some_iff)
  have "b \<in> set (hub_freeIps h1)" "gm_get (hub_dnsMap h1) (hostname (client h c)) = None"
    using clean_loop_released [OF inv1 hub_invD(3) [OF inv1, unfolded gm_wf_def] mem entry, of t b] assms(4,5)
    by (simp_all add: cleanRetention_def)
  moreover have "gm_get (hub_retentionMap h1) (clientID (client h c)) = None"
    using cleanRetention_inv(2) [OF inv1, of t] kept assms(4,5) by simp
  moreover have "route ?h (IpToKey (host b)) = None"
    using route_removeClient [of "retain rt now c h" c "IpToKey (host b)"] hub_invD(1) [OF inv] assms(3)
    by (simp add: disconnect_def retain_def)
  then have "route h1 (IpToKey (host b)) = None"
    using clean_loop_mono [OF hub_invD(2) [OF inv1], of t] assms(5) by (simp add: route_def cleanRetention_def)
  ultimately show ?thesis by blast
qed

end
