(* ===== verification/Gaps.thy ===== *)
theory Gaps
  imports Server
begin

text \<open>
  The limits of the server's guarantees: what happens when a client repeats its handshake, and
  what the windows between two locks allow when two connections are handled at once. The second
  half evaluates the server's properties on concrete runs.
\<close>

section \<open>A fresh handshake in full\<close>

lemma fresh_handshake:
  assumes "hub_inv live h" "d \<in> live" "49 \<le> length (Payload gp)"
    and "gm_get (hub_retentionMap h) (handshake_id (Payload gp)) = None" and "hub_freeIps h = fs @ [b]"
    and h'_def: "h' = fst (handleHandshake stop d gp h)" and n_def: "n = UniqueHostName (drop 49 (Payload gp)) (hub_dnsMap h)"
  shows "snd (handleHandshake stop d gp h) = None" and "hub_inv live h'"
    and "lease live h' = (lease live h)(Live d := Some (host b, n))"
    and "virtualIp (client h' d) = host b" and "hostname (client h' d) = n"
    and "clientID (client h' d) = handshake_id (Payload gp)"
    and "hub_freeIps h' = fs" and "hub_retentionMap h' = hub_retentionMap h"
    and "gm_get (hub_dnsMap h') = (gm_get (hub_dnsMap h))(n \<mapsto> host b)"
    and "route h' = (route h)(IpToKey (host b) \<mapsto> d)" and "c \<noteq> d \<Longrightarrow> client h' c = client h c"
    and "length (hub_heap h') = length (hub_heap h)"
proof -
  let ?h = "handshake_assign (hub_dnsMap h) d (Payload gp) h"
  note inv = hub_invD [OF assms(1)]
  have d: "d < length (hub_heap h)" using inv(6) assms(2) by blast
  have e: "handleHandshake stop d gp h =
      (send_control stop d (NewGamePacket ip4_zero (IP4 10 0 6 b) TypeHandshake n) (published d ?h), None)"
    unfolding n_def using assms(1-3)
    by (cases rule: handleHandshake_cases [where stop = stop]) (use assms(4,5) in auto)
  note a = assign_fresh [OF assms(4) inv(5) assms(5), of "hub_dnsMap h" d]
  have cl: "client ?h d = handshaken (Payload gp) (host b) n (client h d)" "c \<noteq> d \<Longrightarrow> client ?h c = client h c" for c
    using d by (simp_all add: a n_def)
  note s = same_leases_send_control [of "published d ?h" stop d "NewGamePacket ip4_zero (IP4 10 0 6 b) TypeHandshake n"]
  have h': "h' = send_control stop d (NewGamePacket ip4_zero (IP4 10 0 6 b) TypeHandshake n) (published d ?h)"
    by (simp add: h'_def e)
  show "snd (handleHandshake stop d gp h) = None" by (simp add: e)
  show "hub_inv live h'" unfolding h'_def by (rule handleHandshake_inv [OF assms(1,2)])
  have sub: "live \<subseteq> {..<length (hub_heap (published d ?h))}" using inv(6) by (simp add: published_frame assign_frame)
  show "lease live h' = (lease live h)(Live d := Some (host b, n))"
    unfolding h' same_leases_lease [OF s sub] published_frame unfolding n_def
    by (rule pub_ready_fresh(2) [OF assms(1,2,4,5)])
  show "virtualIp (client h' d) = host b" "hostname (client h' d) = n"
    using cl by (simp_all add: h' send_control_client published_frame)
  show "clientID (client h' d) = handshake_id (Payload gp)"
    using same_leases_client(4) [OF s, of d] cl d by (simp add: h' published_frame assign_frame)
  show "hub_freeIps h' = fs" "hub_retentionMap h' = hub_retentionMap h"
    using s by (simp_all add: h' same_leases_def published_frame a) (simp add: published_def addDns_def addClient_def Let_def a)
  show "gm_get (hub_dnsMap h') = (gm_get (hub_dnsMap h))(n \<mapsto> host b)"
    using s published_dns [of ?h d] inv(2) cl by (simp add: h' same_leases_def a)
  show "route h' = (route h)(IpToKey (host b) \<mapsto> d)"
    using route_addClient [of ?h d] inv(1) cl
    by (simp add: h' send_control_client published_def addDns_def route_def assign_frame fun_eq_iff)
  show "c \<noteq> d \<Longrightarrow> client h' c = client h c"
    using cl by (simp add: h' send_control_client published_frame)
  show "length (hub_heap h') = length (hub_heap h)"
    using same_leases_client(1) [OF s] by (simp add: h' published_frame assign_frame)
qed

section \<open>A repeated handshake\<close>

text \<open>
  C39. A second handshake on the same connection loses the first address: the client gets another one,
  the first is neither free nor held by anyone, so it can never be assigned again, and its route
  still leads to the client.
\<close>

theorem repeated_handshake_leaks:
  assumes "(server_step False z dl rt)\<^sup>*\<^sup>* ({}, NewHub) (live, h)" and "c \<in> live" and "virtualIp (client h c) = host b"
    and "49 \<le> length (Payload gp)" and "gm_get (hub_retentionMap h) (handshake_id (Payload gp)) = None" and "hub_freeIps h = fs @ [b']"
  shows "virtualIp (client (fst (handleHandshake stop c gp h)) c) = host b' \<and> b' \<noteq> b \<and>
    b \<notin> set (hub_freeIps (fst (handleHandshake stop c gp h))) \<and>
    (\<forall>x n. lease live (fst (handleHandshake stop c gp h)) x \<noteq> Some (host b, n)) \<and>
    route (fst (handleHandshake stop c gp h)) (IpToKey (host b)) = Some c"
proof -
  have inv: "hub_inv live h" using reachable_inv [OF assms(1)] by (simp add: server_inv_def)
  note f = fresh_handshake [where stop = stop, OF inv assms(2,4,5,6) refl refl]
  note ok = hub_invD(7) [OF inv]
  have mine: "lease live h (Live c) = Some (host b, hostname (client h c))" using assms(2,3) by (simp add: lease_def)
  have b: "b \<notin> set (fs @ [b'])" using lease_okD(1) [OF ok mine] assms(6) by auto
  have "lease live (fst (handleHandshake stop c gp h)) x \<noteq> Some (host b, n)" for x n
  proof (cases "x = Live c")
    case True
    then show ?thesis using b by (auto simp: f(3))
  next
    case False
    then show ?thesis using lease_ok_unique [OF ok mine] by (auto simp: f(3))
  qed
  moreover have "route h (IpToKey (host b)) = Some c" by (rule hub_invD(8) [OF inv mine])
  ultimately show ?thesis using f(4,7,10) b by auto
qed

section \<open>Windows between locks\<close>

text \<open>
  Two handshakes that both read the name table before either publishes can get the same name:
  both clients are told the same host name, they have different addresses, and the name then
  resolves only to the second one.
\<close>

lemma handshake_name_race:
  assumes "hub_inv live h" and "c \<in> live" and "d \<in> live" and "c \<noteq> d" and "drop 49 p = drop 49 q"
    and "gm_get (hub_retentionMap h) (handshake_id p) = None" and "gm_get (hub_retentionMap h) (handshake_id q) = None"
    and "hub_freeIps h = fs @ [b2, b1]"
    and "h2 = fst (handshake_publish stop c (handshake_assign (hub_dnsMap h) c p h))"
    and "h4 = fst (handshake_publish stop d (handshake_assign (hub_dnsMap h) d q h2))"
  shows "hostname (client h4 c) = hostname (client h4 d) \<and>
    virtualIp (client h4 c) = host b1 \<and> virtualIp (client h4 d) = host b2 \<and> b1 \<noteq> b2 \<and>
    gm_get (hub_dnsMap h4) (hostname (client h4 c)) = Some (host b2)"
proof -
  note inv = hub_invD [OF assms(1)]
  have cd: "c < length (hub_heap h)" "d < length (hub_heap h)" using inv(6) assms(2,3) by auto
  let ?n = "UniqueHostName (drop 49 p) (hub_dnsMap h)" and ?D = "hub_dnsMap h"
  have free: "hub_freeIps h = (fs @ [b2]) @ [b1]" using assms(8) by simp
  define h1 where "h1 = handshake_assign ?D c p h"
  have h1: "h1 = set_client c (handshaken p (host b1) ?n (client h c)) (h\<lparr>hub_freeIps := fs @ [b2]\<rparr>)"
    unfolding h1_def by (rule assign_fresh [OF assms(6) inv(5) free])
  have c1: "client h1 c = handshaken p (host b1) ?n (client h c)" using cd by (simp add: h1)
  have h2: "h2 = send_control stop c (NewGamePacket ip4_zero (IP4 10 0 6 b1) TypeHandshake ?n) (published c h1)"
    using assms(9) c1 by (simp add: handshake_publish_eq h1_def [symmetric])
  have sel2: "hub_retentionMap h2 = hub_retentionMap h" "hub_Subnet h2 = subnet" "hub_freeIps h2 = fs @ [b2]"
    "length (hub_heap h2) = length (hub_heap h)" "gm_wf (hub_dnsMap h2)"
    using inv(2,5) by (simp_all add: h2 send_control_def published_def addDns_def addClient_def Let_def h1)
  have c2: "virtualIp (client h2 c) = host b1" "hostname (client h2 c) = ?n"
    using c1 by (simp_all add: h2 send_control_client published_frame)
  define h3 where "h3 = handshake_assign ?D d q h2"
  have h3: "h3 = set_client d (handshaken q (host b2) ?n (client h2 d)) (h2\<lparr>hub_freeIps := fs\<rparr>)"
    unfolding h3_def assms(5) by (rule assign_fresh) (use sel2 assms(7) in simp_all)
  have c3: "client h3 d = handshaken q (host b2) ?n (client h2 d)" "client h3 c = client h2 c"
    using cd sel2(4) assms(4) by (simp_all add: h3)
  have h4: "h4 = send_control stop d (NewGamePacket ip4_zero (IP4 10 0 6 b2) TypeHandshake ?n) (published d h3)"
    using assms(10) c3 by (simp add: handshake_publish_eq h3_def [symmetric])
  have "gm_get (hub_dnsMap h4) ?n = Some (host b2)"
    using published_dns [of h3 d] sel2(5) c3 by (simp add: h4 send_control_def h3)
  moreover have "b1 \<noteq> b2" using inv(7) assms(8) by (auto simp: lease_ok_def)
  ultimately show ?thesis
    using c2 c3 by (simp add: h4 send_control_client published_frame)
qed

lemma removeClient_heap: "hub_heap (removeClient c h) = hub_heap h"
  by (simp add: removeClient_def Let_def split: option.split)

lemma retain_inv:
  assumes "hub_inv live h" "c \<in> live" "virtualIp (client h c) \<noteq> []"
  shows "hub_inv (live - {c}) (retain rt now c h)"
proof -
  note inv = hub_invD [OF assms(1)]
  have mine: "lease live h (Live c) = Some (virtualIp (client h c), hostname (client h c))"
    using assms(2,3) by (simp add: lease_def)
  have l: "lease (live - {c}) (retain rt now c h) =
      (lease live h)(Live c := None, Kept (clientID (client h c)) := Some (virtualIp (client h c), hostname (client h c)))"
    by (simp add: lease_minus retain_def lease_set_kept fun_upd_twist)
  show ?thesis
    unfolding hub_inv_def l using inv lease_move [OF inv(7) mine] by (auto simp: retain_def route_def split: if_splits)
qed

text \<open>
  C40. A client that reconnects while its old connection is still being torn down can end up without
  a route: the old connection is retained, the new one takes the identity over and publishes its
  route, and then the old connection's removal deletes that route, although the new connection
  is live and holds the address.
\<close>

theorem reconnect_route_race:
  assumes "hub_inv live h" and "c \<in> live" and "virtualIp (client h c) = host b"
    and "connect (retain rt now c h) = (d, h2)"
    and "49 \<le> length (Payload gp)" and "handshake_id (Payload gp) = clientID (client h c)"
    and "handleHandshake False d gp h2 = (h3, err)"
  shows "err = None \<and> route h3 (IpToKey (host b)) = Some d \<and>
    virtualIp (client (removeClient c h3) d) = host b \<and> route (removeClient c h3) (IpToKey (host b)) = None"
proof -
  have ne: "virtualIp (client h c) \<noteq> []" using assms(3) by simp
  have c: "c < length (hub_heap h)" using hub_invD(6) [OF assms(1)] assms(2) by blast
  have h2: "d = length (hub_heap h)" "h2 = (retain rt now c h)\<lparr>hub_heap := hub_heap h @ [newClient addrport_zero []]\<rparr>"
    using assms(4) by (auto simp: connect_def retain_def)
  have inv2: "hub_inv (insert d (live - {c})) h2"
    using connect_inv(1) [OF retain_inv [OF assms(1,2) ne, of rt now]] assms(4) by simp
  have kept: "gm_get (hub_retentionMap h2) (handshake_id (Payload gp)) =
      Some \<lparr>oc_virtualIp = host b, oc_hostname = hostname (client h c), oc_expiry = now + rt\<rparr>"
    using assms(3,6) by (simp add: h2 retain_def)
  have ch: "controlChan (client h2 d) = make_chan 16" by (simp add: h2 newClient_def)
  from kept_handshake [OF inv2 _ assms(5) kept ch] assms(7)
  have k: "err = None" "virtualIp (client h3 d) = host b" "route h3 (IpToKey (host b)) = Some d" "client h3 c = client h2 c"
    using c h2(1) by auto
  have wf: "gm_wf (clientMap (hub_router h3))"
    using hub_invD(1) [OF handleHandshake_inv [OF inv2, of d False gp]] assms(7) by simp
  have vc: "virtualIp (client h3 c) = host b"
    using k(4) c assms(3) by (simp add: h2 nth_append)
  show ?thesis using k route_removeClient [OF wf, of c] vc by (simp add: removeClient_heap)
qed

section \<open>Concrete runs\<close>

text \<open>A server that has accepted one connection and its handshake, and the packet of another one.\<close>

definition demo_hs :: "byte \<Rightarrow> GamePacket" where
  "demo_hs i = NewGamePacket ip4_zero ip4_zero TypeHandshake ([3] @ replicate 32 1 @ replicate 16 i @ str ''pc'')"

definition demo_server :: Hub where
  "demo_server = fst (handleHandshake False 0 (demo_hs 7) (snd (connect NewHub)))"

lemma demo_hs_sel [simp]:
  "length (Payload (demo_hs i)) = 51" "handshake_id (Payload (demo_hs i)) = replicate 16 i"
  "drop 49 (Payload (demo_hs i)) = str ''pc''" "PType (demo_hs i) = TypeHandshake"
  by (simp_all add: demo_hs_def type_defs FlagCompress_def)

lemma handleHandshake_payload: "Payload gp = Payload gp' \<Longrightarrow> handleHandshake stop c gp h = handleHandshake stop c gp' h"
  by (simp add: handleHandshake_def)

lemma demo_parse:
  "\<exists>g. ParseControl gp_empty (plain_frame (demo_hs i) 0) = (g, None) \<and> PType g = TypeHandshake \<and> Payload g = Payload (demo_hs i)"
  by (subst ParseControl_plain_frame) (simp_all add: MaxPayloadSize_eq type_defs FlagCompress_def)

lemma demo_accept: "fst (connect NewHub) = 0" "hub_inv {0} (snd (connect NewHub))"
  "virtualIp (client (snd (connect NewHub)) 0) = []" "hub_retentionMap (snd (connect NewHub)) = []"
  "hub_freeIps (snd (connect NewHub)) = free_from 254"
  using connect_inv(1) [OF NewHub_inv] by (simp_all add: connect_def newClient_def)

lemma demo_reach: "(server_step polite z dl rt)\<^sup>*\<^sup>* ({}, NewHub) ({0}, demo_server)"
proof -
  let ?h = "snd (connect NewHub)" and ?ev = "WsBinary (plain_frame (demo_hs 7) 0)"
  obtain g where g: "ParseControl gp_empty (plain_frame (demo_hs 7) 0) = (g, None)" "PType g = TypeHandshake"
    "Payload g = Payload (demo_hs 7)" using demo_parse by blast
  have one: "server_step polite z dl rt ({}, NewHub) ({0}, ?h)"
    using server_step.accept [of polite z dl rt "{}" NewHub] demo_accept(1) by simp
  have "polite_read {0} 0 ?ev gp_empty ?h" using demo_accept(3) by (simp add: polite_read_def)
  then have "server_step polite z dl rt ({0}, ?h) ({0}, fst (snd (readPump False 0 ?ev gp_empty ?h)))"
    by (intro server_step.control_read) simp_all
  moreover have "fst (snd (readPump False 0 ?ev gp_empty ?h)) = demo_server"
    using message_handler [OF demo_accept(2), of False 0 g] g handleHandshake_payload [OF g(3)]
    by (auto simp: readPump_def demo_server_def split: prod.split option.split)
  ultimately show ?thesis using one by (simp add: converse_rtranclp_into_rtranclp)
qed

lemma demo_server_state:
  obtains rest where "hub_inv {0} demo_server" "virtualIp (client demo_server 0) = host 2"
    "clientID (client demo_server 0) = replicate 16 7" "hub_freeIps demo_server = rest @ [3]" "hub_retentionMap demo_server = []"
    "length (hub_heap demo_server) = 1"
proof -
  obtain rest where top: "free_from 254 = rest @ [3, 2]" using free_254_top by blast
  have "hub_freeIps (snd (connect NewHub)) = (rest @ [3]) @ [2]" by (simp add: demo_accept(5) top)
  note f = fresh_handshake [OF demo_accept(2) _ _ _ this refl refl, of 0 "demo_hs 7"]
  show thesis
    by (rule that [of rest])
      (use f(2,4,6,7,8,12) [where stop = False] demo_accept(4) in \<open>simp_all add: demo_server_def connect_def\<close>)
qed


theorem server_no_leak_witness: "100 \<in> set (hub_freeIps demo_server)"
proof -
  obtain rest where d: "hub_retentionMap demo_server = []" "virtualIp (client demo_server 0) = host 2" by (rule demo_server_state)
  have "(100 :: byte) \<in> pool" unfolding pool_def by (rule image_eqI [of _ _ 100]) simp_all
  with server_no_leak [OF demo_reach [where z = null_lz4 and dl = echo_dns]] d show ?thesis by auto
qed

theorem reconnect_keeps_identity_witness:
  "\<exists>h3. handleHandshake False 1 (demo_hs 7) (snd (connect (cleanRetention 150 (disconnect 60 100 0 demo_server)))) = (h3, None) \<and>
    virtualIp (client h3 1) = host 2 \<and> hostname (client h3 1) = hostname (client demo_server 0)"
proof -
  obtain rest where d: "virtualIp (client demo_server 0) = host 2" "clientID (client demo_server 0) = replicate 16 7"
    "length (hub_heap demo_server) = 1" "hub_inv {0} demo_server" by (rule demo_server_state)
  have "length (hub_heap (cleanRetention 150 (disconnect 60 100 0 demo_server))) = 1"
    using d(1,3) cleanRetention_inv(3) [OF disconnect_inv [OF d(4), of 0 60 100], of 150]
    by (simp add: disconnect_def retain_def removeClient_heap)
  then have "connect (cleanRetention 150 (disconnect 60 100 0 demo_server)) =
      (1, snd (connect (cleanRetention 150 (disconnect 60 100 0 demo_server))))" by (simp add: connect_def)
  from reconnect_keeps_identity [OF demo_reach [where z = null_lz4 and dl = echo_dns] _ _ _ this, of "demo_hs 7"] d
  show ?thesis by auto
qed

theorem retention_expires_witness:
  "2 \<in> set (hub_freeIps (cleanRetention 200 (disconnect 60 100 0 demo_server))) \<and>
   gm_get (hub_retentionMap (cleanRetention 200 (disconnect 60 100 0 demo_server))) (replicate 16 7) = None"
proof -
  obtain rest where d: "virtualIp (client demo_server 0) = host 2" "clientID (client demo_server 0) = replicate 16 7"
    by (rule demo_server_state)
  from retention_expires [OF demo_reach [where z = null_lz4 and dl = echo_dns] _ d(1) _ refl, of 100 60 200] d(2)
  show ?thesis by simp
qed

theorem repeated_handshake_leaks_witness:
  "virtualIp (client (fst (handleHandshake False 0 (demo_hs 7) demo_server)) 0) = host 3 \<and>
   2 \<notin> set (hub_freeIps (fst (handleHandshake False 0 (demo_hs 7) demo_server)))"
proof -
  obtain rest where d: "virtualIp (client demo_server 0) = host 2" "hub_freeIps demo_server = rest @ [3]"
    "hub_retentionMap demo_server = []" by (rule demo_server_state)
  from repeated_handshake_leaks [OF demo_reach [where z = null_lz4 and dl = echo_dns] _ d(1) _ _ d(2), of "demo_hs 7" False] d(3)
  show ?thesis by simp
qed

text \<open>Two connections that have not shaken hands yet.\<close>

definition demo_pair :: Hub where
  "demo_pair = snd (connect (snd (connect NewHub)))"

lemma demo_pair_inv: "hub_inv {0, 1} demo_pair" "hub_retentionMap demo_pair = []" "hub_freeIps demo_pair = free_from 254"
proof -
  have "fst (connect (snd (connect NewHub))) = 1" by (simp add: connect_def)
  then show "hub_inv {0, 1} demo_pair"
    using connect_inv(1) [OF demo_accept(2)] by (simp add: demo_pair_def insert_commute)
  show "hub_retentionMap demo_pair = []" "hub_freeIps demo_pair = free_from 254"
    by (simp_all add: demo_pair_def connect_def)
qed

theorem reconnect_route_race_witness:
  "\<exists>h3. fst (handleHandshake False 1 (demo_hs 7) (snd (connect (retain 60 100 0 demo_server)))) = h3 \<and>
    route h3 (IpToKey (host 2)) = Some 1 \<and> route (removeClient 0 h3) (IpToKey (host 2)) = None"
proof -
  obtain rest where d: "hub_inv {0} demo_server" "virtualIp (client demo_server 0) = host 2"
    "clientID (client demo_server 0) = replicate 16 7" "length (hub_heap demo_server) = 1" by (rule demo_server_state)
  have c: "connect (retain 60 100 0 demo_server) = (1, snd (connect (retain 60 100 0 demo_server)))"
    using d(4) by (simp add: connect_def retain_def)
  obtain h3 e where h3: "handleHandshake False 1 (demo_hs 7) (snd (connect (retain 60 100 0 demo_server))) = (h3, e)"
    by (cases "handleHandshake False 1 (demo_hs 7) (snd (connect (retain 60 100 0 demo_server)))")
  from reconnect_route_race [OF d(1) _ d(2) c _ _ h3] d(3) h3 show ?thesis by simp
qed

end
