(* ===== verification/EndToEnd.thy ===== *)
theory EndToEnd
  imports ClientProps Gaps "HOL-Library.Monad_Syntax"
begin

text \<open>
  Client and server together: packets on their way from the device of one client through the
  server to the device of another. A passage is the composition of the turns of the loops it
  goes through, with the datagrams and frames of one side as the input of the other.
\<close>

lemma ip4_bytes_nonempty [simp]: "ip4_bytes a \<noteq> []"
  by (cases a) simp

section \<open>Through the server\<close>

definition idle :: "'a chan \<Rightarrow> bool" where
  "idle ch \<longleftrightarrow> \<not> ch_closed ch \<and> ch_items ch = [] \<and> 0 < ch_cap ch"

lemma idle_send:
  "idle ch \<Longrightarrow> chan_send x ch = Sent (ch\<lparr>ch_items := [x]\<rparr>)"
  "idle ch \<Longrightarrow> select_send False x ch = (ch\<lparr>ch_items := [x]\<rparr>, SelSent)"
  by (simp_all add: idle_def chan_send_def select_send_def try_send_def)

lemma idle_drained: "idle ch \<Longrightarrow> ch\<lparr>ch_items := []\<rparr> = ch"
  by (cases ch) (simp add: idle_def)

text \<open>
  One datagram of client and server: the listener reads it, into a buffer of 2048 bytes, the
  relay takes it from the queue between them, the writer sends the batch. \<open>buf\<close> and \<open>gp\<close> are the
  buffer and the packet from the pools.
\<close>

record server_env =
  se_lz4 :: lz4
  se_buf :: slice
  se_probe :: slice
  se_cbuf :: slice
  se_frame :: slice
  se_gp :: GamePacket

definition server_pass :: "server_env \<Rightarrow> ('m, 'r) dns_lib \<Rightarrow> addrport \<Rightarrow> bytes \<Rightarrow> Hub \<Rightarrow> (Hub \<times> (bytes \<times> addrport) list) option" where
  "server_pass se dl from w h =
     (case listenUdp (se_lz4 se) dl (se_buf se) (se_probe se) (se_cbuf se) (se_frame se) False from (take 2048 w) (se_gp se) h of
        (_, h, _) \<Rightarrow>
          let h = (case chan_recv (hub_transferChan h) of
                     None \<Rightarrow> h
                   | Some (tp, ch) \<Rightarrow> fst (transfer False False tp (h\<lparr>hub_transferChan := ch\<rparr>)))
          in writeUdpPacket h)"

text \<open>
  A server at rest: its queues are empty. A registered client is routed by its address, with a
  known public address and an empty control queue.
\<close>

definition hub_rest :: "Hub \<Rightarrow> bool" where
  "hub_rest h \<longleftrightarrow> hub_Subnet h = subnet \<and> routes_ok h \<and> idle (hub_transferChan h) \<and> idle (hub_packetChan h)"

definition registered :: "Hub \<Rightarrow> ip4 \<Rightarrow> cref \<Rightarrow> addrport \<Rightarrow> bool" where
  "registered h v c a \<longleftrightarrow> unicast v \<and> route h v = Some c \<and> virtualIp (client h c) = ip4_bytes v \<and>
     dataAddr (client h c) = a \<and> IsValid a \<and> idle (controlChan (client h c))"

text \<open>What a pass through the server leaves of the hub: all but the tunnel table and its tasks.\<close>

definition same_hub :: "Hub \<Rightarrow> Hub \<Rightarrow> bool" where
  "same_hub h h' \<longleftrightarrow> hub_router h' = hub_router h \<and> hub_heap h' = hub_heap h \<and> hub_Subnet h' = hub_Subnet h \<and>
     hub_transferChan h' = hub_transferChan h \<and> hub_packetChan h' = hub_packetChan h \<and>
     hub_dnsMap h' = hub_dnsMap h \<and> hub_wsHandlers h' = hub_wsHandlers h"

lemma same_hub_keeps:
  "same_hub h h' \<Longrightarrow> hub_rest h \<Longrightarrow> hub_rest h'"
  "same_hub h h' \<Longrightarrow> registered h v c a \<Longrightarrow> registered h' v c a"
  by (simp_all add: same_hub_def hub_rest_def registered_def routes_ok_def route_def ran_def)

lemma relay_decision_same:
  "hub_Subnet (relay_decision st src dst s d a h) = hub_Subnet h"
  "hub_transferChan (relay_decision st src dst s d a h) = hub_transferChan h"
  "hub_dnsMap (relay_decision st src dst s d a h) = hub_dnsMap h"
  "hub_wsHandlers (relay_decision st src dst s d a h) = hub_wsHandlers h"
  by (simp_all add: relay_decision_def newP2PTask_def case_prod_beta Let_def)

lemma relay_decision_same_hub: "same_hub h (relay_decision st src dst s d a h)"
  by (simp add: same_hub_def relay_decision_same)

lemma updateAddrCheck_same: "dataAddr (client h c) = a \<Longrightarrow> updateAddrCheck c a h = h"
  by (simp add: updateAddrCheck_def)

lemma server_pass_relays:
  assumes "hub_rest h" "registered h vA c aA" "registered h vB d aB" "length w \<le> 2048"
    and "ParsePacket (se_buf se) w True None (se_gp se) = (g, None)" "clear_flag (PType g) = TypeData"
    and "gp_src g = vA" "gp_dst g = vB"
  shows "server_pass se dl aA w h = Some (relay_decision False vA vB c d aA h, [(w, aB)])"
proof -
  have types: "TypeData \<noteq> TypePing" "TypeData \<noteq> TypeDnsRequest" by (simp_all add: type_defs)
  let ?tp = "\<lparr>tp_gp = g, tp_srcAddr = aA\<rparr>"
  have raw: "raw_bytes g = w" using ParsePacket_raw [OF assms(5)] by (auto simp: raw_bytes_def)
  have l: "listenUdp (se_lz4 se) dl (se_buf se) (se_probe se) (se_cbuf se) (se_frame se) False aA w (se_gp se) h =
      (g, h\<lparr>hub_transferChan := (hub_transferChan h)\<lparr>ch_items := [?tp]\<rparr>\<rparr>, Queued)"
    using assms(1,5,6) types by (simp add: listenUdp_def Let_def hub_rest_def idle_send)
  let ?h2 = "relay_decision False vA vB c d aA h"
  have "transfer False False ?tp h = (?h2\<lparr>hub_packetChan := (hub_packetChan h)\<lparr>ch_items := [\<lparr>pk_data = w, pk_broadcast = False, pk_dstAddr = aB\<rparr>]\<rparr>\<rparr>, Relayed)"
    using transfer_found [of h ?tp c d h ?h2 False False] assms(1-3,7,8) raw
    by (simp add: hub_rest_def registered_def updateAddrCheck_same idle_send)
  moreover have "h\<lparr>hub_transferChan := (hub_transferChan h)\<lparr>ch_items := []\<rparr>\<rparr> = h"
    using assms(1) by (simp add: hub_rest_def idle_drained)
  moreover have "?h2\<lparr>hub_packetChan := hub_packetChan h\<rparr> = ?h2"
    using relay_decision_sel(1) [of False vA vB c d aA h] by (cases ?h2) simp
  ultimately show ?thesis
    using assms(1,3,4) l
    by (simp add: server_pass_def chan_recv_def writeUdpPacket_batch hub_rest_def idle_drained registered_def)
qed

section \<open>Data under a session key\<close>

text \<open>
  A client at rest: it has the address \<open>v\<close>, knows the server at \<open>srv\<close> and nothing waits in its
  queues; the operating system accepts datagrams to the server.
\<close>

definition client_rest :: "'h client_env \<Rightarrow> UDPAddr \<Rightarrow> ip4 \<Rightarrow> 'h ClientTransport \<Rightarrow> bool" where
  "client_rest env srv v t \<longleftrightarrow> localIp t = ip4_bytes v \<and> myVip (noiseMgr t) = v \<and> serverAddr t = Some srv \<and>
     tunChan (noiseMgr t) = [] \<and> idle (FromNet t) \<and> idle (ControlSendChan t) \<and>
     peers_ok (p2pRouter t) \<and> gm_wf (sessions (noiseMgr t)) \<and> (\<forall>d. ce_accept env d srv)"

definition not_direct :: "'h ClientTransport \<Rightarrow> ip4 \<Rightarrow> bool" where
  "not_direct t v \<longleftrightarrow> (\<forall>a seen. link_of (p2pRouter t) v \<noteq> Direct a seen)"

lemma not_direct_target: "not_direct t v \<Longrightarrow> link_target srv (link_of (p2pRouter t) v) = srv"
  by (cases "link_of (p2pRouter t) v") (simp_all add: not_direct_def)

text \<open>What sending and receiving leave of a client: all but its Noise manager and its counters.\<close>

definition kept :: "'h ClientTransport \<Rightarrow> 'h ClientTransport \<Rightarrow> bool" where
  "kept t t' \<longleftrightarrow> p2pRouter t' = p2pRouter t \<and> ct_device t' = ct_device t \<and> localIp t' = localIp t \<and> serverAddr t' = serverAddr t \<and>
     FromNet t' = FromNet t \<and> ControlSendChan t' = ControlSendChan t"

lemma data_frame:
  assumes "aead_ok (cs_aead snder)" "cs_aead rcver = cs_aead snder" "lz4_ok z" "p \<noteq> []" "length p \<le> 1280"
  shows "\<exists>w g. EncodePacket z pb cb b False compress (Some snder) (data_packet src dst p) = (Some w, g, Some (snd (GetNonce snder))) \<and>
    length w \<le> 37 + length p \<and>
    (\<forall>buf g0. \<exists>g1. ParsePacket buf w True None g0 = (g1, None) \<and> clear_flag (PType g1) = TypeData \<and> gp_src g1 = src \<and> gp_dst g1 = dst) \<and>
    (\<forall>buf. \<exists>g1 g2 tail. ParsePacket buf w True None gp_empty = (g1, None) \<and> DecryptParse z (Some rcver) g1 = Some (g2, None) \<and>
       length (raw_bytes g2) > HeaderLength \<and> drop HeaderLength (raw_bytes g2) = p @ tail \<and> length tail \<le> 16)"
proof -
  have le: "int (length p) \<le> MaxPayloadSize" using assms(5) by (simp add: MaxPayloadSize_eq)
  define q where "q = compressed_packet z pb cb compress (data_packet src dst p)"
  define len where "len = fst (payloadLengthField (int (length (Payload q))))"
  define fr where "fr = frame (PType q) dst len src (be64 (cs_nonce snder)) (sealed_body (q\<lparr>Length := len\<rparr>) snder)"
  note wire = sealed_on_wire [OF assms(1,4) le, where z = z and pb = pb and cb = cb and
      compress = compress and src = src and dst = dst, folded q_def, folded len_def, folded fr_def]
  have t: "clear_flag (PType q) = TypeData"
    unfolding q_def by (cases rule: compressed_data_cases [of z pb cb compress src dst p]) auto
  have "length fr = 37 + length (Payload q)"
    using assms(1) wire(1) by (simp add: fr_def sealed_body_length)
  moreover have "length (Payload q) \<le> length p"
    using compressed_packet_length [of z pb cb compress "data_packet src dst p"] by (simp add: q_def)
  ultimately have "length fr \<le> 37 + length p" by simp
  moreover have "\<exists>g1. ParsePacket buf fr True None g0 = (g1, None) \<and> clear_flag (PType g1) = TypeData \<and> gp_src g1 = src \<and> gp_dst g1 = dst"
    for buf g0 using wire(4) [of buf g0] t by auto
  moreover have "\<exists>g1 g2 tail. ParsePacket buf fr True None gp_empty = (g1, None) \<and> DecryptParse z (Some rcver) g1 = Some (g2, None) \<and>
       length (raw_bytes g2) > HeaderLength \<and> drop HeaderLength (raw_bytes g2) = p @ tail \<and> length tail \<le> 16" for buf
  proof -
    obtain w gs cs g1 g2 raw tail where d:
      "EncodePacket z pb cb b False compress (Some snder) (data_packet src dst p) = (Some w, gs, cs)"
      "ParsePacket buf w True None gp_empty = (g1, None)" "DecryptParse z (Some rcver) g1 = Some (g2, None)"
      "RawData g2 = Some raw" "drop HeaderLength (sl_data raw) = p @ tail"
      "length tail = (if PType g2 AND FlagCompress = 0 then 16 else 0)"
      using sealed_delivery [OF assms(1-4) le, of pb cb b compress src dst buf gp_empty] by metis
    have w: "w = fr" using d(1) wire(3) [of b] by simp
    have "raw_bytes g2 = sl_data raw" "length tail \<le> 16" using d(4,6) by (auto simp: raw_bytes_def)
    moreover have "length (sl_data raw) > HeaderLength"
      using d(5) assms(4) by (metis append_is_Nil_conv drop_eq_Nil not_le)
    ultimately show ?thesis using d(2,3,5) unfolding w by auto
  qed
  ultimately show ?thesis using wire(3) [of b] by blast
qed

text \<open>The receiving client: the packet is opened and the device gets its payload.\<close>

lemma sealed_received:
  assumes "client_rest env srv v t" "GetSession (noiseMgr t) src = Some s" "IsReady (ns_Cipher s)" "Recver (ns_Cipher s) = Some rcver"
    and "ParsePacket (ce_raw env) w True None gp_empty = (g1, None)" "clear_flag (PType g1) = TypeData" "gp_src g1 = src"
    and "DecryptParse (ce_lz4 env) (Some rcver) g1 = Some (g2, None)"
    and "length (raw_bytes g2) > HeaderLength" "drop HeaderLength (raw_bytes g2) = data"
  shows "\<exists>t1 t2. packetRecv env False w addr t = Some (t1, [], PumpContinue) \<and> device_write t1 = Some (t2, [ToDevice data]) \<and>
    noiseMgr t2 = session_write src (UpdateLastSeen (ce_now env) s) (noiseMgr t) \<and> client_rest env srv v t2 \<and> kept t t2"
proof -
  have "HandleNoisePacket (ce_noise env) (ce_rnd env) (ce_now env) src (Payload g1) (noiseMgr t) = Some (noiseMgr t, Handled (Some s) None)"
    using assms(2,3) by (simp add: HandleNoisePacket_def)
  moreover define t1 where "t1 = (count_received (length w) t)
    \<lparr>noiseMgr := session_write src (UpdateLastSeen (ce_now env) s) (noiseMgr t), FromNet := (FromNet t)\<lparr>ch_items := [raw_bytes g2]\<rparr>\<rparr>"
  ultimately have r: "packetRecv env False w addr t = Some (t1, [], PumpContinue)"
    using assms(1,4-8)
    by (simp add: packetRecv_def recv_data_def Let_def count_received_def client_rest_def idle_send)
  define t2 where "t2 = t1\<lparr>FromNet := FromNet t\<rparr>"
  have "FromNet t1 = (FromNet t)\<lparr>ch_items := [raw_bytes g2]\<rparr>" by (simp add: t1_def)
  then have "device_write t1 = Some (t2, [ToDevice data])"
    using assms(1,9,10) by (simp add: device_write_def tunSend_def chan_recv_def t2_def client_rest_def idle_drained)
  moreover have "client_rest env srv v t2" "noiseMgr t2 = session_write src (UpdateLastSeen (ce_now env) s) (noiseMgr t)" "kept t t2"
    using assms(1) by (simp_all add: client_rest_def kept_def t2_def t1_def count_received_def)
  ultimately show ?thesis using r by blast
qed

text \<open>The sending client: a packet read from the device leaves in one datagram.\<close>

definition readable :: "'h ClientTransport \<Rightarrow> bytes \<Rightarrow> ip4 \<Rightarrow> bool" where
  "readable t p v \<longleftrightarrow> 20 \<le> length p \<and> length p \<le> 1280 \<and> drop_bit 4 (p ! 0) = 4 \<and>
     (\<exists>dev. ct_device t = Some dev \<and> wanted (tun_Subnet dev) (take 4 (drop 16 p))) \<and> for_peer t p v"

definition from_device :: "'h ClientTransport \<Rightarrow> bytes \<Rightarrow> ip4 \<Rightarrow> bool" where
  "from_device t p v \<longleftrightarrow> readable t p v \<and> not_direct t v"

lemmas from_device_defs = from_device_def readable_def

lemma device_read_queued:
  assumes "client_rest env srv v t" "readable t p w"
  shows "device_read False (TunPacket p) t = Some (set_FromTun \<lparr>ch_cap = 256, ch_items = [p], ch_closed = False\<rparr> t, PumpContinue)"
  using assms
  by (auto simp: client_rest_def readable_def device_read_def tunRecv_def FromTun_def select_send_def try_send_def chan_send_def)

lemma set_FromTun_for_peer [simp]: "for_peer (set_FromTun ch t) p v = for_peer t p v"
  by (simp add: for_peer_def dns_query_eq set_FromTun_def)

lemma packetSend_one:
  assumes "tunChan (noiseMgr t) = [p]" "20 \<le> length p"
    and "send_packet env False p (set_FromTun \<lparr>ch_cap = 256, ch_items = [], ch_closed = False\<rparr> t) = Some (t', out, PumpContinue)"
  shows "packetSend env False t = Some (Some (count_sent 1 t', out, TurnDone))"
  using assms by (simp add: packetSend_def FromTun_def chan_recv_def packetSend_resume_def)

lemma core_rest:
  "core t' = core t \<Longrightarrow> serverAddr t' = serverAddr t \<Longrightarrow> client_rest env srv v t \<Longrightarrow> client_rest env srv v t'"
  by (simp add: core_def client_rest_def)

lemma sealed_sent:
  assumes "client_rest env srv me t" "for_peer t p v" "link_target (Some srv) (link_of (p2pRouter t) v) = Some u" "\<And>x. ce_accept env x u"
    and "GetSession (noiseMgr t) v = Some s" "IsReady (ns_Cipher s)" "Sender (ns_Cipher s) = Some cs"
    and "EncodePacket (ce_lz4 env) (ce_probe env) (ce_cbuf env) (ce_frame env) False (EnableCompress (ce_cfg env)) (Some cs) (data_packet me v p) =
      (Some w, g, Some cs')"
  shows "\<exists>t'. send_packet env False p t = Some (t', [Datagram w u], PumpContinue) \<and>
    noiseMgr t' = session_write v (s\<lparr>lastSeen := ce_now env, ns_Cipher := (ns_Cipher s)\<lparr>Sender := Some cs'\<rparr>\<rparr>) (noiseMgr t) \<and>
    client_rest env srv me t' \<and> kept t t'"
proof -
  have r: "localIp t = ip4_bytes me" "peers_ok (p2pRouter t)" "serverAddr t = Some srv"
    using assms(1) by (auto simp: client_rest_def)
  have out: "udp_effects (fst (WriteToUDP (ce_accept env) w (link_target (serverAddr t) (link_of (p2pRouter t) v)))) = [Datagram w u]"
    using r(3) assms(3,4) by (simp add: WriteToUDP_def udp_effects_def)
  from send_packet_sealed [OF assms(2,5-7) r(1,2) assms(8), of False, unfolded out] obtain t' where
    t': "send_packet env False p t = Some (t', [Datagram w u], PumpContinue)"
    "noiseMgr t' = session_write v (s\<lparr>lastSeen := ce_now env, ns_Cipher := (ns_Cipher s)\<lparr>Sender := Some cs'\<rparr>\<rparr>) (noiseMgr t)"
    "core (t'\<lparr>noiseMgr := noiseMgr t\<rparr>) = core t" "serverAddr t' = serverAddr t"
    by blast
  then have "client_rest env srv me t'" "kept t t'" using assms(1) by (simp_all add: client_rest_def core_def kept_def)
  with t' show ?thesis by blast
qed

text \<open>
  The whole way of one packet: read from the device of A, sent to the server, relayed, received by
  B and written to its device. The result is the state of all three, the public address the
  server sent to and what B's device got.
\<close>

fun sole :: "'a list \<Rightarrow> 'a option" where
  "sole [x] = Some x"
| "sole _ = None"

fun sole_datagram :: "effect list \<Rightarrow> (bytes \<times> UDPAddr) option" where
  "sole_datagram [Datagram d a] = Some (d, a)"
| "sole_datagram _ = None"

definition relay :: "server_env \<Rightarrow> ('m, 'r) dns_lib \<Rightarrow> addrport \<Rightarrow> effect list \<Rightarrow> Hub \<Rightarrow> (Hub \<times> bytes \<times> addrport) option" where
  "relay se dl from out h = do {
     (w, _) \<leftarrow> sole_datagram out;
     (h, msgs) \<leftarrow> server_pass se dl from w h;
     msg \<leftarrow> sole msgs;
     Some (h, msg)
   }"

definition send_turn :: "'h client_env \<Rightarrow> 'h ClientTransport \<Rightarrow> ('h ClientTransport \<times> effect list) option" where
  "send_turn env t = (case packetSend env False t of Some (Some (t, out, TurnDone)) \<Rightarrow> Some (t, out) | _ \<Rightarrow> None)"

definition carry :: "'h client_env \<Rightarrow> 'h client_env \<Rightarrow> server_env \<Rightarrow> ('m, 'r) dns_lib \<Rightarrow> UDPAddr \<Rightarrow> addrport \<Rightarrow> bytes \<Rightarrow>
    'h ClientTransport \<Rightarrow> 'h ClientTransport \<Rightarrow> Hub \<Rightarrow> ('h ClientTransport \<times> 'h ClientTransport \<times> Hub \<times> addrport \<times> effect list) option" where
  "carry envA envB se dl srv aA p tA tB h = do {
     (tA, _) \<leftarrow> device_read False (TunPacket p) tA;
     (tA, out) \<leftarrow> send_turn envA tA;
     (h, w, a) \<leftarrow> relay se dl aA out h;
     (tB, _) \<leftarrow> packetRecv envB False w srv tB;
     (tB, out) \<leftarrow> device_write tB;
     Some (tA, tB, h, a, out)
   }"

text \<open>Sessions of two clients with each other that hold the same keys.\<close>

definition mirrored :: "'h ClientTransport \<Rightarrow> ip4 \<Rightarrow> 'h ClientTransport \<Rightarrow> ip4 \<Rightarrow> bool" where
  "mirrored tA vA tB vB \<longleftrightarrow> (\<exists>sA sB snder rcver.
     GetSession (noiseMgr tA) vB = Some sA \<and> IsReady (ns_Cipher sA) \<and> Sender (ns_Cipher sA) = Some snder \<and>
     GetSession (noiseMgr tB) vA = Some sB \<and> IsReady (ns_Cipher sB) \<and> Recver (ns_Cipher sB) = Some rcver \<and>
     aead_ok (cs_aead snder) \<and> cs_aead rcver = cs_aead snder)"

text \<open>
  A packet under the common key, from one client to the other: it leaves for where the link says,
  every parser finds the two addresses in its header, and the other client opens it, whatever
  address it came from.
\<close>

lemma sealed_passage:
  assumes "client_rest envA srv vA tA" "client_rest envB srv vB tB" "mirrored tA vA tB vB"
    and "for_peer tA p vB" "link_target (Some srv) (link_of (p2pRouter tA) vB) = Some u" "\<And>x. ce_accept envA x u" "p \<noteq> []" "length p \<le> 1280"
    and "lz4_ok (ce_lz4 envA)" "ce_lz4 envB = ce_lz4 envA"
  obtains tA' w tB1 tB' tail where "send_packet envA False p tA = Some (tA', [Datagram w u], PumpContinue)" "length w \<le> 2048"
    "\<forall>buf g0. \<exists>g1. ParsePacket buf w True None g0 = (g1, None) \<and> clear_flag (PType g1) = TypeData \<and> gp_src g1 = vA \<and> gp_dst g1 = vB"
    "packetRecv envB False w from tB = Some (tB1, [], PumpContinue)" "device_write tB1 = Some (tB', [ToDevice (p @ tail)])"
    "length tail \<le> 16" "client_rest envA srv vA tA'" "client_rest envB srv vB tB'" "mirrored tA' vA tB' vB"
    "mirrored tB vB tA vA \<longrightarrow> mirrored tB' vB tA' vA" "kept tA tA'" "kept tB tB'"
proof -
  obtain sA sB snder rcver where A: "GetSession (noiseMgr tA) vB = Some sA" "IsReady (ns_Cipher sA)" "Sender (ns_Cipher sA) = Some snder"
    and B: "GetSession (noiseMgr tB) vA = Some sB" "IsReady (ns_Cipher sB)" "Recver (ns_Cipher sB) = Some rcver"
    and keys: "aead_ok (cs_aead snder)" "cs_aead rcver = cs_aead snder"
    using assms(3) unfolding mirrored_def by blast
  obtain w g where w: "EncodePacket (ce_lz4 envA) (ce_probe envA) (ce_cbuf envA) (ce_frame envA) False (EnableCompress (ce_cfg envA)) (Some snder)
      (data_packet vA vB p) = (Some w, g, Some (snd (GetNonce snder)))" "length w \<le> 37 + length p"
    and parse: "\<forall>buf g0. \<exists>g1. ParsePacket buf w True None g0 = (g1, None) \<and> clear_flag (PType g1) = TypeData \<and> gp_src g1 = vA \<and> gp_dst g1 = vB"
    and opened: "\<forall>buf. \<exists>g1 g2 tail. ParsePacket buf w True None gp_empty = (g1, None) \<and> DecryptParse (ce_lz4 envA) (Some rcver) g1 = Some (g2, None) \<and>
       length (raw_bytes g2) > HeaderLength \<and> drop HeaderLength (raw_bytes g2) = p @ tail \<and> length tail \<le> 16"
    using data_frame [OF keys assms(9,7,8), of "ce_probe envA" "ce_cbuf envA" "ce_frame envA" "EnableCompress (ce_cfg envA)" vA vB] by blast
  obtain tA' where tA': "send_packet envA False p tA = Some (tA', [Datagram w u], PumpContinue)"
    "noiseMgr tA' = session_write vB (sA\<lparr>lastSeen := ce_now envA, ns_Cipher := (ns_Cipher sA)\<lparr>Sender := Some (snd (GetNonce snder))\<rparr>\<rparr>) (noiseMgr tA)"
    "client_rest envA srv vA tA'" "kept tA tA'"
    using sealed_sent [OF assms(1,4-6) A w(1)] by blast
  obtain g1 g2 tail where o: "ParsePacket (ce_raw envB) w True None gp_empty = (g1, None)" "DecryptParse (ce_lz4 envA) (Some rcver) g1 = Some (g2, None)"
    "length (raw_bytes g2) > HeaderLength" "drop HeaderLength (raw_bytes g2) = p @ tail" "length tail \<le> 16"
    using opened by blast
  have g1: "clear_flag (PType g1) = TypeData" "gp_src g1 = vA" using parse o(1) by (metis fst_conv)+
  obtain tB1 tB' where tB: "packetRecv envB False w from tB = Some (tB1, [], PumpContinue)" "device_write tB1 = Some (tB', [ToDevice (p @ tail)])"
    "noiseMgr tB' = session_write vA (UpdateLastSeen (ce_now envB) sB) (noiseMgr tB)" "client_rest envB srv vB tB'" "kept tB tB'"
    using sealed_received [OF assms(2) B o(1) g1 o(2) [folded assms(10)] o(3,4), of "from"] by blast
  have "mirrored tA' vA tB' vB"
    unfolding mirrored_def tA'(2) tB(3) using A B keys
    by (simp add: IsReady_def UpdateLastSeen_def GetNonce_def)
  moreover have "mirrored tB vB tA vA \<longrightarrow> mirrored tB' vB tA' vA"
    unfolding mirrored_def tA'(2) tB(3) using A(1,2) B(1,2)
    by (simp add: IsReady_def UpdateLastSeen_def)
  moreover have "length w \<le> 2048" using w(2) assms(8) by simp
  ultimately show ?thesis using that [OF tA'(1) _ parse tB(1,2) o(5) tA'(3) tB(4)] tA'(4) tB(5) by blast
qed

lemma sealed_relayed:
  assumes "client_rest envA srv vA tA" "client_rest envB srv vB tB" "mirrored tA vA tB vB"
    and "for_peer tA p vB" "not_direct tA vB" "p \<noteq> []" "length p \<le> 1280"
    and "hub_rest h" "registered h vA c aA" "registered h vB d aB"
    and "lz4_ok (ce_lz4 envA)" "ce_lz4 envB = ce_lz4 envA"
  shows "\<exists>tA' w tB1 tB' tail. send_packet envA False p tA = Some (tA', [Datagram w srv], PumpContinue) \<and>
    server_pass se dl aA w h = Some (relay_decision False vA vB c d aA h, [(w, aB)]) \<and>
    packetRecv envB False w srv tB = Some (tB1, [], PumpContinue) \<and> device_write tB1 = Some (tB', [ToDevice (p @ tail)]) \<and>
    length tail \<le> 16 \<and> client_rest envA srv vA tA' \<and> client_rest envB srv vB tB' \<and> mirrored tA' vA tB' vB \<and>
    (mirrored tB vB tA vA \<longrightarrow> mirrored tB' vB tA' vA) \<and> kept tA tA' \<and> kept tB tB'"
proof -
  have u: "link_target (Some srv) (link_of (p2pRouter tA) vB) = Some srv" "\<And>x. ce_accept envA x srv"
    using assms(1) not_direct_target [OF assms(5)] by (simp_all add: client_rest_def)
  obtain tA' w tB1 tB' tail where s: "send_packet envA False p tA = Some (tA', [Datagram w srv], PumpContinue)" "length w \<le> 2048"
    "\<forall>buf g0. \<exists>g1. ParsePacket buf w True None g0 = (g1, None) \<and> clear_flag (PType g1) = TypeData \<and> gp_src g1 = vA \<and> gp_dst g1 = vB"
    "packetRecv envB False w srv tB = Some (tB1, [], PumpContinue)" "device_write tB1 = Some (tB', [ToDevice (p @ tail)])"
    "length tail \<le> 16" "client_rest envA srv vA tA'" "client_rest envB srv vB tB'" "mirrored tA' vA tB' vB"
    "mirrored tB vB tA vA \<longrightarrow> mirrored tB' vB tA' vA" "kept tA tA'" "kept tB tB'"
    by (rule sealed_passage [OF assms(1-4) u assms(6,7,11,12), of srv])
  obtain g3 where "ParsePacket (se_buf se) w True None (se_gp se) = (g3, None)" "clear_flag (PType g3) = TypeData" "gp_src g3 = vA" "gp_dst g3 = vB"
    using s(3) by blast
  from server_pass_relays [OF assms(8-10) s(2) this] show ?thesis using s by blast
qed

lemma carry_sealed:
  assumes "client_rest envA srv vA tA" "client_rest envB srv vB tB" "mirrored tA vA tB vB" "from_device tA p vB"
    and "hub_rest h" "registered h vA c aA" "registered h vB d aB" "lz4_ok (ce_lz4 envA)" "ce_lz4 envB = ce_lz4 envA"
  shows "\<exists>tA' tB' tail. carry envA envB se dl srv aA p tA tB h =
      Some (tA', tB', relay_decision False vA vB c d aA h, aB, [ToDevice (p @ tail)]) \<and> length tail \<le> 16 \<and>
    client_rest envA srv vA tA' \<and> client_rest envB srv vB tB' \<and> mirrored tA' vA tB' vB \<and> kept tA tA' \<and> kept tB tB'"
proof -
  let ?t1 = "set_FromTun \<lparr>ch_cap = 256, ch_items = [p], ch_closed = False\<rparr> tA"
  have p: "20 \<le> length p" "length p \<le> 1280" "p \<noteq> []" "for_peer tA p vB" "not_direct tA vB" "readable tA p vB"
    using assms(4) by (auto simp: from_device_defs)
  have empty: "set_FromTun \<lparr>ch_cap = 256, ch_items = [], ch_closed = False\<rparr> ?t1 = tA"
    using assms(1) by (simp add: set_FromTun_def client_rest_def)
  obtain tA' w tB1 tB' tail where r: "send_packet envA False p tA = Some (tA', [Datagram w srv], PumpContinue)"
    "server_pass se dl aA w h = Some (relay_decision False vA vB c d aA h, [(w, aB)])"
    "packetRecv envB False w srv tB = Some (tB1, [], PumpContinue)" "device_write tB1 = Some (tB', [ToDevice (p @ tail)])"
    "length tail \<le> 16" "client_rest envA srv vA tA'" "client_rest envB srv vB tB'" "mirrored tA' vA tB' vB" "kept tA tA'" "kept tB tB'"
    using sealed_relayed [OF assms(1-3) p(4,5,3,2) assms(5-9), of se dl] by blast
  have "packetSend envA False ?t1 = Some (Some (count_sent 1 tA', [Datagram w srv], TurnDone))"
    using r(1) p(1) by (intro packetSend_one) (simp_all add: empty, simp add: set_FromTun_def)
  then have "carry envA envB se dl srv aA p tA tB h = Some (count_sent 1 tA', tB', relay_decision False vA vB c d aA h, aB, [ToDevice (p @ tail)])"
    using device_read_queued [OF assms(1) p(6)] r(2-4) by (simp add: carry_def send_turn_def relay_def)
  moreover have "client_rest envA srv vA (count_sent 1 tA')" "mirrored (count_sent 1 tA') vA tB' vB" "kept tA (count_sent 1 tA')"
    using r(6,8,9) by (simp_all add: client_rest_def mirrored_def count_sent_def kept_def)
  ultimately show ?thesis using r(5,7,10) by blast
qed

definition demo_se :: server_env where
  "demo_se = \<lparr>se_lz4 = null_lz4, se_buf = make_slice 0, se_probe = make_slice 0, se_cbuf = make_slice 0, se_frame = make_slice 0, se_gp = gp_empty\<rparr>"

lemma demo_hub_registered:
  "hub_rest (demo_hub nt (demo_addr 1) (demo_addr 7))"
  "registered (demo_hub nt (demo_addr 1) (demo_addr 7)) (IP4 10 0 6 2) 0 (demo_addr 1)"
  "registered (demo_hub nt (demo_addr 1) (demo_addr 7)) (IP4 10 0 6 3) 1 (demo_addr 7)"
  by (simp_all add: hub_rest_def registered_def demo_routes_ok demo_route idle_def demo_peer_def newClient_def IsValid_def)
    (simp_all add: demo_addr_def demo_hub_def NewHub_def registerDefaultWSHandlers_def RegisterWSHandler_def Let_def)

lemma demo_ready_rest:
  "client_rest (demo_env now) demo_server_addr (IP4 10 0 6 me) (demo_ready me peer)"
  by (simp add: client_rest_def demo_ready_def idle_def NewTransport_def gm_wf_def peers_ok_def demo_server_addr_def)

lemma demo_mirrored: "mirrored (demo_ready 2 3) (IP4 10 0 6 2) (demo_ready 3 2) (IP4 10 0 6 3)"
  by (simp add: mirrored_def zero_aead_ok)

lemma demo_from_device: "from_device (demo_ready 2 peer) demo_udp (IP4 10 0 6 3)"
  using wanted_iff [of "[10, 0, 6, 2]"]
  by (simp add: from_device_defs demo_udp_def for_peer_def dns_query_eq to_ip4_def not_direct_def link_of_def demo_ready_def NewTransport_def)

section \<open>First contact\<close>

text \<open>
  One control message of client \<open>c\<close> through the server: read, handled, and the answer written.
\<close>

fun sole_frame :: "effect list \<Rightarrow> bytes option" where
  "sole_frame [ToServer (BinaryFrame f)] = Some f"
| "sole_frame _ = None"

definition frame_out :: "server_env \<Rightarrow> cref \<Rightarrow> Hub \<Rightarrow> (Hub \<times> bytes) option" where
  "frame_out se c h =
     (case writePump (se_lz4 se) (se_probe se) (se_cbuf se) (se_frame se) True True c h of
        Some (h, Some (BinaryFrame r), _) \<Rightarrow> Some (h, r)
      | _ \<Rightarrow> None)"

definition control_pass :: "server_env \<Rightarrow> cref \<Rightarrow> bytes \<Rightarrow> Hub \<Rightarrow> (Hub \<times> bytes) option" where
  "control_pass se c f h =
     (case readPump False c (WsBinary f) (se_gp se) h of (_, h, _) \<Rightarrow> frame_out se c h)"

lemma encoded_frame:
  "int (length payload) \<le> MaxPayloadSize \<Longrightarrow>
     encoded env control (NewGamePacket src dst ty payload) = plain_frame (NewGamePacket src dst ty payload) 0"
  by (simp add: encoded_def EncodePacket_encode Let_def compressed_packet_def encode_plain plain_frame_def)

lemma EncodePacket_plain:
  "int (length payload) \<le> MaxPayloadSize \<Longrightarrow>
     \<exists>g c. EncodePacket z pb cb b control False None (NewGamePacket src dst ty payload) = (Some (plain_frame (NewGamePacket src dst ty payload) 0), g, c)"
  by (simp add: EncodePacket_encode Let_def compressed_packet_def encode_plain plain_frame_def)

lemma frame_out_queued:
  assumes "controlChan (client h c) = ch\<lparr>ch_items := [NewGamePacket src dst ty payload]\<rparr>" "idle ch" "clear_flag ty \<noteq> TypePong" "int (length payload) \<le> MaxPayloadSize"
  shows "frame_out se c h = Some (set_client c ((client h c)\<lparr>controlChan := ch\<rparr>) h, plain_frame (NewGamePacket src dst ty payload) 0)"
proof -
  obtain g cs where "EncodePacket (se_lz4 se) (se_probe se) (se_cbuf se) (se_frame se) True False None (NewGamePacket src dst ty payload) =
      (Some (plain_frame (NewGamePacket src dst ty payload) 0), g, cs)"
    using EncodePacket_plain [OF assms(4)] by metis
  then show ?thesis using assms(1-3) idle_drained [OF assms(2)] by (simp add: frame_out_def writePump_def chan_recv_def Let_def)
qed

lemma key_query_answered:
  assumes "hub_rest h" "registered h vA c aA" "registered h vB d aB" "c < length (hub_heap h)"
    and "gm_get (hub_wsHandlers h) TypeNoiseHandshake = Some handle_NoiseHandshake"
    and "length (noisePublicKey (client h d)) = 32" "length p \<le> 1280"
  shows "control_pass se c (plain_frame (NewGamePacket vA vB TypeNoiseHandshake p) 0) h =
    Some (h, plain_frame (NewGamePacket vB vA TypeNoiseResponse (noisePublicKey (client h d) @ p)) 0)"
proof -
  have le: "int (length p) \<le> MaxPayloadSize" "int (length (noisePublicKey (client h d) @ p)) \<le> MaxPayloadSize"
    using assms(6,7) by (simp_all add: MaxPayloadSize_eq)
  have ty: "clear_flag TypeNoiseHandshake = TypeNoiseHandshake" "TypeNoiseHandshake AND FlagCompress = 0"
    "clear_flag TypeNoiseResponse \<noteq> TypePong"
    by (simp_all add: type_defs FlagCompress_def)
  let ?ans = "NewGamePacket vB vA TypeNoiseResponse (noisePublicKey (client h d) @ p)"
  let ?h1 = "set_client c ((client h c)\<lparr>controlChan := (controlChan (client h c))\<lparr>ch_items := [?ans]\<rparr>\<rparr>) h"
  have "\<exists>g. readPump False c (WsBinary (plain_frame (NewGamePacket vA vB TypeNoiseHandshake p) 0)) (se_gp se) h = (g, ?h1, PumpContinue)"
    using assms(2,3,5) le(1) ty
    by (simp add: readPump_def ParseControl_plain_frame HandleWSMessage_def handleNoiseHandshake_def registered_def route_def
        send_control_def idle_send Let_def)
  moreover have "frame_out se c ?h1 = Some (set_client c ((client ?h1 c)\<lparr>controlChan := controlChan (client h c)\<rparr>) ?h1, plain_frame ?ans 0)"
    using assms(2,4) ty(3) le(2) by (intro frame_out_queued) (simp_all add: registered_def set_client_def)
  moreover have "set_client c ((client ?h1 c)\<lparr>controlChan := controlChan (client h c)\<rparr>) ?h1 = h"
    using assms(4) by (simp add: set_client_def)
  ultimately show ?thesis by (auto simp: control_pass_def)
qed

lemma kept_for_peer: "kept t t' \<Longrightarrow> for_peer t' p v = for_peer t p v" "kept t t' \<Longrightarrow> not_direct t' v = not_direct t v"
  by (simp_all add: kept_def for_peer_def dns_query_eq not_direct_def)

lemma kept_from_device: "kept t t' \<Longrightarrow> from_device t' p v = from_device t p v"
  using kept_for_peer [of t t'] by (simp add: from_device_defs kept_def)

lemma kept_rest:
  "kept t t' \<Longrightarrow> client_rest env srv v t \<Longrightarrow> myVip (noiseMgr t') = v \<Longrightarrow> tunChan (noiseMgr t') = [] \<Longrightarrow>
     gm_wf (sessions (noiseMgr t')) \<Longrightarrow> client_rest env srv v t'"
  by (simp add: kept_def client_rest_def)

lemma kept_trans: "kept t t' \<Longrightarrow> kept t' t'' \<Longrightarrow> kept t t''"
  by (simp add: kept_def)

lemma key_query_sent:
  assumes "client_rest env srv vA t" "from_device t p vB" "GetSession (noiseMgr t) vB = None"
  shows "\<exists>t1 t2. send_turn env (set_FromTun \<lparr>ch_cap = 256, ch_items = [p], ch_closed = False\<rparr> t) = Some (t1, []) \<and>
    controlSend env True t1 = Some (t2, [ToServer (BinaryFrame (plain_frame (NewGamePacket vA vB TypeNoiseHandshake p) 0))], PumpContinue) \<and>
    kept t t2 \<and> noiseMgr t2 = noiseMgr t"
proof -
  have p: "20 \<le> length p" "length p \<le> 1280" "for_peer t p vB" using assms(2) by (auto simp: from_device_defs)
  have r: "localIp t = ip4_bytes vA" "idle (ControlSendChan t)" "tunChan (noiseMgr t) = []" using assms(1) by (auto simp: client_rest_def)
  have le: "int (length p) \<le> MaxPayloadSize" using p(2) by (simp add: MaxPayloadSize_eq)
  let ?t0 = "set_FromTun \<lparr>ch_cap = 256, ch_items = [p], ch_closed = False\<rparr> t"
  let ?q = "NewGamePacket vA vB TypeNoiseHandshake p"
  let ?t1 = "t\<lparr>ControlSendChan := (ControlSendChan t)\<lparr>ch_items := [?q]\<rparr>\<rparr>"
  have "set_FromTun \<lparr>ch_cap = 256, ch_items = [], ch_closed = False\<rparr> ?t0 = t" using r(3) by (simp add: set_FromTun_def)
  moreover have "send_packet env False p t = Some (?t1, [], PumpContinue)"
    using p(3) r(1,2) assms(3) by (simp add: send_packet_def for_peer_def Let_def idle_send)
  ultimately have "send_turn env ?t0 = Some (count_sent 1 ?t1, [])"
    using packetSend_one [of ?t0 p env ?t1 "[]"] p(1) by (simp add: send_turn_def) (simp add: set_FromTun_def)
  moreover have "controlSend env True (count_sent 1 ?t1) =
      Some ((count_sent 1 ?t1)\<lparr>ControlSendChan := ControlSendChan t\<rparr>, [ToServer (BinaryFrame (plain_frame ?q 0))], PumpContinue)"
    using r(2) encoded_frame [OF le, of env True vA vB TypeNoiseHandshake]
    by (simp add: controlSend_def count_sent_def chan_recv_def idle_drained) (simp add: type_defs FlagCompress_def)
  moreover have "kept t ((count_sent 1 ?t1)\<lparr>ControlSendChan := ControlSendChan t\<rparr>)"
    "noiseMgr ((count_sent 1 ?t1)\<lparr>ControlSendChan := ControlSendChan t\<rparr>) = noiseMgr t"
    by (simp_all add: kept_def count_sent_def)
  ultimately show ?thesis by blast
qed

lemma handshake_started:
  assumes "localIp t = ip4_bytes vA \<and> serverAddr t = Some srv \<and> (\<forall>d. ce_accept env d srv)" "length pub = 32" "length p \<le> 1280"
    and "HandshakeInit (ce_noise env) (ce_rnd env) (ce_now env) vB pub p (noiseMgr t) = Some (m, Inr m1)" "length m1 = 96"
  shows "\<exists>g. controlRecv env True (WsBinary (plain_frame (NewGamePacket vB vA TypeNoiseResponse (pub @ p)) 0)) gp t =
    Some (g, t\<lparr>noiseMgr := m\<rparr>, [Datagram (plain_frame (NewGamePacket vA vB TypeData m1) 0) srv], PumpContinue)"
proof -
  have le: "int (length (pub @ p)) \<le> MaxPayloadSize" "int (length m1) \<le> MaxPayloadSize"
    using assms(2,3,5) by (simp_all add: MaxPayloadSize_eq)
  have ty: "clear_flag TypeNoiseResponse = TypeNoiseResponse" "TypeNoiseResponse AND FlagCompress = 0"
    by (simp_all add: type_defs FlagCompress_def)
  have "initiateNoise env vB pub p t = Some (t\<lparr>noiseMgr := m\<rparr>, [Datagram (plain_frame (NewGamePacket vA vB TypeData m1) 0) srv])"
    using assms(1,4) encoded_frame [OF le(2)] by (simp add: initiateNoise_def WriteToUDP_def udp_effects_def)
  then show ?thesis
    using ty le(1) assms(2) by (simp add: controlRecv_def ParseControl_plain_frame)
qed

lemma plain_data_parse:
  assumes "int (length m) \<le> MaxPayloadSize"
  shows "\<exists>g1. ParsePacket buf (plain_frame (NewGamePacket src dst TypeData m) 0) True None g0 = (g1, None) \<and>
    PType g1 = TypeData \<and> gp_src g1 = src \<and> gp_dst g1 = dst \<and> Payload g1 = m"
  using ParsePacket_plain_frame [of "NewGamePacket src dst TypeData m" buf 0 True g0] assms by auto

lemma handshake_answered:
  assumes "client_rest env srv vB t" "\<forall>d. ce_accept env d from" "length m1 = 96" "length m2 = 48"
    and "HandleNoisePacket (ce_noise env) (ce_rnd env) (ce_now env) vA m1 (noiseMgr t) = Some (m, Handled (Some s) (Some m2))"
  shows "\<exists>t'. packetRecv env False (plain_frame (NewGamePacket vA vB TypeData m1) 0) from t =
    Some (t', [Datagram (plain_frame (NewGamePacket vB vA TypeData m2) 0) from], PumpContinue) \<and> kept t t' \<and> noiseMgr t' = m"
proof -
  have le: "int (length m1) \<le> MaxPayloadSize" "int (length m2) \<le> MaxPayloadSize" using assms(3,4) by (simp_all add: MaxPayloadSize_eq)
  obtain g1 where g1: "ParsePacket (ce_raw env) (plain_frame (NewGamePacket vA vB TypeData m1) 0) True None gp_empty = (g1, None)"
    "PType g1 = TypeData" "gp_src g1 = vA" "Payload g1 = m1"
    using plain_data_parse [OF le(1)] by blast
  then show ?thesis
    using assms(1,2,5) encoded_frame [OF le(2)]
    by (simp add: packetRecv_def recv_data_def Let_def count_received_def client_rest_def WriteToUDP_def udp_effects_def kept_def)
qed

lemma handshake_finished:
  assumes "length m2 = 48" "HandleNoisePacket (ce_noise env) (ce_rnd env) (ce_now env) vB m2 (noiseMgr t) = Some (m, Handled None None)"
  shows "\<exists>t'. packetRecv env False (plain_frame (NewGamePacket vB vA TypeData m2) 0) srv t = Some (t', [], PumpContinue) \<and>
    kept t t' \<and> noiseMgr t' = m"
proof -
  have "int (length m2) \<le> MaxPayloadSize" using assms(1) by (simp add: MaxPayloadSize_eq)
  from plain_data_parse [OF this, of "ce_raw env" vB vA gp_empty] obtain g1 where
    "ParsePacket (ce_raw env) (plain_frame (NewGamePacket vB vA TypeData m2) 0) True None gp_empty = (g1, None)"
    "PType g1 = TypeData" "gp_src g1 = vB" "Payload g1 = m2" by blast
  then show ?thesis
    using assms(2) by (simp add: packetRecv_def recv_data_def Let_def count_received_def kept_def)
qed

text \<open>
  The whole exchange that a first packet starts, turn by turn: A reads it from its device and asks
  the server for the key of B; the handshake goes through the server in both directions; the
  packet, which waited at A, goes sealed to B.
\<close>

definition key_query :: "'h client_env \<Rightarrow> server_env \<Rightarrow> cref \<Rightarrow> 'h ClientTransport \<Rightarrow> Hub \<Rightarrow> ('h ClientTransport \<times> Hub \<times> bytes) option" where
  "key_query env se c t h = do {
     (t, out, _) \<leftarrow> controlSend env True t;
     f \<leftarrow> sole_frame out;
     (h, answer) \<leftarrow> control_pass se c f h;
     Some (t, h, answer)
   }"

definition handshake_round :: "'h client_env \<Rightarrow> 'h client_env \<Rightarrow> server_env \<Rightarrow> ('m, 'r) dns_lib \<Rightarrow> UDPAddr \<Rightarrow> addrport \<Rightarrow> addrport \<Rightarrow>
    GamePacket \<Rightarrow> bytes \<Rightarrow> 'h ClientTransport \<Rightarrow> 'h ClientTransport \<Rightarrow> Hub \<Rightarrow> ('h ClientTransport \<times> 'h ClientTransport \<times> Hub) option" where
  "handshake_round envA envB se dl srv aA aB gp answer tA tB h = do {
     (_, tA, out, _) \<leftarrow> controlRecv envA True (WsBinary answer) gp tA;
     (h, w, _) \<leftarrow> relay se dl aA out h;
     (tB, out, _) \<leftarrow> packetRecv envB False w srv tB;
     (h, w, _) \<leftarrow> relay se dl aB out h;
     (tA, _) \<leftarrow> packetRecv envA False w srv tA;
     Some (tA, tB, h)
   }"

definition key_exchange :: "'h client_env \<Rightarrow> 'h client_env \<Rightarrow> server_env \<Rightarrow> ('m, 'r) dns_lib \<Rightarrow> UDPAddr \<Rightarrow> cref \<Rightarrow> addrport \<Rightarrow> addrport \<Rightarrow>
    GamePacket \<Rightarrow> bytes \<Rightarrow> 'h ClientTransport \<Rightarrow> 'h ClientTransport \<Rightarrow> Hub \<Rightarrow> ('h ClientTransport \<times> 'h ClientTransport \<times> Hub) option" where
  "key_exchange envA envB se dl srv c aA aB gp p tA tB h = do {
     (tA, _) \<leftarrow> device_read False (TunPacket p) tA;
     (tA, _) \<leftarrow> send_turn envA tA;
     (tA, h, answer) \<leftarrow> key_query envA se c tA h;
     handshake_round envA envB se dl srv aA aB gp answer tA tB h
   }"

definition first_contact :: "'h client_env \<Rightarrow> 'h client_env \<Rightarrow> server_env \<Rightarrow> ('m, 'r) dns_lib \<Rightarrow> UDPAddr \<Rightarrow> cref \<Rightarrow> addrport \<Rightarrow> addrport \<Rightarrow>
    GamePacket \<Rightarrow> bytes \<Rightarrow> 'h ClientTransport \<Rightarrow> 'h ClientTransport \<Rightarrow> Hub \<Rightarrow> ('h ClientTransport \<times> 'h ClientTransport \<times> Hub \<times> effect list) option" where
  "first_contact envA envB se dl srv c aA aB gp p tA tB h = do {
     (tA, tB, h) \<leftarrow> key_exchange envA envB se dl srv c aA aB gp p tA tB h;
     (tA, out) \<leftarrow> send_turn envA tA;
     (h, w, _) \<leftarrow> relay se dl aA out h;
     (tB, _) \<leftarrow> packetRecv envB False w srv tB;
     (tB, out) \<leftarrow> device_write tB;
     Some (tA, tB, h, out)
   }"

lemma plain_relayed:
  assumes "hub_rest h" "registered h vA c aA" "registered h vB d aB" "length m \<le> 96"
  shows "\<exists>h'. relay se dl aA [Datagram (plain_frame (NewGamePacket vA vB TypeData m) 0) srv] h =
      Some (h', plain_frame (NewGamePacket vA vB TypeData m) 0, aB) \<and> hub_rest h' \<and>
    (\<forall>v e a. registered h v e a \<longrightarrow> registered h' v e a)"
proof -
  let ?w = "plain_frame (NewGamePacket vA vB TypeData m) 0"
  have "int (length m) \<le> MaxPayloadSize" using assms(4) by (simp add: MaxPayloadSize_eq)
  then obtain g1 where "ParsePacket (se_buf se) ?w True None (se_gp se) = (g1, None)" "clear_flag (PType g1) = TypeData" "gp_src g1 = vA" "gp_dst g1 = vB"
    using plain_data_parse [of m "se_buf se" vA vB "se_gp se"] by auto
  moreover have "length ?w \<le> 2048" using assms(4) by (simp add: plain_frame_def)
  ultimately have "server_pass se dl aA ?w h = Some (relay_decision False vA vB c d aA h, [(?w, aB)])"
    using server_pass_relays [OF assms(1-3)] by metis
  then show ?thesis using same_hub_keeps [OF relay_decision_same_hub] assms(1) by (simp add: relay_def)
qed

lemma rejoin_sealed:
  assumes "client_rest env srv v t" "kept t t'" "tunChan (noiseMgr t') = [p]" "myVip (noiseMgr t') = v" "gm_wf (sessions (noiseMgr t'))"
    and "from_device t p w"
  shows "client_rest env srv v (set_FromTun \<lparr>ch_cap = 256, ch_items = [], ch_closed = False\<rparr> t')"
    and "for_peer (set_FromTun \<lparr>ch_cap = 256, ch_items = [], ch_closed = False\<rparr> t') p w"
    and "not_direct (set_FromTun \<lparr>ch_cap = 256, ch_items = [], ch_closed = False\<rparr> t') w"
    and "20 \<le> length p" "p \<noteq> []" "length p \<le> 1280"
  using assms kept_for_peer [OF assms(2)]
  by (auto simp: client_rest_def kept_def set_FromTun_def from_device_defs for_peer_def dns_query_eq not_direct_def)

text \<open>The assumptions of a first contact: both clients are registered and have no session with each other.\<close>

definition strangers :: "'h client_env \<Rightarrow> 'h client_env \<Rightarrow> UDPAddr \<Rightarrow> ip4 \<Rightarrow> ip4 \<Rightarrow> 'h ClientTransport \<Rightarrow> 'h ClientTransport \<Rightarrow> bool" where
  "strangers envA envB srv vA vB tA tB \<longleftrightarrow> client_rest envA srv vA tA \<and> client_rest envB srv vB tB \<and>
     GetSession (noiseMgr tA) vB = None \<and> GetSession (noiseMgr tB) vA = None \<and>
     ce_noise envB = ce_noise envA \<and> ce_lz4 envB = ce_lz4 envA \<and> lz4_ok (ce_lz4 envA)"

text \<open>
  The handshake itself. The keys of the sessions come from the library.
\<close>

definition agreed :: "'h noise_lib \<Rightarrow> 'h ClientTransport \<Rightarrow> ip4 \<Rightarrow> 'h ClientTransport \<Rightarrow> ip4 \<Rightarrow> bool" where
  "agreed nl tA vA tB vB \<longleftrightarrow> (\<exists>sA sB a1 a2 k1 k2.
     GetSession (noiseMgr tA) vB = Some sA \<and> session_keys sA a1 a2 \<and> GetSession (noiseMgr tB) vA = Some sB \<and> session_keys sB a2 a1 \<and>
     aead_ok a1 \<and> aead_ok a2 \<and> nl_aead nl k1 = Inr a1 \<and> nl_aead nl k2 = Inr a2)"

lemma agreed_mirrored: "agreed nl tA vA tB vB \<Longrightarrow> mirrored tA vA tB vB \<and> mirrored tB vB tA vA"
  by (auto simp: agreed_def mirrored_def session_keys_def)

lemma keys_exchanged:
  assumes "strangers envA envB srv vA vB tA tB" "noise_ok (ce_noise envA) keypair"
    and "keypair (static_key (noiseMgr tA))" "keypair (static_key (noiseMgr tB))"
  shows "\<exists>mA m1 mB sB m2 mA'. length m1 = 96 \<and> length m2 = 48 \<and>
    HandshakeInit (ce_noise envA) (ce_rnd envA) (ce_now envA) vB (GetPublicKey (noiseMgr tB)) p (noiseMgr tA) = Some (mA, Inr m1) \<and>
    HandleNoisePacket (ce_noise envB) (ce_rnd envB) (ce_now envB) vA m1 (noiseMgr tB) = Some (mB, Handled (Some sB) (Some m2)) \<and>
    HandleNoisePacket (ce_noise envA) (ce_rnd envA) (ce_now envA) vB m2 mA = Some (mA', Handled None None) \<and>
    agreed (ce_noise envA) (tA\<lparr>noiseMgr := mA'\<rparr>) vA (tB\<lparr>noiseMgr := mB\<rparr>) vB \<and>
    static_key mA' = static_key (noiseMgr tA) \<and>
    tunChan mA' = [p] \<and> gm_wf (sessions mA') \<and> myVip mA' = vA \<and> tunChan mB = [] \<and> gm_wf (sessions mB) \<and> myVip mB = vB"
proof -
  have n: "ce_noise envB = ce_noise envA" "GetSession (noiseMgr tB) vA = None" and
    A: "gm_wf (sessions (noiseMgr tA))" "myVip (noiseMgr tA) = vA" "tunChan (noiseMgr tA) = []" and
    B: "gm_wf (sessions (noiseMgr tB))" "myVip (noiseMgr tB) = vB" "tunChan (noiseMgr tB) = []"
    using assms(1) by (auto simp: strangers_def client_rest_def)
  obtain h1 m1 g1 g2 m2 k1 k2 h2 a1 a2 where
    lib: "nl_write (ce_noise envA) (nl_initiator (ce_noise envA) (static_key (noiseMgr tA)) (GetPublicKey (noiseMgr tB)) (ce_rnd envA)) = (h1, Inr (m1, None))"
    "length m1 = 96" "nl_read (ce_noise envA) (nl_responder (ce_noise envA) (static_key (noiseMgr tB)) (ce_rnd envB)) m1 = (g1, Inr None)"
    "nl_write (ce_noise envA) g1 = (g2, Inr (m2, Some (k1, k2)))" "length m2 = 48" "nl_read (ce_noise envA) h1 m2 = (h2, Inr (Some (k1, k2)))"
    "nl_aead (ce_noise envA) k1 = Inr a1" "aead_ok a1" "nl_aead (ce_noise envA) k2 = Inr a2" "aead_ok a2"
    using noise_okE [OF assms(2-4), of "ce_rnd envA" "ce_rnd envB"] unfolding GetPublicKey_def by metis
  obtain mA where mA: "HandshakeInit (ce_noise envA) (ce_rnd envA) (ce_now envA) vB (GetPublicKey (noiseMgr tB)) p (noiseMgr tA) = Some (mA, Inr m1)"
    "awaiting mA vB h1 [p]" "gm_wf (sessions mA)" "myVip mA = vA" "tunChan mA = []" "static_key mA = static_key (noiseMgr tA)"
    using HandshakeInit_awaiting [OF A(1) lib(1), of "ce_now envA" vB p] A(2,3) by auto
  obtain mB sB where mB: "handleResponderFirst (ce_noise envA) (ce_rnd envB) (ce_now envB) vA m1 (noiseMgr tB) = Some (mB, Handled (Some sB) (Some m2))"
    "GetSession mB vA = Some sB" "session_keys sB a2 a1" "tunChan mB = []" "gm_wf (sessions mB)" "myVip mB = vB"
    using responder_replies [OF B(1) lib(3,4,7,9), of "ce_now envB" vA] B(2,3) by auto
  obtain mA' sA where mA': "HandleNoisePacket (ce_noise envA) (ce_rnd envA) (ce_now envA) vB m2 mA = Some (mA', Handled None None)"
    "GetSession mA' vB = Some sA" "session_keys sA a1 a2" "tunChan mA' = [p]" "gm_wf (sessions mA')" "myVip mA' = vA" "static_key mA' = static_key (noiseMgr tA)"
    using awaiting_finishes [OF mA(2) lib(5,6,7,9), of "ce_rnd envA" "ce_now envA"] mA(3-6) by auto
  have "HandleNoisePacket (ce_noise envB) (ce_rnd envB) (ce_now envB) vA m1 (noiseMgr tB) = Some (mB, Handled (Some sB) (Some m2))"
    using mB(1) n by (simp add: HandleNoisePacket_none)
  moreover have "agreed (ce_noise envA) (tA\<lparr>noiseMgr := mA'\<rparr>) vA (tB\<lparr>noiseMgr := mB\<rparr>) vB"
    using lib(7-10) mB(2,3) mA'(2,3) unfolding agreed_def by auto
  ultimately show ?thesis using lib(2,5) mA(1) mB(4-6) mA' by blast
qed

lemma handshake_round_done:
  assumes "strangers envA envB srv vA vB tA tB" and "length p \<le> 1280"
    and "noise_ok (ce_noise envA) keypair" and "keypair (static_key (noiseMgr tA))" and "keypair (static_key (noiseMgr tB))"
    and "length (GetPublicKey (noiseMgr tB)) = 32"
    and "hub_rest h" and "registered h vA c aA" and "registered h vB d aB"
  shows "\<exists>tA' tB' h'. handshake_round envA envB se dl srv aA aB gp
      (plain_frame (NewGamePacket vB vA TypeNoiseResponse (GetPublicKey (noiseMgr tB) @ p)) 0) tA tB h = Some (tA', tB', h') \<and>
    kept tA tA' \<and> tunChan (noiseMgr tA') = [p] \<and> myVip (noiseMgr tA') = vA \<and> gm_wf (sessions (noiseMgr tA')) \<and>
    static_key (noiseMgr tA') = static_key (noiseMgr tA) \<and>
    client_rest envB srv vB tB' \<and> agreed (ce_noise envA) tA' vA tB' vB \<and>
    hub_rest h' \<and> (\<forall>v e a. registered h v e a \<longrightarrow> registered h' v e a)"
proof -
  have rest: "client_rest envA srv vA tA" "client_rest envB srv vB tB" using assms(1) by (auto simp: strangers_def)
  obtain mA m1 mB sB m2 mA' where k: "length m1 = 96" "length m2 = 48"
    "HandshakeInit (ce_noise envA) (ce_rnd envA) (ce_now envA) vB (GetPublicKey (noiseMgr tB)) p (noiseMgr tA) = Some (mA, Inr m1)"
    "HandleNoisePacket (ce_noise envB) (ce_rnd envB) (ce_now envB) vA m1 (noiseMgr tB) = Some (mB, Handled (Some sB) (Some m2))"
    "HandleNoisePacket (ce_noise envA) (ce_rnd envA) (ce_now envA) vB m2 mA = Some (mA', Handled None None)"
    and keys: "agreed (ce_noise envA) (tA\<lparr>noiseMgr := mA'\<rparr>) vA (tB\<lparr>noiseMgr := mB\<rparr>) vB" "static_key mA' = static_key (noiseMgr tA)"
    and m: "tunChan mA' = [p]" "gm_wf (sessions mA')" "myVip mA' = vA" "tunChan mB = []" "gm_wf (sessions mB)" "myVip mB = vB"
    using keys_exchanged [OF assms(1,3-5)] by metis
  obtain g where st: "controlRecv envA True (WsBinary (plain_frame (NewGamePacket vB vA TypeNoiseResponse (GetPublicKey (noiseMgr tB) @ p)) 0)) gp tA =
      Some (g, tA\<lparr>noiseMgr := mA\<rparr>, [Datagram (plain_frame (NewGamePacket vA vB TypeData m1) 0) srv], PumpContinue)"
    using handshake_started [OF _ assms(6,2) k(3) k(1), where srv = srv and gp = gp] rest(1) by (auto simp: client_rest_def)
  obtain h1 where h1: "relay se dl aA [Datagram (plain_frame (NewGamePacket vA vB TypeData m1) 0) srv] h = Some (h1, plain_frame (NewGamePacket vA vB TypeData m1) 0, aB)"
    "hub_rest h1" "\<forall>v e a. registered h v e a \<longrightarrow> registered h1 v e a"
    using plain_relayed [OF assms(7-9), of m1 se dl srv] k(1) by auto
  obtain tB1 where b: "packetRecv envB False (plain_frame (NewGamePacket vA vB TypeData m1) 0) srv tB =
      Some (tB1, [Datagram (plain_frame (NewGamePacket vB vA TypeData m2) 0) srv], PumpContinue)" "kept tB tB1" "noiseMgr tB1 = mB"
    using handshake_answered [OF rest(2) _ k(1,2,4)] rest(2) by (auto simp: client_rest_def)
  obtain h2 where h2: "relay se dl aB [Datagram (plain_frame (NewGamePacket vB vA TypeData m2) 0) srv] h1 = Some (h2, plain_frame (NewGamePacket vB vA TypeData m2) 0, aA)"
    "hub_rest h2" "\<forall>v e a. registered h1 v e a \<longrightarrow> registered h2 v e a"
    using plain_relayed [of h1 vB d aB vA c aA m2 se dl srv] k(2) h1(2,3) assms(8,9) by auto
  obtain t3 where f: "packetRecv envA False (plain_frame (NewGamePacket vB vA TypeData m2) 0) srv (tA\<lparr>noiseMgr := mA\<rparr>) = Some (t3, [], PumpContinue)"
    "kept (tA\<lparr>noiseMgr := mA\<rparr>) t3" "noiseMgr t3 = mA'"
    using handshake_finished [OF k(2), of envA vB "tA\<lparr>noiseMgr := mA\<rparr>" mA' vA srv] k(5) by auto
  have "handshake_round envA envB se dl srv aA aB gp
      (plain_frame (NewGamePacket vB vA TypeNoiseResponse (GetPublicKey (noiseMgr tB) @ p)) 0) tA tB h = Some (t3, tB1, h2)"
    using st h1(1) b(1) h2(1) f(1) by (simp add: handshake_round_def)
  moreover have "kept tA t3" using f(2) by (simp add: kept_def)
  moreover have "agreed (ce_noise envA) t3 vA tB1 vB" using keys(1) b(3) f(3) by (simp add: agreed_def)
  moreover have "client_rest envB srv vB tB1" using kept_rest [OF b(2) rest(2)] m(4-6) b(3) by simp
  ultimately show ?thesis using h1(3) h2(2,3) m(1-3) f(3) keys(2) by auto
qed

lemma key_exchange_done:
  assumes "strangers envA envB srv vA vB tA tB" and "from_device tA p vB"
    and "noise_ok (ce_noise envA) keypair" and "keypair (static_key (noiseMgr tA))" and "keypair (static_key (noiseMgr tB))"
    and "length (GetPublicKey (noiseMgr tB)) = 32" and "noisePublicKey (client h d) = GetPublicKey (noiseMgr tB)"
    and "hub_rest h" and "registered h vA c aA" and "registered h vB d aB"
    and "gm_get (hub_wsHandlers h) TypeNoiseHandshake = Some handle_NoiseHandshake"
  shows "\<exists>tA' tB' h'. key_exchange envA envB se dl srv c aA aB gp p tA tB h = Some (tA', tB', h') \<and>
    kept tA tA' \<and> tunChan (noiseMgr tA') = [p] \<and> myVip (noiseMgr tA') = vA \<and> gm_wf (sessions (noiseMgr tA')) \<and>
    client_rest envB srv vB tB' \<and> mirrored tA' vA tB' vB \<and> mirrored tB' vB tA' vA \<and>
    hub_rest h' \<and> registered h' vA c aA \<and> registered h' vB d aB"
proof -
  have rest: "client_rest envA srv vA tA" "GetSession (noiseMgr tA) vB = None" using assms(1) by (auto simp: strangers_def)
  have p: "length p \<le> 1280" using assms(2) by (auto simp: from_device_defs)
  have c: "c < length (hub_heap h)" using assms(8,9) by (auto simp: hub_rest_def registered_def intro: routes_okD)
  obtain t1 t2 where q: "send_turn envA (set_FromTun \<lparr>ch_cap = 256, ch_items = [p], ch_closed = False\<rparr> tA) = Some (t1, [])"
    "controlSend envA True t1 = Some (t2, [ToServer (BinaryFrame (plain_frame (NewGamePacket vA vB TypeNoiseHandshake p) 0))], PumpContinue)"
    "kept tA t2" "noiseMgr t2 = noiseMgr tA"
    using key_query_sent [OF rest(1) assms(2) rest(2)] by blast
  have ans: "control_pass se c (plain_frame (NewGamePacket vA vB TypeNoiseHandshake p) 0) h =
      Some (h, plain_frame (NewGamePacket vB vA TypeNoiseResponse (GetPublicKey (noiseMgr tB) @ p)) 0)"
    using key_query_answered [OF assms(8-10) c assms(11) _ p] assms(6,7) by simp
  have "client_rest envA srv vA t2" using kept_rest [OF q(3) rest(1)] rest(1) q(4) by (simp add: client_rest_def)
  then have "strangers envA envB srv vA vB t2 tB" using assms(1) q(4) by (simp add: strangers_def)
  from handshake_round_done [OF this p assms(3) _ assms(5,6,8-10), of se dl gp] assms(4) q(4) obtain tA' tB' h' where
    r: "handshake_round envA envB se dl srv aA aB gp (plain_frame (NewGamePacket vB vA TypeNoiseResponse (GetPublicKey (noiseMgr tB) @ p)) 0) t2 tB h =
      Some (tA', tB', h')" "kept t2 tA'" "tunChan (noiseMgr tA') = [p]" "myVip (noiseMgr tA') = vA" "gm_wf (sessions (noiseMgr tA'))"
    "client_rest envB srv vB tB'" "agreed (ce_noise envA) tA' vA tB' vB" "hub_rest h'" "\<forall>v e a. registered h v e a \<longrightarrow> registered h' v e a"
    by auto
  have "key_exchange envA envB se dl srv c aA aB gp p tA tB h = Some (tA', tB', h')"
    using device_read_queued [OF rest(1), of p vB] assms(2) q(1,2) ans r(1) by (simp add: key_exchange_def key_query_def from_device_def)
  then show ?thesis using kept_trans [OF q(3) r(2)] r(3-9) agreed_mirrored assms(9,10) by blast
qed

definition demo_new :: "byte \<Rightarrow> nat ClientTransport" where
  "demo_new me = (demo_ready me 0)\<lparr>noiseMgr := SetVirtualIp (IP4 10 0 6 me) (NewNoiseManager ([me], replicate 32 0))\<rparr>"

lemma demo_strangers:
  "strangers (demo_env 100) (demo_env 100) demo_server_addr (IP4 10 0 6 2) (IP4 10 0 6 3) (demo_new 2) (demo_new 3)"
  by (simp add: strangers_def client_rest_def demo_new_def demo_ready_def idle_def NewTransport_def peers_ok_def demo_server_addr_def
      SetVirtualIp_def NewNoiseManager_def GetSession_def null_lz4_ok)

lemma demo_new_device: "from_device (demo_new 2) demo_udp (IP4 10 0 6 3)"
proof -
  have "kept (demo_ready 2 0) (demo_new 2)" by (simp add: kept_def demo_new_def)
  then show ?thesis using demo_from_device [of 0] by (simp add: kept_from_device)
qed

section \<open>Names\<close>

text \<open>A DNS query of a program at A: from its device to the server and the answer back to the device.\<close>

definition dns_round :: "'h client_env \<Rightarrow> server_env \<Rightarrow> ('m, 'r) dns_lib \<Rightarrow> UDPAddr \<Rightarrow> addrport \<Rightarrow> bytes \<Rightarrow>
    'h ClientTransport \<Rightarrow> Hub \<Rightarrow> ('h ClientTransport \<times> Hub \<times> effect list) option" where
  "dns_round env se dl srv aA q t h = do {
     (t, _) \<leftarrow> device_read False (TunPacket q) t;
     (t, out) \<leftarrow> send_turn env t;
     (h, w, _) \<leftarrow> relay se dl aA out h;
     (t, out, _) \<leftarrow> packetRecv env False w srv t;
     Some (t, h, out)
   }"

text \<open>The parts of a query packet: the source port and the DNS message.\<close>

abbreviation query_port :: "bytes \<Rightarrow> bytes" where
  "query_port q \<equiv> [q ! ihl q, q ! (ihl q + 1)]"

definition query_from_device :: "'h ClientTransport \<Rightarrow> Tun \<Rightarrow> bytes \<Rightarrow> bool" where
  "query_from_device t dev q \<longleftrightarrow> ct_device t = Some dev \<and> 20 \<le> length q \<and> length q \<le> 1280 \<and> drop_bit 4 (q ! 0) = 4 \<and>
     wanted (tun_Subnet dev) (take 4 (drop 16 q)) \<and> dns_query t (to_ip4 (drop 16 q)) q = Some True \<and> not_direct t (to_ip4 (drop 16 q))"

lemma query_sent:
  assumes "client_rest env srv vA t" "query_from_device t dev q"
  shows "\<exists>t1. device_read False (TunPacket q) t = Some (set_FromTun \<lparr>ch_cap = 256, ch_items = [q], ch_closed = False\<rparr> t, PumpContinue) \<and>
    send_turn env (set_FromTun \<lparr>ch_cap = 256, ch_items = [q], ch_closed = False\<rparr> t) =
      Some (t1, [Datagram (plain_frame (NewGamePacket vA (to_ip4 (drop 16 q)) TypeDnsRequest (query_port q @ drop (ihl q + 8) q)) 0) srv]) \<and>
    localIp t1 = localIp t \<and> ct_device t1 = ct_device t"
proof -
  have r: "localIp t = ip4_bytes vA" "serverAddr t = Some srv" "tunChan (noiseMgr t) = []" "peers_ok (p2pRouter t)" "\<And>d. ce_accept env d srv"
    using assms(1) by (auto simp: client_rest_def)
  have q: "20 \<le> length q" "length q \<le> 1280" "drop_bit 4 (q ! 0) = 4" "wanted (tun_Subnet dev) (take 4 (drop 16 q))"
    "dns_query t (to_ip4 (drop 16 q)) q = Some True" "not_direct t (to_ip4 (drop 16 q))" "ct_device t = Some dev"
    using assms(2) by (auto simp: query_from_device_def)
  have len: "ihl q + 8 \<le> length q" using q(5) by (auto simp: dns_query_eq split: if_splits)
  let ?t0 = "set_FromTun \<lparr>ch_cap = 256, ch_items = [q], ch_closed = False\<rparr> t"
  let ?pl = "query_port q @ drop (ihl q + 8) q"
  let ?w = "plain_frame (NewGamePacket vA (to_ip4 (drop 16 q)) TypeDnsRequest ?pl) 0"
  have "int (length ?pl) \<le> MaxPayloadSize" using q(2) by (simp add: MaxPayloadSize_eq)
  note enc = encoded_frame [OF this, of env False vA "to_ip4 (drop 16 q)" TypeDnsRequest]
  obtain t1 out where tr: "transmit env (to_ip4 (drop 16 q)) ?w t = (t1, out)" by force
  have "out = [Datagram ?w srv]"
    using transmit_link [OF r(4), of env "to_ip4 (drop 16 q)" ?w] not_direct_target [OF q(6)] tr r(2,5)
    by (simp add: WriteToUDP_def udp_effects_def)
  then have "send_packet env False q t = Some (t1, [Datagram ?w srv], PumpContinue)"
    using q(1,5) len r(1) enc tr by (simp add: send_packet_def Let_def To4_def)
  moreover have "set_FromTun \<lparr>ch_cap = 256, ch_items = [], ch_closed = False\<rparr> ?t0 = t" using r(3) by (simp add: set_FromTun_def)
  ultimately have "send_turn env ?t0 = Some (count_sent 1 t1, [Datagram ?w srv])"
    using packetSend_one [of ?t0 q env t1 "[Datagram ?w srv]"] q(1) by (simp add: send_turn_def) (simp add: set_FromTun_def)
  moreover have "localIp t1 = localIp t" "ct_device t1 = ct_device t"
    using core_transmit [of env "to_ip4 (drop 16 q)" ?w t] tr by (simp_all add: core_def)
  moreover have "device_read False (TunPacket q) t = Some (?t0, PumpContinue)"
    using q r(3) by (simp add: device_read_def tunRecv_def FromTun_def select_send_def try_send_def chan_send_def)
  ultimately show ?thesis by (simp add: count_sent_def)
qed

lemma query_answered:
  assumes "hub_rest h" "length pl \<le> 1280" "buildDnsResponse dl pl h = Inr resp" "int (length resp) \<le> MaxPayloadSize" "IsValid aA"
  shows "\<exists>h'. relay se dl aA [Datagram (plain_frame (NewGamePacket vA dst TypeDnsRequest pl) 0) srv] h =
    Some (h', plain_frame (NewGamePacket ip4_zero vA TypeDnsResponse resp) 0, aA) \<and> same_hub h h'"
proof -
  let ?w = "plain_frame (NewGamePacket vA dst TypeDnsRequest pl) 0"
  let ?r = "NewGamePacket ip4_zero vA TypeDnsResponse resp"
  have le: "int (length pl) \<le> MaxPayloadSize" using assms(2) by (simp add: MaxPayloadSize_eq)
  have ty: "clear_flag TypeDnsRequest = TypeDnsRequest" "TypeDnsRequest AND FlagCompress = 0" "TypeDnsRequest \<noteq> TypePing"
    by (simp_all add: type_defs FlagCompress_def)
  obtain g1 where g1: "ParsePacket (se_buf se) ?w True None (se_gp se) = (g1, None)" "PType g1 = TypeDnsRequest" "gp_src g1 = vA" "Payload g1 = pl"
    using ParsePacket_plain_frame [of "NewGamePacket vA dst TypeDnsRequest pl" "se_buf se" 0 True "se_gp se"] le ty by auto
  obtain g cs where enc: "EncodePacket (se_lz4 se) (se_probe se) (se_cbuf se) (se_frame se) False False None ?r = (Some (plain_frame ?r 0), g, cs)"
    using EncodePacket_plain [OF assms(4)] by metis
  let ?pk = "\<lparr>pk_data = plain_frame ?r 0, pk_broadcast = False, pk_dstAddr = aA\<rparr>"
  have "fst (try_send ?pk (hub_packetChan h)) = (hub_packetChan h)\<lparr>ch_items := [?pk]\<rparr>"
    using assms(1) by (simp add: hub_rest_def idle_def try_send_def chan_send_def)
  moreover have "length ?w \<le> 2048" using assms(2) by (simp add: plain_frame_def)
  ultimately have "server_pass se dl aA ?w h = Some (h, [(plain_frame ?r 0, aA)])"
    using assms(1,3,5) g1 ty enc
    by (simp add: server_pass_def listenUdp_def Let_def chan_recv_def writeUdpPacket_batch hub_rest_def idle_def)
  then show ?thesis by (simp add: relay_def same_hub_def)
qed

lemma answer_received:
  assumes "ct_device t = Some dev" "int (length resp) \<le> MaxPayloadSize" "BuildDNSResponse resp (localIp t) (Dns dev) = Inr pk"
  shows "packetRecv env False (plain_frame (NewGamePacket ip4_zero vA TypeDnsResponse resp) 0) srv t =
    Some (count_received (length (plain_frame (NewGamePacket ip4_zero vA TypeDnsResponse resp) 0)) t, [ToDevice pk], PumpContinue)"
proof -
  let ?w = "plain_frame (NewGamePacket ip4_zero vA TypeDnsResponse resp) 0"
  have ty: "clear_flag TypeDnsResponse = TypeDnsResponse" "TypeDnsResponse AND FlagCompress = 0" "TypeDnsResponse \<noteq> TypePing"
    "TypeDnsResponse \<noteq> TypePong" "TypeDnsResponse \<noteq> TypeData"
    by (simp_all add: type_defs FlagCompress_def)
  obtain g1 where "ParsePacket (ce_raw env) ?w True None gp_empty = (g1, None)" "PType g1 = TypeDnsResponse" "Payload g1 = resp"
    using ParsePacket_plain_frame [of "NewGamePacket ip4_zero vA TypeDnsResponse resp" "ce_raw env" 0 True gp_empty] assms(2) ty by auto
  then show ?thesis using assms(1,3) ty by (simp add: packetRecv_def recv_dns_def count_received_def)
qed

definition demo_query :: bytes where
  "demo_query = [69, 0, 0, 34, 0, 0, 0, 0, 64, 17, 0, 0, 10, 0, 6, 2, 10, 0, 6, 1, 18, 52, 0, 53, 0, 14, 0, 0] @ str ''pc'' @ str ''.et.''"

lemma demo_query_sel:
  "ihl demo_query = 20" "drop 28 demo_query = str ''pc'' @ str ''.et.''" "query_port demo_query = [18, 52]"
  "query_from_device (demo_new 2) (tun_state (str ''pc'') (str ''.et'') [10, 0, 6, 2]) demo_query"
  using wanted_iff [of "[10, 0, 6, 2]"]
  by (simp_all add: demo_query_def query_from_device_def demo_new_def demo_ready_def dns_query_eq to_ip4_def Dns_def tun_state_def
      get_be16_def not_direct_def link_of_def NewTransport_def)

section \<open>Joining the network\<close>

text \<open>
  The address and the name the server has for a client: those it kept for the client's
  identifier, otherwise the next free address and a name made unique.
\<close>

definition granted :: "Hub \<Rightarrow> bytes \<Rightarrow> gostring \<Rightarrow> byte \<Rightarrow> gostring \<Rightarrow> bool" where
  "granted h ident name b n \<longleftrightarrow>
     (case gm_get (hub_retentionMap h) ident of
        Some oc \<Rightarrow> oc_virtualIp oc = host b \<and> oc_hostname oc = n
      | None \<Rightarrow> (\<exists>free. hub_freeIps h = free @ [b]) \<and> n = UniqueHostName name (hub_dnsMap h))"

lemma granted_assigned:
  assumes "granted h (handshake_id pl) (drop 49 pl) b n" "hub_Subnet h = subnet" "c < length (hub_heap h)"
  shows "client (handshake_assign (hub_dnsMap h) c pl h) c = handshaken pl (host b) n (client h c)"
    and "hub_router (handshake_assign (hub_dnsMap h) c pl h) = hub_router h"
    and "hub_dnsMap (handshake_assign (hub_dnsMap h) c pl h) = hub_dnsMap h"
    and "length (hub_heap (handshake_assign (hub_dnsMap h) c pl h)) = length (hub_heap h)"
proof -
  consider oc where "gm_get (hub_retentionMap h) (handshake_id pl) = Some oc" "oc_virtualIp oc = host b" "oc_hostname oc = n"
    | free where "gm_get (hub_retentionMap h) (handshake_id pl) = None" "hub_freeIps h = free @ [b]" "n = UniqueHostName (drop 49 pl) (hub_dnsMap h)"
    using assms(1) by (auto simp: granted_def split: option.splits)
  then have "\<exists>h1. handshake_assign (hub_dnsMap h) c pl h = set_client c (handshaken pl (host b) n (client h c)) h1 \<and>
      hub_heap h1 = hub_heap h \<and> hub_router h1 = hub_router h \<and> hub_dnsMap h1 = hub_dnsMap h"
  proof cases
    case 1
    then show ?thesis using assign_kept [OF 1(1)] by auto
  next
    case 2
    then show ?thesis using assign_fresh [OF 2(1) assms(2) 2(2)] by auto
  qed
  then show "client (handshake_assign (hub_dnsMap h) c pl h) c = handshaken pl (host b) n (client h c)"
    "hub_router (handshake_assign (hub_dnsMap h) c pl h) = hub_router h"
    "hub_dnsMap (handshake_assign (hub_dnsMap h) c pl h) = hub_dnsMap h"
    "length (hub_heap (handshake_assign (hub_dnsMap h) c pl h)) = length (hub_heap h)"
    using assms(3) by (auto simp: set_client_def)
qed

text \<open>The server's side: the handshake message of a client is answered with its address and its name.\<close>

lemma handshake_served:
  assumes "hub_inv live h" "c \<in> live" "idle (controlChan (client h c))"
    and "49 \<le> length pl" "int (length pl) \<le> MaxPayloadSize" "granted h (handshake_id pl) (drop 49 pl) b n" "int (length n) \<le> MaxPayloadSize"
  shows "\<exists>h'. control_pass se c (plain_frame (NewGamePacket ip4_zero ip4_zero TypeHandshake pl) 0) h =
      Some (h', plain_frame (NewGamePacket ip4_zero (IP4 10 0 6 b) TypeHandshake n) 0) \<and>
    client h' c = handshaken pl (host b) n (client h c) \<and> route h' (IP4 10 0 6 b) = Some c \<and> gm_get (hub_dnsMap h') n = Some (host b)"
proof -
  have inv: "hub_Subnet h = subnet" "c < length (hub_heap h)" "gm_wf (clientMap (hub_router h))" "gm_wf (hub_dnsMap h)"
    "gm_get (hub_wsHandlers h) TypeHandshake = Some handle_Handshake"
    using assms(1,2)
    by (auto simp: hub_inv_def NewHub_def registerDefaultWSHandlers_def RegisterWSHandler_def Let_def type_defs)
  note a = granted_assigned [OF assms(6) inv(1,2)]
  define h1 where "h1 = handshake_assign (hub_dnsMap h) c pl h"
  define h2 where "h2 = published c h1"
  let ?g = "NewGamePacket ip4_zero (IP4 10 0 6 b) TypeHandshake n"
  have h1: "client h1 c = handshaken pl (host b) n (client h c)" "hub_router h1 = hub_router h" "hub_dnsMap h1 = hub_dnsMap h" "c < length (hub_heap h1)"
    using a inv(2) by (simp_all add: h1_def)
  have h2: "hub_heap h2 = hub_heap h1" "route h2 (IP4 10 0 6 b) = Some c" "gm_get (hub_dnsMap h2) n = Some (host b)"
    using h1 inv(3,4) by (simp_all add: h2_def published_def addDns_def addClient_eq route_def)
  define h3 where "h3 = set_client c ((client h2 c)\<lparr>controlChan := (controlChan (client h2 c))\<lparr>ch_items := [?g]\<rparr>\<rparr>) h2"
  have q: "idle (controlChan (client h2 c))" using h1(1) h2(1) assms(3) by simp
  have ty: "clear_flag TypeHandshake = TypeHandshake" "TypeHandshake AND FlagCompress = 0" "TypeHandshake \<noteq> TypePong"
    by (simp_all add: type_defs FlagCompress_def)
  have "handleHandshake False c gp h = (h3, None)" if "Payload gp = pl" for gp
    using that assms(4) h1(1) q
    by (simp add: handleHandshake_def handshake_publish_eq Let_def flip: h1_def h2_def) (simp add: send_control_def idle_send h3_def)
  then have "\<exists>g. readPump False c (WsBinary (plain_frame (NewGamePacket ip4_zero ip4_zero TypeHandshake pl) 0)) (se_gp se) h = (g, h3, PumpContinue)"
    using assms(5) ty inv(5) by (simp add: readPump_def ParseControl_plain_frame HandleWSMessage_def)
  moreover have "frame_out se c h3 = Some (set_client c ((client h3 c)\<lparr>controlChan := controlChan (client h2 c)\<rparr>) h3, plain_frame ?g 0)"
    using q ty h1(4) h2(1) assms(7) by (intro frame_out_queued) (simp_all add: h3_def set_client_def)
  moreover have "set_client c ((client h3 c)\<lparr>controlChan := controlChan (client h2 c)\<rparr>) h3 = h2"
    using h1(4) h2(1) by (simp add: h3_def set_client_def)
  ultimately have "control_pass se c (plain_frame (NewGamePacket ip4_zero ip4_zero TypeHandshake pl) 0) h = Some (h2, plain_frame ?g 0)"
    by (auto simp: control_pass_def)
  then show ?thesis using h1(1) h2 by simp
qed

text \<open>The state of the client when it sends its handshake message.\<close>

definition probed :: "'h client_env \<Rightarrow> attempt \<Rightarrow> 'h ClientTransport \<Rightarrow> byte" where
  "probed env a t = (if EnableP2P (ce_cfg env) then (case at_nat a of Inr nt \<Rightarrow> nt | Inl _ \<Rightarrow> ct_natType t) else TypeUnknown)"

end
