(* ===== verification/Bursts.thy ===== *)
theory Bursts
  imports EndToEnd
begin

text \<open>
  Two packets for a client without a session yet. Both leave before the first answer of the server
  is there, so both ask for the key, and both answers start a handshake. What is shown here is
  the course of the second one.
\<close>

section \<open>Two queries\<close>

lemma for_peer_device: "ct_device t' = ct_device t \<Longrightarrow> for_peer t' p v = for_peer t p v"
  by (simp add: for_peer_def dns_query_eq)

lemma two_queries_sent:
  assumes "client_rest env srv vA t" "from_device t p vB" "from_device t q vB" "GetSession (noiseMgr t) vB = None"
    and "2 \<le> ch_cap (ControlSendChan t)"
  shows "\<exists>t1 t2 t3 t4. device_read False (TunPacket p) t = Some (t1, PumpContinue) \<and>
    device_read False (TunPacket q) t1 = Some (t2, PumpContinue) \<and> send_turn env t2 = Some (t3, []) \<and>
    controlSend env True t3 = Some (t4, [ToServer (BinaryFrame (plain_frame (NewGamePacket vA vB TypeNoiseHandshake p) 0))], PumpContinue) \<and>
    (\<exists>t5. controlSend env True t4 = Some (t5, [ToServer (BinaryFrame (plain_frame (NewGamePacket vA vB TypeNoiseHandshake q) 0))], PumpContinue) \<and>
      kept t t5 \<and> noiseMgr t5 = noiseMgr t)"
proof -
  have p: "20 \<le> length p" "length p \<le> 1280" "for_peer t p vB" "20 \<le> length q" "length q \<le> 1280" "for_peer t q vB"
    "drop_bit 4 (q ! 0) = 4" "\<exists>dev. ct_device t = Some dev \<and> wanted (tun_Subnet dev) (take 4 (drop 16 q))"
    using assms(2,3) by (auto simp: from_device_defs)
  have r: "localIp t = ip4_bytes vA" "idle (ControlSendChan t)" "tunChan (noiseMgr t) = []" using assms(1) by (auto simp: client_rest_def)
  have le: "int (length p) \<le> MaxPayloadSize" "int (length q) \<le> MaxPayloadSize" using p(2,5) by (simp_all add: MaxPayloadSize_eq)
  let ?t1 = "set_FromTun \<lparr>ch_cap = 256, ch_items = [p], ch_closed = False\<rparr> t"
  let ?t2 = "set_FromTun \<lparr>ch_cap = 256, ch_items = [p, q], ch_closed = False\<rparr> t"
  let ?P = "NewGamePacket vA vB TypeNoiseHandshake p"
  let ?Q = "NewGamePacket vA vB TypeNoiseHandshake q"
  let ?t3 = "t\<lparr>ControlSendChan := (ControlSendChan t)\<lparr>ch_items := [?P]\<rparr>\<rparr>"
  let ?t4 = "t\<lparr>ControlSendChan := (ControlSendChan t)\<lparr>ch_items := [?P, ?Q]\<rparr>\<rparr>"
  have d: "device_read False (TunPacket p) t = Some (?t1, PumpContinue)" using device_read_queued [OF assms(1), of p] assms(2) by (auto simp: from_device_def)
  have d2: "device_read False (TunPacket q) ?t1 = Some (?t2, PumpContinue)"
    using p(4,7,8) by (auto simp: device_read_def tunRecv_def FromTun_def select_send_def try_send_def chan_send_def set_FromTun_def)
  have drained: "set_FromTun \<lparr>ch_cap = 256, ch_items = [], ch_closed = False\<rparr> ?t2 = t" using r(3) by (simp add: set_FromTun_def)
  have s1: "send_packet env False p t = Some (?t3, [], PumpContinue)"
    using p(3) r(1,2) assms(4) by (simp add: send_packet_def for_peer_def Let_def idle_send)
  have "for_peer ?t3 q vB" using p(6) for_peer_device [of ?t3 t] by simp
  then have s2: "send_packet env False q ?t3 = Some (?t4, [], PumpContinue)"
    using r(1,2) assms(4,5) by (simp add: send_packet_def for_peer_def Let_def chan_send_def idle_def)
  have b: "send_batch env False [p, q] t = Some (?t4, [], SendDone)" using s1 s2 by simp
  have tun: "FromTun ?t2 = \<lparr>ch_cap = 256, ch_items = [p, q], ch_closed = False\<rparr>" by (simp add: FromTun_def set_FromTun_def)
  have "packetSend env False ?t2 = Some (Some (count_sent 2 ?t4, [], TurnDone))"
    using b p(1,4) drained by (simp add: packetSend_def tun chan_recv_def packetSend_resume_def numeral_2_eq_2)
  then have s: "send_turn env ?t2 = Some (count_sent 2 ?t4, [])" by (simp add: send_turn_def)
  have ty: "PType ?P \<noteq> TypePing" "PType ?Q \<noteq> TypePing" by (simp_all add: type_defs FlagCompress_def)
  let ?t5 = "(count_sent 2 ?t4)\<lparr>ControlSendChan := (ControlSendChan t)\<lparr>ch_items := [?Q]\<rparr>\<rparr>"
  have c: "controlSend env True (count_sent 2 ?t4) = Some (?t5, [ToServer (BinaryFrame (plain_frame ?P 0))], PumpContinue)"
    "controlSend env True ?t5 = Some (?t5\<lparr>ControlSendChan := ControlSendChan t\<rparr>, [ToServer (BinaryFrame (plain_frame ?Q 0))], PumpContinue)"
    using r(2) encoded_frame [OF le(1), of env True vA vB TypeNoiseHandshake] encoded_frame [OF le(2), of env True vA vB TypeNoiseHandshake] ty
    by (simp_all add: controlSend_def count_sent_def chan_recv_def idle_drained)
  moreover have "kept t (?t5\<lparr>ControlSendChan := ControlSendChan t\<rparr>)" "noiseMgr (?t5\<lparr>ControlSendChan := ControlSendChan t\<rparr>) = noiseMgr t"
    by (simp_all add: kept_def count_sent_def)
  ultimately show ?thesis using d d2 s by blast
qed

section \<open>The second answer\<close>

text \<open>
  A first handshake message is not a sealed packet: the AEAD of a session key, which opens only what
  was sealed under that key, refuses it whatever the nonce and the associated data.
\<close>

definition handshake_unsealed :: "'h noise_lib \<Rightarrow> bool" where
  "handshake_unsealed nl \<longleftrightarrow>
     (\<forall>key pub r h m x k a n ad. nl_write nl (nl_initiator nl key pub r) = (h, Inr (m, x)) \<longrightarrow> nl_aead nl k = Inr a \<longrightarrow>
        (\<exists>e. aead_open a n m ad = Inl e))"

text \<open>A client that waits for the answer of \<open>v\<close> with the packets \<open>ps\<close>, since \<open>since\<close>.\<close>

definition stalled :: "'h ClientTransport \<Rightarrow> ip4 \<Rightarrow> int \<Rightarrow> bytes list \<Rightarrow> bool" where
  "stalled t v since ps \<longleftrightarrow> (\<exists>s. GetSession (noiseMgr t) v = Some s \<and> \<not> IsReady (ns_Cipher s) \<and> isInitiator s \<and>
     lastSeen s = since \<and> \<not> pendingClosed s \<and> pendingChan s = \<lparr>ch_cap = 24, ch_items = ps, ch_closed = False\<rparr>)"

lemma answer_replaces_session:
  assumes "gm_wf (sessions (noiseMgr t))" "localIp t = ip4_bytes vA \<and> serverAddr t = Some srv \<and> (\<forall>d. ce_accept env d srv)"
    and "length pub = 32" "length q \<le> 1280"
    and "nl_write (ce_noise env) (nl_initiator (ce_noise env) (static_key (noiseMgr t)) pub (ce_rnd env)) = (hs, Inr (m1, None))" "length m1 = 96"
  shows "\<exists>g t'. controlRecv env True (WsBinary (plain_frame (NewGamePacket vB vA TypeNoiseResponse (pub @ q)) 0)) gp t =
      Some (g, t', [Datagram (plain_frame (NewGamePacket vA vB TypeData m1) 0) srv], PumpContinue) \<and>
    stalled t' vB (ce_now env) [q] \<and> kept t t' \<and> tunChan (noiseMgr t') = tunChan (noiseMgr t) \<and> gm_wf (sessions (noiseMgr t'))"
proof -
  let ?s = "(NewNoiseSession vB True (Some (nl_initiator (ce_noise env) (static_key (noiseMgr t)) pub (ce_rnd env))) (ce_now env))
               \<lparr>pendingChan := (make_chan 24)\<lparr>ch_items := [q]\<rparr>\<rparr>"
  let ?m = "session_write vB (?s\<lparr>ns_hs := Some hs\<rparr>) (SetSession vB ?s (noiseMgr t))"
  have "HandshakeInit (ce_noise env) (ce_rnd env) (ce_now env) vB pub q (noiseMgr t) = Some (?m, Inr m1)"
    using HandshakeInit_eq [OF assms(5)] by (simp add: Let_def)
  from handshake_started [OF assms(2-4) this assms(6)] obtain g where
    "controlRecv env True (WsBinary (plain_frame (NewGamePacket vB vA TypeNoiseResponse (pub @ q)) 0)) gp t =
      Some (g, t\<lparr>noiseMgr := ?m\<rparr>, [Datagram (plain_frame (NewGamePacket vA vB TypeData m1) 0) srv], PumpContinue)" by blast
  moreover have "stalled (t\<lparr>noiseMgr := ?m\<rparr>) vB (ce_now env) [q]"
    by (simp add: stalled_def NewNoiseSession_def make_chan_def)
  ultimately show ?thesis using assms(1) by (auto simp: kept_def noise_tab.ok_put)
qed

text \<open>The peer has a session and takes the new handshake message for data.\<close>

lemma handshake_refused:
  assumes "GetSession (noiseMgr t) vA = Some s" "IsReady (ns_Cipher s)" "Recver (ns_Cipher s) = Some rs"
    and "\<And>n ad. \<exists>e. aead_open (cs_aead rs) n m1 ad = Inl e" "length m1 = 96"
  shows "packetRecv env False (plain_frame (NewGamePacket vA vB TypeData m1) 0) addr t =
    Some (count_received (length (plain_frame (NewGamePacket vA vB TypeData m1) 0)) t, [], PumpContinue)"
proof -
  let ?w = "plain_frame (NewGamePacket vA vB TypeData m1) 0"
  have le: "int (length m1) \<le> MaxPayloadSize" using assms(5) by (simp add: MaxPayloadSize_eq)
  obtain g where g: "ParsePacket (ce_raw env) ?w True None gp_empty = (g, None)" "PType g = TypeData" "gp_src g = vA" "0 < Length g"
    using ParsePacket_plain_frame [of "NewGamePacket vA vB TypeData m1" "ce_raw env" 0 True gp_empty] le assms(5)
    by (auto simp: payloadLengthField_def AuthenticationTagLength_def)
  have "drop HeaderLength ?w = m1"
    by (simp add: plain_frame_def frame_def HeaderLength_def NonceLength_def)
  then obtain e where "Decrypt rs (take NonceLength (drop 9 ?w)) (drop HeaderLength ?w) (take (HeaderLength - NonceLength) ?w) = Inl e"
    using assms(4) by (auto simp: Decrypt_def)
  with g show ?thesis using unauthentic_ignored [OF assms(1-3), of env ?w g e False addr] by simp
qed

text \<open>A packet for the peer joins those that wait; nothing is sent.\<close>

lemma stalled_packet:
  assumes "stalled t v since ps" "length ps < 24" "for_peer t p v" "tunChan (noiseMgr t) = [p]" "gm_wf (sessions (noiseMgr t))"
  shows "\<exists>t'. send_turn env t = Some (t', []) \<and> stalled t' v since (ps @ [p]) \<and> gm_wf (sessions (noiseMgr t'))"
proof -
  let ?t = "set_FromTun \<lparr>ch_cap = 256, ch_items = [], ch_closed = False\<rparr> t"
  obtain s where s: "GetSession (noiseMgr t) v = Some s" "\<not> IsReady (ns_Cipher s)" "isInitiator s" "lastSeen s = since" "\<not> pendingClosed s"
    "pendingChan s = \<lparr>ch_cap = 24, ch_items = ps, ch_closed = False\<rparr>"
    using assms(1) by (auto simp: stalled_def)
  let ?s = "s\<lparr>pendingChan := \<lparr>ch_cap = 24, ch_items = ps @ [p], ch_closed = False\<rparr>\<rparr>"
  have "AddPendingData p s = Some ?s"
    using s(5,6) assms(2) by (simp add: AddPendingData_def pending_check_def pending_send_def chan_send_def)
  moreover have "GetSession (noiseMgr ?t) v = Some s" using s(1) by (simp add: set_FromTun_def GetSession_def)
  ultimately have "send_packet env False p ?t = Some (?t\<lparr>noiseMgr := session_write v ?s (noiseMgr ?t)\<rparr>, [], PumpContinue)"
    using s(2) assms(3) set_FromTun_for_peer [of _ t p v] by (simp add: send_packet_def for_peer_def)
  moreover have "20 \<le> length p" using assms(3) by (simp add: for_peer_def)
  ultimately have "packetSend env False t = Some (Some (count_sent 1 (?t\<lparr>noiseMgr := session_write v ?s (noiseMgr ?t)\<rparr>), [], TurnDone))"
    using packetSend_one [OF assms(4)] by blast
  moreover have "stalled (count_sent 1 (?t\<lparr>noiseMgr := session_write v ?s (noiseMgr ?t)\<rparr>)) v since (ps @ [p])"
    "gm_wf (sessions (noiseMgr (count_sent 1 (?t\<lparr>noiseMgr := session_write v ?s (noiseMgr ?t)\<rparr>))))"
    using s(2-5) assms(5) by (simp_all add: stalled_def count_sent_def set_FromTun_def)
  ultimately show ?thesis by (simp add: send_turn_def)
qed

text \<open>Nothing but the passing of more than ten seconds ends the waiting.\<close>

lemma stalled_until:
  "stalled t v since ps \<Longrightarrow> gm_wf (sessions (noiseMgr t)) \<Longrightarrow> tick \<le> since + 10 \<Longrightarrow>
     stalled (t\<lparr>noiseMgr := CheckSession [tick] (noiseMgr t)\<rparr>) v since ps"
  by (auto simp: stalled_def noise_sweep.get_sweep isTimeout_def)

section \<open>The course of a burst\<close>

text \<open>
  Both packets are read before the sender's turn, which asks for the key twice. The first answer
  leads to a handshake that succeeds, the second starts another one, and the sender takes its next
  turn. The result is the state of all three and what the second handshake message and that turn
  made the clients send.
\<close>

definition burst :: "'h client_env \<Rightarrow> 'h client_env \<Rightarrow> 'h client_env \<Rightarrow> 'h client_env \<Rightarrow> server_env \<Rightarrow> ('m, 'r) dns_lib \<Rightarrow> UDPAddr \<Rightarrow> cref \<Rightarrow>
    addrport \<Rightarrow> addrport \<Rightarrow> GamePacket \<Rightarrow> bytes \<Rightarrow> bytes \<Rightarrow> 'h ClientTransport \<Rightarrow> 'h ClientTransport \<Rightarrow> Hub \<Rightarrow>
    ('h ClientTransport \<times> 'h ClientTransport \<times> Hub \<times> effect list) option" where
  "burst envA envA' envB envB' se dl srv c aA aB gp p q tA tB h = do {
     (tA, _) \<leftarrow> device_read False (TunPacket p) tA;
     (tA, _) \<leftarrow> device_read False (TunPacket q) tA;
     (tA, _) \<leftarrow> send_turn envA tA;
     (tA, h, answer) \<leftarrow> key_query envA se c tA h;
     (tA, h, answer') \<leftarrow> key_query envA se c tA h;
     (tA, tB, h) \<leftarrow> handshake_round envA envB se dl srv aA aB gp answer tA tB h;
     (_, tA, out, _) \<leftarrow> controlRecv envA' True (WsBinary answer') gp tA;
     (h, w, _) \<leftarrow> relay se dl aA out h;
     (tB, reply, _) \<leftarrow> packetRecv envB' False w srv tB;
     (tA, sent) \<leftarrow> send_turn envA' tA;
     Some (tA, tB, h, reply @ sent)
   }"

lemma queries_answered:
  assumes "strangers envA envB srv vA vB tA tB" and "from_device tA p vB" and "from_device tA q vB"
    and "2 \<le> ch_cap (ControlSendChan tA)"
    and "length (GetPublicKey (noiseMgr tB)) = 32" and "noisePublicKey (client h d) = GetPublicKey (noiseMgr tB)"
    and "hub_rest h" and "registered h vA c aA" and "registered h vB d aB"
    and "gm_get (hub_wsHandlers h) TypeNoiseHandshake = Some handle_NoiseHandshake"
  shows "\<exists>t1 t2 t3 t4 t5. device_read False (TunPacket p) tA = Some (t1, PumpContinue) \<and>
    device_read False (TunPacket q) t1 = Some (t2, PumpContinue) \<and> send_turn envA t2 = Some (t3, []) \<and>
    key_query envA se c t3 h = Some (t4, h, plain_frame (NewGamePacket vB vA TypeNoiseResponse (GetPublicKey (noiseMgr tB) @ p)) 0) \<and>
    key_query envA se c t4 h = Some (t5, h, plain_frame (NewGamePacket vB vA TypeNoiseResponse (GetPublicKey (noiseMgr tB) @ q)) 0) \<and>
    kept tA t5 \<and> noiseMgr t5 = noiseMgr tA \<and> strangers envA envB srv vA vB t5 tB"
proof -
  have rest: "client_rest envA srv vA tA" "GetSession (noiseMgr tA) vB = None" using assms(1) by (auto simp: strangers_def)
  have len: "length p \<le> 1280" "length q \<le> 1280" using assms(2,3) by (auto simp: from_device_defs)
  have c: "c < length (hub_heap h)" using assms(7,8) by (auto simp: hub_rest_def registered_def intro: routes_okD)
  obtain t1 t2 t3 t4 t5 where s: "device_read False (TunPacket p) tA = Some (t1, PumpContinue)"
    "device_read False (TunPacket q) t1 = Some (t2, PumpContinue)" "send_turn envA t2 = Some (t3, [])"
    "controlSend envA True t3 = Some (t4, [ToServer (BinaryFrame (plain_frame (NewGamePacket vA vB TypeNoiseHandshake p) 0))], PumpContinue)"
    "controlSend envA True t4 = Some (t5, [ToServer (BinaryFrame (plain_frame (NewGamePacket vA vB TypeNoiseHandshake q) 0))], PumpContinue)"
    "kept tA t5" "noiseMgr t5 = noiseMgr tA"
    using two_queries_sent [OF rest(1) assms(2,3) rest(2) assms(4)] by blast
  have ans: "control_pass se c (plain_frame (NewGamePacket vA vB TypeNoiseHandshake x) 0) h =
      Some (h, plain_frame (NewGamePacket vB vA TypeNoiseResponse (GetPublicKey (noiseMgr tB) @ x)) 0)" if "length x \<le> 1280" for x
    using key_query_answered [OF assms(7-9) c assms(10) _ that] assms(5,6) by simp
  have "client_rest envA srv vA t5" using kept_rest [OF s(6) rest(1)] rest(1) s(7) by (simp add: client_rest_def)
  then have "strangers envA envB srv vA vB t5 tB" using assms(1) s(7) by (simp add: strangers_def)
  with s ans [OF len(1)] ans [OF len(2)] show ?thesis by (auto simp: key_query_def)
qed

end
