(* ===== verification/Store.thy ===== *)
theory Store
  imports Prelude "HOL-Library.Multiset"
begin

text \<open>
  Memory that is shared: arrays as blocks of an explicit store, slices as references into them, and
  the pool of buffers (\<^verbatim>\<open>sync.Pool\<close>) that the loops of client and server take their
  buffers from. The contract of the pool is the locale \<open>buffer_pool\<close>.
\<close>

section \<open>Arrays and slices\<close>

type_synonym store = "bytes list"

record ref =
  ref_block :: nat
  ref_off :: nat
  ref_len :: nat

definition deref :: "store \<Rightarrow> ref \<Rightarrow> bytes" where
  "deref st r = take (ref_len r) (drop (ref_off r) (st ! ref_block r))"

definition reslice :: "nat \<Rightarrow> ref \<Rightarrow> ref" where
  "reslice i r = \<lparr>ref_block = ref_block r, ref_off = ref_off r + i, ref_len = ref_len r - i\<rparr>"

definition write_at :: "nat \<Rightarrow> nat \<Rightarrow> bytes \<Rightarrow> store \<Rightarrow> store" where
  "write_at b i data st = st[b := take i (st ! b) @ data @ drop (i + length data) (st ! b)]"

lemma length_write_at [simp]: "length (write_at b i data st) = length st"
  by (simp add: write_at_def)

lemma block_write_at:
  "b < length st \<Longrightarrow> write_at b i data st ! c = (if c = b then take i (st ! b) @ data @ drop (i + length data) (st ! b) else st ! c)"
  by (simp add: write_at_def nth_list_update)

lemma deref_reslice: "i \<le> ref_len r \<Longrightarrow> deref st (reslice i r) = drop i (deref st r)"
  by (simp add: deref_def reslice_def drop_take add.commute)

section \<open>The buffer pool (sync.Pool)\<close>

text \<open>
  The pool holds whole arrays. \<open>pool_Get\<close> takes one of them, whichever the runtime picks, or makes
  a new one of 2048 bytes; \<open>pool_GetSized\<close> is the pattern around it when a capacity is needed.
\<close>

record mem =
  m_store :: store
  m_free :: "nat list"

definition mem_make :: "nat \<Rightarrow> mem \<Rightarrow> nat \<times> mem" where
  "mem_make n m = (length (m_store m), m\<lparr>m_store := m_store m @ [replicate n 0]\<rparr>)"

definition pool_Get :: "nat option \<Rightarrow> mem \<Rightarrow> nat \<times> mem" where
  "pool_Get i m =
     (case i of
        None \<Rightarrow> mem_make 2048 m
      | Some k \<Rightarrow>
          if k < length (m_free m)
          then (m_free m ! k, m\<lparr>m_free := take k (m_free m) @ drop (Suc k) (m_free m)\<rparr>)
          else mem_make 2048 m)"

definition pool_Put :: "nat \<Rightarrow> mem \<Rightarrow> mem" where
  "pool_Put b m = m\<lparr>m_free := m_free m @ [b]\<rparr>"

definition pool_GetSized :: "nat option \<Rightarrow> nat \<Rightarrow> mem \<Rightarrow> nat \<times> mem" where
  "pool_GetSized i n m =
     (case pool_Get i m of (b, m) \<Rightarrow> if length (m_store m ! b) < n then mem_make n (pool_Put b m) else (b, m))"

text \<open>Copying into an array from its start; putting back a nil slice, an array without room.\<close>

definition fill :: "nat \<Rightarrow> bytes \<Rightarrow> mem \<Rightarrow> mem" where
  "fill b data m = m\<lparr>m_store := write_at b 0 data (m_store m)\<rparr>"

definition put_nil :: "mem \<Rightarrow> mem" where
  "put_nil m = (case mem_make 0 m of (b, m) \<Rightarrow> pool_Put b m)"

text \<open>No array has two owners: neither twice in the pool, nor in the pool and in use, nor in use twice.\<close>

definition mem_ok :: "mem \<Rightarrow> nat list \<Rightarrow> bool" where
  "mem_ok m held \<longleftrightarrow> distinct (m_free m @ held) \<and> set (m_free m @ held) \<subseteq> {..<length (m_store m)}"

lemma mem_ok_perm: "mem_ok m xs \<Longrightarrow> mset ys = mset xs \<Longrightarrow> mem_ok m ys"
  using mset_eq_setD [of ys xs] mset_eq_imp_distinct_iff [of ys xs] by (simp add: mem_ok_def)

lemma mem_ok_make:
  assumes "mem_ok m xs" "mem_make n m = (b, m')"
  shows "mem_ok m' (b # xs)" "\<forall>c \<in> set xs. m_store m' ! c = m_store m ! c" "m_store m' ! b = replicate n 0"
  using assms by (auto simp: mem_ok_def mem_make_def nth_append)

lemma mem_ok_Get:
  assumes "mem_ok m xs" "pool_Get i m = (b, m')"
  shows "mem_ok m' (b # xs)" "\<forall>c \<in> set xs. m_store m' ! c = m_store m ! c"
proof -
  have "mem_ok m' (b # xs) \<and> (\<forall>c \<in> set xs. m_store m' ! c = m_store m ! c)"
  proof (cases "\<exists>k. i = Some k \<and> k < length (m_free m)")
    case True
    then obtain k where k: "k < length (m_free m)" "b = m_free m ! k" "m' = m\<lparr>m_free := take k (m_free m) @ drop (Suc k) (m_free m)\<rparr>"
      using assms(2) by (auto simp: pool_Get_def)
    have "m_free m = take k (m_free m) @ b # drop (Suc k) (m_free m)" using k(1,2) by (simp add: id_take_nth_drop)
    then have "mem_ok (m\<lparr>m_free := take k (m_free m) @ b # drop (Suc k) (m_free m)\<rparr>) xs" using assms(1) by simp
    then show ?thesis by (auto simp: k(3) mem_ok_def)
  next
    case False
    then have "mem_make 2048 m = (b, m')" using assms(2) by (auto simp: pool_Get_def split: option.splits if_splits)
    from mem_ok_make [OF assms(1) this] show ?thesis by simp
  qed
  then show "mem_ok m' (b # xs)" "\<forall>c \<in> set xs. m_store m' ! c = m_store m ! c" by simp_all
qed

lemma mem_ok_Put: "mem_ok m (b # xs) \<Longrightarrow> mem_ok (pool_Put b m) xs" and pool_Put_store [simp]: "m_store (pool_Put b m) = m_store m"
  by (auto simp: mem_ok_def pool_Put_def)

lemma mem_ok_GetSized:
  assumes "mem_ok m xs" "pool_GetSized i n m = (b, m')"
  shows "mem_ok m' (b # xs)" "\<forall>c \<in> set xs. m_store m' ! c = m_store m ! c" "n \<le> length (m_store m' ! b)"
proof -
  obtain b1 m1 where g: "pool_Get i m = (b1, m1)" by force
  note ok = mem_ok_Get [OF assms(1) g]
  show "mem_ok m' (b # xs)" "\<forall>c \<in> set xs. m_store m' ! c = m_store m ! c" "n \<le> length (m_store m' ! b)"
    using assms(2) g ok mem_ok_make [OF mem_ok_Put [OF ok(1)], of n b m'] by (auto simp: pool_GetSized_def split: if_splits)
qed

lemma mem_ok_fill:
  assumes "mem_ok m (b # xs)"
  shows "mem_ok (fill b data m) (b # xs)" "\<forall>c \<in> set xs. m_store (fill b data m) ! c = m_store m ! c"
    "take (length data) (m_store (fill b data m) ! b) = data"
    "length data \<le> length (m_store m ! b) \<Longrightarrow> length (m_store (fill b data m) ! b) = length (m_store m ! b)"
  using assms by (auto simp: mem_ok_def fill_def block_write_at)

lemma mem_ok_nil:
  assumes "mem_ok m xs"
  shows "mem_ok (put_nil m) xs" "\<forall>c \<in> set xs. m_store (put_nil m) ! c = m_store m ! c"
proof -
  obtain b m' where "mem_make 0 m = (b, m')" by force
  with mem_ok_make [OF assms this] show "mem_ok (put_nil m) xs" "\<forall>c \<in> set xs. m_store (put_nil m) ! c = m_store m ! c"
    by (simp_all add: put_nil_def mem_ok_Put)
qed

section \<open>The contract of a pool\<close>

text \<open>
  What the loops rely on: the buffer they get belongs to nobody else, and neither taking it, nor
  writing to it, nor giving it back changes what others hold.
\<close>

locale buffer_pool =
  fixes get :: "'i \<Rightarrow> 'm \<Rightarrow> 'b \<times> 'm"
    and put :: "'b \<Rightarrow> 'm \<Rightarrow> 'm"
    and wr :: "'b \<Rightarrow> 'd \<Rightarrow> 'm \<Rightarrow> 'm"
    and content :: "'m \<Rightarrow> 'b \<Rightarrow> 'a"
    and ok :: "'m \<Rightarrow> 'b list \<Rightarrow> bool"
  assumes perm: "ok m xs \<Longrightarrow> mset ys = mset xs \<Longrightarrow> ok m ys"
    and single: "ok m xs \<Longrightarrow> distinct xs"
    and get_ok: "ok m xs \<Longrightarrow> get i m = (b, m') \<Longrightarrow> ok m' (b # xs)"
    and get_keeps: "ok m xs \<Longrightarrow> get i m = (b, m') \<Longrightarrow> c \<in> set xs \<Longrightarrow> content m' c = content m c"
    and put_ok: "ok m (b # xs) \<Longrightarrow> ok (put b m) xs"
    and put_keeps: "content (put b m) c = content m c"
    and wr_ok: "ok m (b # xs) \<Longrightarrow> ok (wr b d m) (b # xs)"
    and wr_keeps: "ok m (b # xs) \<Longrightarrow> c \<in> set xs \<Longrightarrow> content (wr b d m) c = content m c"
begin

text \<open>A buffer that is used and given back within a turn.\<close>

lemma borrowed:
  assumes "ok m xs" "get i m = (b, m')"
  shows "ok (put b (wr b d m')) xs" "c \<in> set xs \<Longrightarrow> content (put b (wr b d m')) c = content m c"
  using get_ok [OF assms] wr_ok [OF get_ok [OF assms]] wr_keeps [OF get_ok [OF assms]] get_keeps [OF assms]
  by (simp_all add: put_ok put_keeps)

text \<open>A buffer that is filled and handed on.\<close>

lemma handed_on:
  assumes "ok m (xs @ ys)" "get i m = (b, m')"
  shows "ok (wr b d m') (xs @ b # ys)" "c \<in> set (xs @ ys) \<Longrightarrow> content (wr b d m') c = content m c"
  using perm [OF wr_ok [OF get_ok [OF assms]], of "xs @ b # ys" d] wr_keeps [OF get_ok [OF assms]] get_keeps [OF assms]
  by simp_all

text \<open>A batch of buffers given back together.\<close>

lemma all_put: "ok m (bs @ xs) \<Longrightarrow> ok (fold put bs m) xs \<and> content (fold put bs m) c = content m c"
  by (induction bs arbitrary: m) (simp_all add: put_ok put_keeps)

end

interpretation sized: buffer_pool "\<lambda>(i, n). pool_GetSized i n" pool_Put fill "\<lambda>m b. m_store m ! b" mem_ok
proof
  show "mem_ok m xs \<Longrightarrow> distinct xs" for m xs by (simp add: mem_ok_def)
qed (auto simp: mem_ok_Put mem_ok_fill(1) mem_ok_fill(2) intro: mem_ok_perm mem_ok_GetSized(1) dest: mem_ok_GetSized(2))

end
