(* ===== verification/ReadBuffer.thy ===== *)
theory ReadBuffer
  imports ClientUdp Store
begin

text \<open>
  The memory behind the control messages of a client. \<^verbatim>\<open>controlRecv\<close> reads every message
  into one \<^verbatim>\<open>bytes.Buffer\<close>; the packet that comes back with a key answer stays a slice of
  that buffer while it waits for the handshake. Here arrays are blocks of an explicit store and
  slices are references into them, for the part of the client that touches such a slice:
  \<^verbatim>\<open>client_control.go\<close> from the buffer to \<^verbatim>\<open>initiateNoise\<close>, and the pending queue of
  \<^verbatim>\<open>noise.go\<close>.
\<close>

section \<open>The buffer (bytes.Buffer)\<close>

text \<open>
  The buffer uses a block from its start; its length is that of the data in it, its capacity that
  of the block. \<open>bb_grow\<close> makes room for 512 more bytes: in place if the block has it, otherwise
  in a new block of at least twice the size, whose size the allocator rounds up.
\<close>

record buffer =
  bb_block :: nat
  bb_len :: nat

definition bb_cap :: "store \<Rightarrow> buffer \<Rightarrow> nat" where
  "bb_cap st b = length (st ! bb_block b)"

definition bb_Reset :: "buffer \<Rightarrow> buffer" where
  "bb_Reset b = b\<lparr>bb_len := 0\<rparr>"

definition bb_grow :: "(nat \<Rightarrow> nat) \<Rightarrow> buffer \<Rightarrow> store \<Rightarrow> buffer \<times> store" where
  "bb_grow round b st =
     (if bb_len b + 512 \<le> bb_cap st b then (b, st)
      else let c = round (max (bb_len b + 512) (2 * bb_cap st b));
               data = take (bb_len b) (st ! bb_block b)
           in (b\<lparr>bb_block := length st\<rparr>, st @ [data @ replicate (c - length data) 0]))"

text \<open>\<^verbatim>\<open>ReadFrom\<close>, given what the reader delivers call by call until the end of the message.\<close>

fun ReadFrom :: "(nat \<Rightarrow> nat) \<Rightarrow> bytes list \<Rightarrow> buffer \<Rightarrow> store \<Rightarrow> buffer \<times> store" where
  "ReadFrom round [] b st = bb_grow round b st"
| "ReadFrom round (chunk # chunks) b st =
     (case bb_grow round b st of
        (b, st) \<Rightarrow> ReadFrom round chunks (b\<lparr>bb_len := bb_len b + length chunk\<rparr>) (write_at (bb_block b) (bb_len b) chunk st))"

definition bb_Bytes :: "buffer \<Rightarrow> ref" where
  "bb_Bytes b = \<lparr>ref_block = bb_block b, ref_off = 0, ref_len = bb_len b\<rparr>"

text \<open>As long as the block has room for the message and 512 more bytes it is overwritten in place.\<close>

lemma bb_grow_in_place: "bb_len b + 512 \<le> bb_cap st b \<Longrightarrow> bb_grow round b st = (b, st)"
  by (simp add: bb_grow_def)

lemma ReadFrom_in_place:
  "bb_block b < length st \<Longrightarrow> bb_len b + length (concat chunks) + 512 \<le> bb_cap st b \<Longrightarrow>
     ReadFrom round chunks b st =
       (b\<lparr>bb_len := bb_len b + length (concat chunks)\<rparr>, write_at (bb_block b) (bb_len b) (concat chunks) st)"
proof (induction chunks arbitrary: b st)
  case Nil
  then show ?case by (simp add: bb_grow_in_place write_at_def)
next
  case (Cons chunk chunks)
  let ?b = "b\<lparr>bb_len := bb_len b + length chunk\<rparr>" and ?st = "write_at (bb_block b) (bb_len b) chunk st"
  have "bb_cap ?st ?b = bb_cap st b" using Cons.prems by (simp add: bb_cap_def block_write_at)
  then have "ReadFrom round chunks ?b ?st =
      (?b\<lparr>bb_len := bb_len ?b + length (concat chunks)\<rparr>, write_at (bb_block ?b) (bb_len ?b) (concat chunks) ?st)"
    using Cons.prems by (intro Cons.IH) simp_all
  moreover have "write_at (bb_block b) (bb_len b + length chunk) (concat chunks) ?st = write_at (bb_block b) (bb_len b) (chunk @ concat chunks) st"
    using Cons.prems by (simp add: write_at_def bb_cap_def ac_simps)
  ultimately show ?case using Cons.prems by (simp add: bb_grow_in_place add.assoc)
qed

text \<open>In any case the buffer holds the message afterwards, with room for 512 more bytes.\<close>

definition bb_ok :: "store \<Rightarrow> buffer \<Rightarrow> bool" where
  "bb_ok st b \<longleftrightarrow> bb_block b < length st \<and> bb_len b \<le> bb_cap st b"

lemma bb_grow_spec:
  assumes "\<And>n. n \<le> round n" "bb_ok st b" "bb_grow round b st = (b', st')"
  shows "bb_ok st' b'" "bb_len b' = bb_len b" "bb_len b + 512 \<le> bb_cap st' b'"
    "take (bb_len b) (st' ! bb_block b') = take (bb_len b) (st ! bb_block b)"
proof -
  let ?c = "max (bb_len b + 512) (2 * bb_cap st b)"
  have "bb_len b + 512 \<le> round ?c" using assms(1) [of ?c] by simp
  then show "bb_ok st' b'" "bb_len b' = bb_len b" "bb_len b + 512 \<le> bb_cap st' b'"
    "take (bb_len b) (st' ! bb_block b') = take (bb_len b) (st ! bb_block b)"
    using assms(2,3) by (auto simp: bb_grow_def bb_ok_def bb_cap_def Let_def nth_append split: if_splits)
qed

lemma ReadFrom_spec:
  assumes "\<And>n. n \<le> round n"
  shows "bb_ok st b \<Longrightarrow> ReadFrom round chunks b st = (b', st') \<Longrightarrow>
    bb_ok st' b' \<and> bb_len b' = bb_len b + length (concat chunks) \<and> bb_len b' + 512 \<le> bb_cap st' b' \<and>
    take (bb_len b') (st' ! bb_block b') = take (bb_len b) (st ! bb_block b) @ concat chunks"
proof (induction chunks arbitrary: b st)
  case Nil
  then show ?case using bb_grow_spec [OF assms Nil.prems(1), of b' st'] by simp
next
  case (Cons chunk chunks)
  obtain c s where g: "bb_grow round b st = (c, s)" by force
  note c = bb_grow_spec [OF assms Cons.prems(1) g]
  let ?c = "c\<lparr>bb_len := bb_len c + length chunk\<rparr>" and ?s = "write_at (bb_block c) (bb_len c) chunk s"
  have "bb_ok ?s ?c" using c(1) by (simp add: bb_ok_def bb_cap_def block_write_at)
  moreover have "ReadFrom round chunks ?c ?s = (b', st')" using Cons.prems(2) g by simp
  moreover have "take (bb_len ?c) (?s ! bb_block ?c) = take (bb_len b) (st ! bb_block b) @ chunk"
    using c Cons.prems(1) by (simp add: block_write_at bb_ok_def bb_cap_def)
  ultimately show ?case using Cons.IH [of ?s ?c] c(2) by auto
qed

section \<open>Control messages and waiting packets\<close>

text \<open>
  The client's memory: the store, the buffer, the packets that wait in the session of a peer and
  those handed to the sender, all of them references.
\<close>

record rx =
  rx_store :: store
  rx_buf :: buffer
  rx_pending :: "(ip4, ref list) gomap"
  rx_tun :: "ref list"

definition rx_new :: rx where
  "rx_new = \<lparr>rx_store = [replicate 512 0], rx_buf = \<lparr>bb_block = 0, bb_len = 512\<rparr>, rx_pending = [], rx_tun = []\<rparr>"

text \<open>
  One message: the buffer is reset and filled, the message parsed in place, and for a key answer a
  new session is made whose queue holds the rest of the payload.
\<close>

definition rx_message :: "(nat \<Rightarrow> nat) \<Rightarrow> bytes list \<Rightarrow> rx \<Rightarrow> rx" where
  "rx_message round chunks m =
     (case ReadFrom round chunks (bb_Reset (rx_buf m)) (rx_store m) of
        (b, st) \<Rightarrow>
          let m = m\<lparr>rx_buf := b, rx_store := st\<rparr>
          in case ParseControl gp_empty (deref st (bb_Bytes b)) of
               (gp, Some err) \<Rightarrow> m
             | (gp, None) \<Rightarrow>
                 if PType gp = TypeNoiseResponse \<and> 32 \<le> length (Payload gp) then
                   let payload = reslice HeaderLength (bb_Bytes b);
                       pendingData = reslice 32 payload
                   in m\<lparr>rx_pending := gm_set (IpToKey (SourceVirtualIp gp)) [pendingData] (rx_pending m)\<rparr>
                 else m)"

text \<open>The end of the handshake hands over what waits.\<close>

definition rx_ready :: "ip4 \<Rightarrow> rx \<Rightarrow> rx" where
  "rx_ready v m =
     (case gm_get (rx_pending m) v of
        None \<Rightarrow> m
      | Some refs \<Rightarrow> m\<lparr>rx_pending := gm_set v [] (rx_pending m), rx_tun := rx_tun m @ refs\<rparr>)"

text \<open>What the sender finds when it looks at the packets handed to it.\<close>

definition rx_packets :: "rx \<Rightarrow> bytes list" where
  "rx_packets m = map (deref (rx_store m)) (rx_tun m)"

abbreviation key_answer :: "ip4 \<Rightarrow> ip4 \<Rightarrow> bytes \<Rightarrow> bytes \<Rightarrow> bytes" where
  "key_answer peer me pub p \<equiv> plain_frame (NewGamePacket peer me TypeNoiseResponse (pub @ p)) 0"

lemma key_answer_length: "length (key_answer peer me pub p) = 21 + length pub + length p"
  by (simp add: plain_frame_def)

lemma key_answer_packet: "length pub = 32 \<Longrightarrow> drop 53 (key_answer peer me pub p) = p"
  by (simp add: plain_frame_def frame_def)

lemma rx_answer:
  assumes "ReadFrom round chunks (bb_Reset (rx_buf m)) (rx_store m) = (\<lparr>bb_block = k, bb_len = 53 + length p\<rparr>, st)"
    and "take (53 + length p) (st ! k) = key_answer peer me pub p" "length pub = 32" "length p \<le> 1280"
  shows "rx_message round chunks m = m\<lparr>rx_buf := \<lparr>bb_block = k, bb_len = 53 + length p\<rparr>, rx_store := st,
    rx_pending := gm_set peer [\<lparr>ref_block = k, ref_off = 53, ref_len = length p\<rparr>] (rx_pending m)\<rparr>"
proof -
  have d: "deref st (bb_Bytes \<lparr>bb_block = k, bb_len = 53 + length p\<rparr>) = key_answer peer me pub p"
    using assms(2) by (simp add: deref_def bb_Bytes_def)
  have ty: "clear_flag TypeNoiseResponse = TypeNoiseResponse" "TypeNoiseResponse AND FlagCompress = 0"
    by (simp_all add: type_defs FlagCompress_def)
  show ?thesis
    using assms(1,3,4) d ty
    by (simp add: rx_message_def ParseControl_plain_frame MaxPayloadSize_eq reslice_def bb_Bytes_def HeaderLength_def NonceLength_def)
qed

text \<open>The first answer, into whatever the buffer was.\<close>

lemma first_answer:
  assumes "\<And>n. n \<le> round n" "bb_ok (rx_store m) (rx_buf m)"
    and "concat chunks = key_answer peer me pub p" "length pub = 32" "length p \<le> 1280"
  obtains k st where "rx_message round chunks m = m\<lparr>rx_buf := \<lparr>bb_block = k, bb_len = 53 + length p\<rparr>, rx_store := st,
      rx_pending := gm_set peer [\<lparr>ref_block = k, ref_off = 53, ref_len = length p\<rparr>] (rx_pending m)\<rparr>"
    "k < length st" "53 + length p + 512 \<le> length (st ! k)" "take (53 + length p) (st ! k) = key_answer peer me pub p"
proof -
  obtain b st where r: "ReadFrom round chunks (bb_Reset (rx_buf m)) (rx_store m) = (b, st)" by force
  have "bb_ok (rx_store m) (bb_Reset (rx_buf m))" using assms(2) by (simp add: bb_ok_def bb_Reset_def bb_cap_def)
  from ReadFrom_spec [OF assms(1) this r] have s: "bb_block b < length st" "bb_len b = 53 + length p"
    "53 + length p + 512 \<le> length (st ! bb_block b)" "take (53 + length p) (st ! bb_block b) = key_answer peer me pub p"
    using assms(3,4) by (auto simp: bb_ok_def bb_cap_def bb_Reset_def key_answer_length)
  have "b = \<lparr>bb_block = bb_block b, bb_len = 53 + length p\<rparr>" using s(2) by simp
  with r have "ReadFrom round chunks (bb_Reset (rx_buf m)) (rx_store m) = (\<lparr>bb_block = bb_block b, bb_len = 53 + length p\<rparr>, st)" by simp
  from that [OF rx_answer [OF this s(4) assms(4,5)] s(1,3,4)] show ?thesis .
qed

text \<open>
  C32. A packet that waits for a handshake is not safe from the next control message. The packet that
  comes back with a key answer is kept as a slice of the buffer that all control messages are read
  into. If the handshake ends before the next message, the packet itself is handed to the sender.
  If the answer for another peer arrives first, with a packet that is not longer, that packet
  is found in its place: the sender gets the other packet, followed by the rest of the first one.
\<close>

theorem pending_overwritten:
  assumes "\<forall>n. n \<le> round n" and "bb_ok (rx_store m) (rx_buf m)" and "rx_tun m = []"
    and "concat chunks = key_answer vB me pubB p" and "length pubB = 32" and "length p \<le> 1280"
    and "concat chunks' = key_answer vC me pubC q" and "length pubC = 32" and "length q \<le> length p" and "vC \<noteq> vB"
  shows "rx_packets (rx_ready vB (rx_message round chunks m)) = [p] \<and>
    rx_packets (rx_ready vB (rx_message round chunks' (rx_message round chunks m))) = [q @ drop (length q) p]"
proof -
  obtain k st where m1: "rx_message round chunks m = m\<lparr>rx_buf := \<lparr>bb_block = k, bb_len = 53 + length p\<rparr>, rx_store := st,
      rx_pending := gm_set vB [\<lparr>ref_block = k, ref_off = 53, ref_len = length p\<rparr>] (rx_pending m)\<rparr>"
    and st: "k < length st" "53 + length p + 512 \<le> length (st ! k)" "take (53 + length p) (st ! k) = key_answer vB me pubB p"
    using first_answer [OF _ assms(2,4-6), of round] assms(1) by metis
  have "drop 53 (take (53 + length p) (st ! k)) = p" using key_answer_packet [OF assms(5)] st(3) by simp
  then have p: "take (length p) (drop 53 (st ! k)) = p" by (simp add: drop_take)
  let ?w = "key_answer vC me pubC q"
  let ?st = "write_at k 0 ?w st"
  have len: "length ?w = 53 + length q" using assms(8) by (simp add: key_answer_length)
  have "ReadFrom round chunks' (bb_Reset (rx_buf (rx_message round chunks m))) (rx_store (rx_message round chunks m)) =
      (\<lparr>bb_block = k, bb_len = 53 + length q\<rparr>, ?st)"
    using ReadFrom_in_place [of "\<lparr>bb_block = k, bb_len = 0\<rparr>" st chunks' round] assms(7,9) st(1,2) len
    by (simp add: m1 bb_Reset_def bb_cap_def)
  moreover have blk: "?st ! k = ?w @ drop (53 + length q) (st ! k)" using st(1) len by (simp add: block_write_at)
  ultimately have m2: "rx_message round chunks' (rx_message round chunks m) = (rx_message round chunks m)\<lparr>rx_buf := \<lparr>bb_block = k, bb_len = 53 + length q\<rparr>,
      rx_store := ?st, rx_pending := gm_set vC [\<lparr>ref_block = k, ref_off = 53, ref_len = length q\<rparr>] (rx_pending (rx_message round chunks m))\<rparr>"
    using rx_answer [of round chunks' "rx_message round chunks m" k q ?st vC me pubC] assms(6,8,9) len by simp
  have "take (length p) (drop 53 (?st ! k)) = q @ take (length p - length q) (drop (53 + length q) (st ! k))"
    using key_answer_packet [OF assms(8), of vC me q] len assms(9) by (simp add: blk)
  also have "take (length p - length q) (drop (53 + length q) (st ! k)) = drop (length q) p"
    using p by (metis add.commute drop_drop drop_take)
  finally have "take (length p) (drop 53 (?st ! k)) = q @ drop (length q) p" .
  then show ?thesis
    unfolding m2 using p assms(3,10) by (simp add: m1 rx_ready_def rx_packets_def deref_def)
qed

theorem pending_overwritten_witness:
  "\<exists>first second. rx_packets (rx_ready (IP4 10 0 6 3) (rx_message id first rx_new)) = [[1, 2, 3]] \<and>
     rx_packets (rx_ready (IP4 10 0 6 3) (rx_message id second (rx_message id first rx_new))) = [[8, 9] @ drop (length [8, 9 :: byte]) [1, 2, 3]]"
proof (intro exI)
  let ?first = "[key_answer (IP4 10 0 6 3) (IP4 10 0 6 2) (replicate 32 0) [1, 2, 3]]"
  let ?second = "[key_answer (IP4 10 0 6 4) (IP4 10 0 6 2) (replicate 32 0) [8, 9]]"
  have "bb_ok (rx_store rx_new) (rx_buf rx_new)" "rx_tun rx_new = []" by (simp_all add: rx_new_def bb_ok_def bb_cap_def)
  from pending_overwritten [OF _ this, of id ?first "IP4 10 0 6 3" "IP4 10 0 6 2" "replicate 32 0" "[1, 2, 3]" ?second "IP4 10 0 6 4" "replicate 32 0" "[8, 9]"]
  show "rx_packets (rx_ready (IP4 10 0 6 3) (rx_message id ?first rx_new)) = [[1, 2, 3]] \<and>
     rx_packets (rx_ready (IP4 10 0 6 3) (rx_message id ?second (rx_message id ?first rx_new))) = [[8, 9] @ drop (length [8, 9 :: byte]) [1, 2, 3]]"
    by simp
qed

end
