(* ===== verification/Punching.thy ===== *)
theory Punching
  imports EndToEnd
begin

text \<open>
  A direct tunnel from its first packet on: the server notices that two clients talk, introduces
  them to each other, both punch, and the packets that follow no longer pass through the server.
  Both clients are behind NATs that give each of them one public address and let a datagram in
  only from an address the client has sent to before; so the first ping of the side that starts is
  lost.
\<close>

section \<open>The turns\<close>

abbreviation public_addr :: "ip4 \<Rightarrow> addrport \<Rightarrow> UDPAddr" where
  "public_addr ip a \<equiv> \<lparr>ua_IP = ip4_bytes ip, ua_Port = uint (ap_port a)\<rparr>"

abbreviation at_time :: "int \<Rightarrow> 'h client_env \<Rightarrow> 'h client_env" where
  "at_time n env \<equiv> env\<lparr>ce_now := n\<rparr>"

text \<open>The datagrams for one address, and their delivery one after the other.\<close>

fun datagrams_to :: "UDPAddr \<Rightarrow> effect list \<Rightarrow> bytes list" where
  "datagrams_to u [] = []"
| "datagrams_to u (Datagram d a # out) = (if a = u then [d] else []) @ datagrams_to u out"
| "datagrams_to u (_ # out) = datagrams_to u out"

fun deliver :: "'h client_env \<Rightarrow> UDPAddr \<Rightarrow> bytes list \<Rightarrow> 'h ClientTransport \<Rightarrow> ('h ClientTransport \<times> effect list) option" where
  "deliver env from [] t = Some (t, [])"
| "deliver env from (d # ds) t = do {
     (t, out, _) \<leftarrow> packetRecv env False d from t;
     (t, outs) \<leftarrow> deliver env from ds t;
     Some (t, out @ outs)
   }"

text \<open>A tick of A whose pings pass the NAT of B, and what B answers.\<close>

definition ping_round :: "'h client_env \<Rightarrow> 'h client_env \<Rightarrow> UDPAddr \<Rightarrow> UDPAddr \<Rightarrow> 'h ClientTransport \<Rightarrow> 'h ClientTransport \<Rightarrow>
    ('h ClientTransport \<times> 'h ClientTransport) option" where
  "ping_round envA envB uA uB tA tB = do {
     (tA, pings) \<leftarrow> handleP2P envA tA;
     (tB, pongs) \<leftarrow> deliver envB uA (datagrams_to uB pings) tB;
     (tA, _) \<leftarrow> deliver envA uB (datagrams_to uA pongs) tA;
     Some (tA, tB)
   }"

text \<open>The scheduler takes the task; the commands go out on the two control connections.\<close>

definition introduce :: "server_env \<Rightarrow> cref \<Rightarrow> cref \<Rightarrow> Hub \<Rightarrow> (Hub \<times> bytes \<times> bytes) option" where
  "introduce se c d h = do {
     turn \<leftarrow> handleP2PTask h;
     h \<leftarrow> turn;
     (h, fA) \<leftarrow> frame_out se c h;
     (h, fB) \<leftarrow> frame_out se d h;
     Some (h, fA, fB)
   }"

text \<open>A client's report to the server.\<close>

definition report :: "'h client_env \<Rightarrow> server_env \<Rightarrow> cref \<Rightarrow> 'h ClientTransport \<Rightarrow> Hub \<Rightarrow> ('h ClientTransport \<times> Hub) option" where
  "report env se c t h = do {
     (t, out, _) \<leftarrow> controlSend env True t;
     f \<leftarrow> sole_frame out;
     case readPump False c (WsBinary f) (se_gp se) h of (_, h, _) \<Rightarrow> Some (t, h)
   }"

text \<open>
  Everything after the packet that made the server act: the commands arrive at \<open>n0\<close>, A's first
  ping is lost at \<open>n1\<close>, the pings of B at \<open>n2\<close> and of A at \<open>n3\<close> pass and are answered, and both report.
\<close>

definition open_tunnel :: "'h client_env \<Rightarrow> 'h client_env \<Rightarrow> server_env \<Rightarrow> GamePacket \<Rightarrow> cref \<Rightarrow> cref \<Rightarrow> UDPAddr \<Rightarrow> UDPAddr \<Rightarrow>
    int \<Rightarrow> int \<Rightarrow> int \<Rightarrow> int \<Rightarrow> 'h ClientTransport \<Rightarrow> 'h ClientTransport \<Rightarrow> Hub \<Rightarrow> ('h ClientTransport \<times> 'h ClientTransport \<times> Hub) option" where
  "open_tunnel envA envB se gp c d uA uB n0 n1 n2 n3 tA tB h = do {
     (h, fA, fB) \<leftarrow> introduce se c d h;
     (_, tA, _) \<leftarrow> controlRecv (at_time n0 envA) True (WsBinary fA) gp tA;
     (_, tB, _) \<leftarrow> controlRecv (at_time n0 envB) True (WsBinary fB) gp tB;
     (tA, _) \<leftarrow> handleP2P (at_time n1 envA) tA;
     (tB, tA) \<leftarrow> ping_round (at_time n2 envB) (at_time n2 envA) uB uA tB tA;
     (tA, tB) \<leftarrow> ping_round (at_time n3 envA) (at_time n3 envB) uA uB tA tB;
     (tA, h) \<leftarrow> report (at_time n3 envA) se c tA h;
     (tB, h) \<leftarrow> report (at_time n3 envB) se d tB h;
     Some (tA, tB, h)
   }"

text \<open>A packet without the server: the address A sends it to, and what B's device gets.\<close>

definition carry_direct :: "'h client_env \<Rightarrow> 'h client_env \<Rightarrow> UDPAddr \<Rightarrow> bytes \<Rightarrow> 'h ClientTransport \<Rightarrow> 'h ClientTransport \<Rightarrow>
    ('h ClientTransport \<times> 'h ClientTransport \<times> UDPAddr \<times> effect list) option" where
  "carry_direct envA envB uA p tA tB = do {
     (tA, _) \<leftarrow> device_read False (TunPacket p) tA;
     (tA, out) \<leftarrow> send_turn envA tA;
     (w, u) \<leftarrow> sole_datagram out;
     (tB, _) \<leftarrow> packetRecv envB False w uA tB;
     (tB, out) \<leftarrow> device_write tB;
     Some (tA, tB, u, out)
   }"

section \<open>The server introduces the clients\<close>

definition cone_client :: "Hub \<Rightarrow> cref \<Rightarrow> ip4 \<Rightarrow> bool" where
  "cone_client h c ip \<longleftrightarrow> natType (client h c) = TypeCone \<and> As4 (ap_addr (dataAddr (client h c))) = Some ip"

text \<open>The packet that makes the server act.\<close>

lemma task_created:
  assumes "cone_client h c ipA" "cone_client h d ipB" "Exist vA vB (hub_tm h) = None" "idle (hub_p2pTaskChan h)"
  shows "hub_tm (relay_decision False vA vB c d aA h) = AddTunnel vA vB TunnelInit (hub_tm h)"
    and "hub_p2pTaskChan (relay_decision False vA vB c d aA h) =
      (hub_p2pTaskChan h)\<lparr>ch_items := [\<lparr>pt_DstVip = vB, pt_Dst = dataAddr (client h d), pt_SrcVip = vA, pt_Src = aA\<rparr>]\<rparr>"
proof -
  have "ifEstablish vA vB (natType (client h c)) (natType (client h d)) (hub_tm h) = (AddTunnel vA vB TunnelInit (hub_tm h), True)"
    using assms(1-3) by (simp add: ifEstablish_def cone_client_def nat_type_defs)
  then show "hub_tm (relay_decision False vA vB c d aA h) = AddTunnel vA vB TunnelInit (hub_tm h)"
    "hub_p2pTaskChan (relay_decision False vA vB c d aA h) =
      (hub_p2pTaskChan h)\<lparr>ch_items := [\<lparr>pt_DstVip = vB, pt_Dst = dataAddr (client h d), pt_SrcVip = vA, pt_Src = aA\<rparr>]\<rparr>"
    using assms(4) by (simp_all add: relay_decision_def newP2PTask_def idle_send)
qed

lemma trySendControl_idle:
  "idle (controlChan (client h c)) \<Longrightarrow>
     trySendControl c g h = set_client c ((client h c)\<lparr>controlChan := (controlChan (client h c))\<lparr>ch_items := [g]\<rparr>\<rparr>) h"
  by (simp add: trySendControl_def try_send_def chan_send_def idle_def)

abbreviation command :: "ip4 \<Rightarrow> ip4 \<Rightarrow> ip4 \<Rightarrow> addrport \<Rightarrow> GamePacket" where
  "command peer me ip a \<equiv> NewGamePacket peer me TypeP2PCommand (cone_payload ip a)"

lemma introduced:
  assumes "hub_rest h" "registered h vA c aA" "registered h vB d aB" "vA \<noteq> vB" "cone_client h c ipA" "cone_client h d ipB"
    and "hub_p2pTaskChan h = ch\<lparr>ch_items := [\<lparr>pt_DstVip = vB, pt_Dst = x, pt_SrcVip = vA, pt_Src = y\<rparr>]\<rparr>" "idle ch"
  shows "introduce se c d h = Some (h\<lparr>hub_p2pTaskChan := ch, hub_tm := tunnel_task vA vB (hub_tm h)\<rparr>,
    plain_frame (command vB vA ipB aB) 0, plain_frame (command vA vB ipA aA) 0)"
proof -
  have len: "c < length (hub_heap h)" "d < length (hub_heap h)"
    using assms(1-3) by (auto simp: hub_rest_def registered_def intro: routes_okD)
  have r: "c \<noteq> d" "gm_get (clientMap (hub_router h)) vA = Some c" "gm_get (clientMap (hub_router h)) vB = Some d"
    "idle (controlChan (client h c))" "idle (controlChan (client h d))" "dataAddr (client h c) = aA" "dataAddr (client h d) = aB"
    using assms(2-4) by (auto simp: registered_def route_def)
  let ?h1 = "h\<lparr>hub_p2pTaskChan := ch, hub_tm := tunnel_task vA vB (hub_tm h)\<rparr>"
  let ?full = "\<lambda>e g. (client h e)\<lparr>controlChan := (controlChan (client h e))\<lparr>ch_items := [g]\<rparr>\<rparr>"
  let ?h2 = "set_client d (?full d (command vA vB ipA aA)) (set_client c (?full c (command vB vA ipB aB)) ?h1)"
  have "handleP2PTask h = Some (Some ?h2)"
    using assms(5-8) r len cone_commands [of ?h1 c d ipA ipB]
    by (simp add: handleP2PTask_def chan_recv_def idle_drained cone_client_def trySendControl_idle)
  moreover have cl: "client ?h2 c = ?full c (command vB vA ipB aB)" "client ?h2 d = ?full d (command vA vB ipA aA)"
    using r(1) len by (simp_all add: set_client_def)
  moreover have ty: "clear_flag TypeP2PCommand \<noteq> TypePong" "int (length (cone_payload ip a)) \<le> MaxPayloadSize" for ip a
    by (simp_all add: type_defs FlagCompress_def MaxPayloadSize_eq)
  moreover have "frame_out se c ?h2 = Some (set_client c (client h c) ?h2, plain_frame (command vB vA ipB aB) 0)"
    using frame_out_queued [where h = ?h2 and c = c and ch = "controlChan (client h c)" and src = vB and dst = vA and se = se] cl(1) ty r(4) by simp
  moreover have "client (set_client c (client h c) ?h2) d = ?full d (command vA vB ipA aA)"
    using r(1) len by (simp add: set_client_def)
  then have "frame_out se d (set_client c (client h c) ?h2) = Some (set_client d (client h d) (set_client c (client h c) ?h2), plain_frame (command vA vB ipA aA) 0)"
    using frame_out_queued [where h = "set_client c (client h c) ?h2" and c = d and ch = "controlChan (client h d)" and src = vA and dst = vB and se = se] ty r(5) by simp
  moreover have "set_client d (client h d) (set_client c (client h c) ?h2) = ?h1"
    using r(1) len by (simp add: set_client_def list_update_swap)
  ultimately show ?thesis by (simp add: introduce_def)
qed

section \<open>The clients punch\<close>

text \<open>What the tunnel's messages leave of a client: all but its peers, its reports and its counters.\<close>

definition same_data :: "'h ClientTransport \<Rightarrow> 'h ClientTransport \<Rightarrow> bool" where
  "same_data t t' \<longleftrightarrow> noiseMgr t' = noiseMgr t \<and> ct_device t' = ct_device t \<and> localIp t' = localIp t \<and> serverAddr t' = serverAddr t \<and>
     FromNet t' = FromNet t"

lemma same_data_trans: "same_data t t' \<Longrightarrow> same_data t' t'' \<Longrightarrow> same_data t t''"
  by (simp add: same_data_def)

lemma same_data_keeps:
  assumes "same_data t t'"
  shows "readable t' p v = readable t p v" "mirrored t' v tB w = mirrored t v tB w" "mirrored tB w t' v = mirrored tB w t v"
    and "client_rest env srv me t \<Longrightarrow> peers_ok (p2pRouter t') \<Longrightarrow> idle (ControlSendChan t') \<Longrightarrow> client_rest env srv me t'"
  using assms by (simp_all add: same_data_def readable_def for_peer_def dns_query_eq mirrored_def client_rest_def)

text \<open>The one peer of a client: where it is, when it was heard and whether it has answered.\<close>

abbreviation peer_at :: "UDPAddr \<Rightarrow> int \<Rightarrow> bool \<Rightarrow> P2PStatus" where
  "peer_at u n est \<equiv> \<lparr>ps_DstNatType = TypeCone, ps_dstAddr = Some u, ps_LastSeen = n, ps_Established = est\<rparr>"

lemma command_received:
  assumes "p2pRouter t = []"
  shows "\<exists>g t'. controlRecv env True (WsBinary (plain_frame (command v me ip a) 0)) gp t = Some (g, t', [], PumpContinue) \<and>
    p2pRouter t' = [(v, peer_at (public_addr ip a) (ce_now env) False)] \<and> same_data t t' \<and> ControlSendChan t' = ControlSendChan t"
proof -
  have ty: "clear_flag TypeP2PCommand = TypeP2PCommand" "TypeP2PCommand AND FlagCompress = 0" "TypeP2PCommand \<noteq> TypeNoiseResponse" "TypeP2PCommand \<noteq> TypeP2PCheck"
    by (simp_all add: type_defs FlagCompress_def)
  have le: "int (length (cone_payload ip a)) \<le> MaxPayloadSize" by (simp add: MaxPayloadSize_eq)
  have sl: "slice_range 0 6 (cone_payload ip a) = Some (take 6 (cone_payload ip a))" "slice_range 6 7 (cone_payload ip a) = Some [TypeCone]"
    using cone_payload_decoded(2) [of ip a] by (simp_all add: slice_range_def)
  define t' where "t' = addP2P (ce_now env) v (public_addr ip a) TypeCone t"
  have "\<exists>g. controlRecv env True (WsBinary (plain_frame (command v me ip a) 0)) gp t = Some (g, t', [], PumpContinue)"
    using le ty sl cone_payload_decoded(1) [of ip a] by (simp add: controlRecv_def ParseControl_plain_frame t'_def del: take_append)
  moreover have "p2pRouter t' = [(v, peer_at (public_addr ip a) (ce_now env) False)]" "same_data t t'" "ControlSendChan t' = ControlSendChan t"
    using assms by (simp_all add: t'_def addP2P_def Let_def SetDstAddr_def gm_set_fresh same_data_def)
  ultimately show ?thesis by blast
qed

abbreviation ping_frame :: "ip4 \<Rightarrow> bytes" where
  "ping_frame me \<equiv> plain_frame (NewGamePacket me ip4_zero TypePing []) 0"

abbreviation pong_frame :: "ip4 \<Rightarrow> bytes" where
  "pong_frame me \<equiv> plain_frame (NewGamePacket me ip4_zero TypePong []) 0"

lemma encoded_signal: "\<exists>g. EncodePacketWithBuffer (NewGamePacket me dst ty []) [] True None = (Some (plain_frame (NewGamePacket me dst ty []) 0), g)"
  by (simp add: EncodePacketWithBuffer_def encode_plain MaxPayloadSize_eq)

lemma ping_sent:
  assumes "localIp t = ip4_bytes me" "p2pRouter t = [(v, peer_at u n est)]" "ce_now env \<le> n + 10" "\<And>x. ce_accept env x u"
  shows "handleP2P env t = Some (t, [Datagram (ping_frame me) u])"
proof -
  obtain g where "EncodePacketWithBuffer (NewGamePacket me ip4_zero TypePing []) [] True None = (Some (ping_frame me), g)"
    using encoded_signal by blast
  then show ?thesis
    using assms by (cases est) (simp_all add: handleP2P_def To4_def peer_IsTimeout_def punch_def GetDstAddr_def WriteToUDP_def udp_effects_def)
qed

lemma ping_answered:
  assumes "localIp t = ip4_bytes me" "p2pRouter t = [(v, peer_at u n est)]" "\<And>x. ce_accept env x u"
  shows "\<exists>t'. packetRecv env False (ping_frame v) u t = Some (t', [Datagram (pong_frame me) u], PumpContinue) \<and>
    p2pRouter t' = [(v, peer_at u n est)] \<and> same_data t t' \<and> ControlSendChan t' = ControlSendChan t"
proof -
  have ty: "clear_flag TypePing = TypePing" "TypePing AND FlagCompress = 0" "TypePing \<noteq> TypeData" by (simp_all add: type_defs FlagCompress_def)
  obtain g where pong: "EncodePacketWithBuffer (NewGamePacket me ip4_zero TypePong []) [] True None = (Some (pong_frame me), g)"
    using encoded_signal by blast
  obtain g1 where "ParsePacket (ce_raw env) (ping_frame v) True None gp_empty = (g1, None)" "PType g1 = TypePing" "gp_src g1 = v"
    using ParsePacket_plain_frame [of "NewGamePacket v ip4_zero TypePing []" "ce_raw env" 0 True gp_empty] ty by (auto simp: MaxPayloadSize_eq)
  then show ?thesis
    using assms ty pong
    by (simp add: packetRecv_def recv_ping_def count_received_def To4_def WriteToUDP_def udp_effects_def peer_write_def SetDstAddr_def same_data_def)
qed

lemma pong_heard:
  assumes "localIp t = ip4_bytes me" "p2pRouter t = [(v, peer_at u n est)]" "idle (ControlSendChan t)"
  shows "\<exists>t'. packetRecv env False (pong_frame v) u t = Some (t', [], PumpContinue) \<and>
    p2pRouter t' = [(v, peer_at u (ce_now env) True)] \<and> same_data t t' \<and>
    ControlSendChan t' = (ControlSendChan t)\<lparr>ch_items := [NewGamePacket me v TypeP2PEstablished []]\<rparr>"
proof -
  have ty: "clear_flag TypePong = TypePong" "TypePong AND FlagCompress = 0" "TypePong \<noteq> TypeData" "TypePong \<noteq> TypePing"
    by (simp_all add: type_defs FlagCompress_def)
  obtain g1 where "ParsePacket (ce_raw env) (pong_frame v) True None gp_empty = (g1, None)" "PType g1 = TypePong" "gp_src g1 = v"
    using ParsePacket_plain_frame [of "NewGamePacket v ip4_zero TypePong []" "ce_raw env" 0 True gp_empty] ty by (auto simp: MaxPayloadSize_eq)
  then show ?thesis
    using assms ty
    by (simp add: packetRecv_def recv_pong_def count_received_def peer_write_def SetDstAddr_def peer_UpdateLastSeen_def idle_send same_data_def)
qed

lemma ping_round_done:
  assumes "localIp tA = ip4_bytes vA" "p2pRouter tA = [(vB, peer_at uB n estA)]" "ce_now envA \<le> n + 10" "idle (ControlSendChan tA)"
    and "localIp tB = ip4_bytes vB" "p2pRouter tB = [(vA, peer_at uA m estB)]" "\<And>x. ce_accept envA x uB" "\<And>x. ce_accept envB x uA"
  shows "\<exists>tA' tB'. ping_round envA envB uA uB tA tB = Some (tA', tB') \<and> same_data tA tA' \<and> same_data tB tB' \<and>
    p2pRouter tA' = [(vB, peer_at uB (ce_now envA) True)] \<and> p2pRouter tB' = [(vA, peer_at uA m estB)] \<and>
    ControlSendChan tA' = (ControlSendChan tA)\<lparr>ch_items := [NewGamePacket vA vB TypeP2PEstablished []]\<rparr> \<and>
    ControlSendChan tB' = ControlSendChan tB"
proof -
  obtain tB' where b: "packetRecv envB False (ping_frame vA) uA tB = Some (tB', [Datagram (pong_frame vB) uA], PumpContinue)"
    "p2pRouter tB' = [(vA, peer_at uA m estB)]" "same_data tB tB'" "ControlSendChan tB' = ControlSendChan tB"
    using ping_answered [OF assms(5,6), of envB] assms(8) by blast
  obtain tA' where "packetRecv envA False (pong_frame vB) uB tA = Some (tA', [], PumpContinue)"
    "p2pRouter tA' = [(vB, peer_at uB (ce_now envA) True)]" "same_data tA tA'"
    "ControlSendChan tA' = (ControlSendChan tA)\<lparr>ch_items := [NewGamePacket vA vB TypeP2PEstablished []]\<rparr>"
    using pong_heard [OF assms(1,2,4), of envA] by blast
  then show ?thesis using b ping_sent [OF assms(1-3,7)] by (simp add: ping_round_def)
qed

lemma reported:
  assumes "registered h v c a" "gm_get (hub_wsHandlers h) TypeP2PEstablished = Some handle_P2PEstablished"
    and "ControlSendChan t = ch\<lparr>ch_items := [NewGamePacket v w TypeP2PEstablished []]\<rparr>" "idle ch"
  shows "report env se c t h = Some (t\<lparr>ControlSendChan := ch\<rparr>, h\<lparr>hub_tm := tunnel_established v w (hub_tm h)\<rparr>)"
proof -
  have ty: "clear_flag TypeP2PEstablished = TypeP2PEstablished" "TypeP2PEstablished AND FlagCompress = 0" "TypeP2PEstablished \<noteq> TypePing"
    by (simp_all add: type_defs FlagCompress_def)
  have "controlSend env True t = Some (t\<lparr>ControlSendChan := ch\<rparr>, [ToServer (BinaryFrame (plain_frame (NewGamePacket v w TypeP2PEstablished []) 0))], PumpContinue)"
    using assms(3,4) ty encoded_frame [of "[]" env True v w TypeP2PEstablished]
    by (simp add: controlSend_def chan_recv_def idle_drained MaxPayloadSize_eq)
  then show ?thesis
    using assms(1,2) ty
    by (simp add: report_def readPump_def ParseControl_plain_frame MaxPayloadSize_eq HandleWSMessage_def handleP2PEstablished_def registered_def)
qed

section \<open>The tunnel opens\<close>

lemma client_rest_at [simp]: "client_rest (at_time n env) srv v t = client_rest env srv v t"
  by (simp add: client_rest_def)

lemma link_peer_at [simp]:
  "link_of [(v, peer_at u n True)] v = Direct u n" "peers_ok [(v, peer_at u n est)]"
  by (simp_all add: link_of_def GetDstAddr_def peers_ok_def gm_wf_def)

text \<open>The entry of the pair at the server: attempted, then reported by both sides.\<close>

lemma tunnel_connected:
  assumes "tm_wf tm" "Exist vA vB tm = Some T" "tun_Status T = TunnelInit"
  shows "\<exists>T'. Exist vA vB (tunnel_established vB vA (tunnel_established vA vB (tunnel_task vA vB tm))) = Some T' \<and> tun_Status T' = TunnelConnected"
proof -
  have w: "tm_wf (fst (event_step e tm'))" if "tm_wf tm'" for e tm' using event_step_wf that by blast
  let ?tm1 = "tunnel_task vA vB tm" and ?tm2 = "tunnel_established vA vB (tunnel_task vA vB tm)"
  have wf: "tm_wf ?tm1" "tm_wf ?tm2" using w [of tm "TaskTaken vA vB"] w [of ?tm1 "PeerEstablished vA vB"] assms(1) by simp_all
  have "Exist vA vB ?tm1 = Some (AddRetryTimes T)" using assms by (simp add: tunnel_task_def tunnels.find_store)
  then have "Exist vA vB ?tm2 = Some (ChangeStatus TunnelConnected (AddRetryTimes T))"
    using assms(3) wf(1) by (simp add: tunnel_established_def tunnels.find_store tunnel_simps)
  moreover from this have "tunnel_established vB vA ?tm2 = ?tm2"
    using tunnels.find_sym [of vB vA ?tm2] by (simp add: tunnel_established_def [of vB vA] tunnel_simps tunnel_status_defs)
  ultimately show ?thesis by (simp add: tunnel_simps)
qed

lemma tunnel_opened:
  assumes "client_rest envA srv vA tA" "client_rest envB srv vB tB" "p2pRouter tA = []" "p2pRouter tB = []"
    and "hub_rest h" "registered h vA c aA" "registered h vB d aB" "vA \<noteq> vB" "cone_client h c ipA" "cone_client h d ipB"
    and "hub_p2pTaskChan h = ch\<lparr>ch_items := [\<lparr>pt_DstVip = vB, pt_Dst = x, pt_SrcVip = vA, pt_Src = y\<rparr>]\<rparr>" "idle ch"
    and "tm_wf (hub_tm h)" "Exist vA vB (hub_tm h) = Some T" "tun_Status T = TunnelInit"
    and "gm_get (hub_wsHandlers h) TypeP2PEstablished = Some handle_P2PEstablished"
    and "uA = public_addr ipA aA" "uB = public_addr ipB aB" "\<And>w. ce_accept envA w uB" "\<And>w. ce_accept envB w uA"
    and "n1 \<le> n0 + 10" "n2 \<le> n0 + 10" "n3 \<le> n0 + 10"
  obtains tA' tB' h' T' where "open_tunnel envA envB se gp c d uA uB n0 n1 n2 n3 tA tB h = Some (tA', tB', h')"
    "client_rest envA srv vA tA'" "client_rest envB srv vB tB'" "same_data tA tA'" "same_data tB tB'"
    "link_of (p2pRouter tA') vB = Direct uB n3" "link_of (p2pRouter tB') vA = Direct uA n2"
    "Exist vA vB (hub_tm h') = Some T'" "tun_Status T' = TunnelConnected"
proof -
  have ip: "localIp tA = ip4_bytes vA" "localIp tB = ip4_bytes vB" and q: "idle (ControlSendChan tA)" "idle (ControlSendChan tB)"
    using assms(1,2) by (simp_all add: client_rest_def)
  note i = introduced [OF assms(5-12), of se]
  obtain gA tA1 where a1: "controlRecv (at_time n0 envA) True (WsBinary (plain_frame (command vB vA ipB aB) 0)) gp tA = Some (gA, tA1, [], PumpContinue)"
    "p2pRouter tA1 = [(vB, peer_at uB n0 False)]" "same_data tA tA1" "ControlSendChan tA1 = ControlSendChan tA"
    using command_received [OF assms(3), of "at_time n0 envA" vB vA ipB aB gp] assms(18) by auto
  obtain gB tB1 where b1: "controlRecv (at_time n0 envB) True (WsBinary (plain_frame (command vA vB ipA aA) 0)) gp tB = Some (gB, tB1, [], PumpContinue)"
    "p2pRouter tB1 = [(vA, peer_at uA n0 False)]" "same_data tB tB1" "ControlSendChan tB1 = ControlSendChan tB"
    using command_received [OF assms(4), of "at_time n0 envB" vA vB ipA aA gp] assms(17) by auto
  have ip1: "localIp tA1 = ip4_bytes vA" "localIp tB1 = ip4_bytes vB" using ip a1(3) b1(3) by (simp_all add: same_data_def)
  have lost: "handleP2P (at_time n1 envA) tA1 = Some (tA1, [Datagram (ping_frame vA) uB])"
    using ping_sent [OF ip1(1) a1(2), of "at_time n1 envA"] assms(19,21) by simp
  obtain tB2 tA2 where r2: "ping_round (at_time n2 envB) (at_time n2 envA) uB uA tB1 tA1 = Some (tB2, tA2)" "same_data tB1 tB2" "same_data tA1 tA2"
    "p2pRouter tB2 = [(vA, peer_at uA n2 True)]" "p2pRouter tA2 = [(vB, peer_at uB n0 False)]"
    "ControlSendChan tB2 = (ControlSendChan tB1)\<lparr>ch_items := [NewGamePacket vB vA TypeP2PEstablished []]\<rparr>" "ControlSendChan tA2 = ControlSendChan tA1"
    using ping_round_done [OF ip1(2) b1(2) _ _ ip1(1) a1(2), of "at_time n2 envB" "at_time n2 envA"] assms(19,20,22) b1(4) q(2) by auto
  have ip2: "localIp tA2 = ip4_bytes vA" "localIp tB2 = ip4_bytes vB" "idle (ControlSendChan tA2)"
    using ip1 r2(2,3,7) a1(4) q(1) by (simp_all add: same_data_def)
  obtain tA3 tB3 where r3: "ping_round (at_time n3 envA) (at_time n3 envB) uA uB tA2 tB2 = Some (tA3, tB3)" "same_data tA2 tA3" "same_data tB2 tB3"
    "p2pRouter tA3 = [(vB, peer_at uB n3 True)]" "p2pRouter tB3 = [(vA, peer_at uA n2 True)]"
    "ControlSendChan tA3 = (ControlSendChan tA2)\<lparr>ch_items := [NewGamePacket vA vB TypeP2PEstablished []]\<rparr>" "ControlSendChan tB3 = ControlSendChan tB2"
    using ping_round_done [OF ip2(1) r2(5) _ ip2(3,2) r2(4), of "at_time n3 envA" "at_time n3 envB"] assms(19,20,23) by auto
  let ?h1 = "h\<lparr>hub_p2pTaskChan := ch, hub_tm := tunnel_task vA vB (hub_tm h)\<rparr>"
  let ?h2 = "h\<lparr>hub_p2pTaskChan := ch, hub_tm := tunnel_established vA vB (tunnel_task vA vB (hub_tm h))\<rparr>"
  let ?h3 = "h\<lparr>hub_p2pTaskChan := ch, hub_tm := tunnel_established vB vA (tunnel_established vA vB (tunnel_task vA vB (hub_tm h)))\<rparr>"
  have reg: "registered ?h1 vA c aA" "registered ?h2 vB d aB" using assms(6,7) by (simp_all add: registered_def route_def)
  have rA: "report (at_time n3 envA) se c tA3 ?h1 = Some (tA3\<lparr>ControlSendChan := ControlSendChan tA\<rparr>, ?h2)"
    using reported [OF reg(1) _ r3(6), of "at_time n3 envA" se] assms(16) ip2(3) r2(7) a1(4) by simp
  have rB: "report (at_time n3 envB) se d tB3 ?h2 = Some (tB3\<lparr>ControlSendChan := ControlSendChan tB\<rparr>, ?h3)"
    using reported [OF reg(2) _ r3(7) [unfolded r2(6)], of "at_time n3 envB" se] assms(16) b1(4) q(2) by simp
  let ?tA = "tA3\<lparr>ControlSendChan := ControlSendChan tA\<rparr>" and ?tB = "tB3\<lparr>ControlSendChan := ControlSendChan tB\<rparr>"
  have op: "open_tunnel envA envB se gp c d uA uB n0 n1 n2 n3 tA tB h = Some (?tA, ?tB, ?h3)"
    using i a1(1) b1(1) lost r2(1) r3(1) rA rB by (simp add: open_tunnel_def)
  have same: "same_data tA ?tA" "same_data tB ?tB"
    using a1(3) b1(3) r2(2,3) r3(2,3) by (simp_all add: same_data_def)
  have rest: "client_rest envA srv vA ?tA" "client_rest envB srv vB ?tB"
    using same_data_keeps(4) [OF same(1) assms(1)] same_data_keeps(4) [OF same(2) assms(2)] r3(4,5) q by simp_all
  have links: "link_of (p2pRouter ?tA) vB = Direct uB n3" "link_of (p2pRouter ?tB) vA = Direct uA n2" using r3(4,5) by simp_all
  obtain T' where "Exist vA vB (hub_tm ?h3) = Some T'" "tun_Status T' = TunnelConnected" using tunnel_connected [OF assms(13-15)] by auto
  from that [OF op rest same links this] show ?thesis .
qed

lemma carried_direct:
  assumes "client_rest envA srv vA tA" "client_rest envB srv vB tB" "mirrored tA vA tB vB" "readable tA p vB"
    and "link_of (p2pRouter tA) vB = Direct u n" "\<And>x. ce_accept envA x u" "lz4_ok (ce_lz4 envA)" "ce_lz4 envB = ce_lz4 envA"
  shows "\<exists>tA' tB' tail. carry_direct envA envB uA p tA tB = Some (tA', tB', u, [ToDevice (p @ tail)]) \<and> length tail \<le> 16"
proof -
  let ?t1 = "set_FromTun \<lparr>ch_cap = 256, ch_items = [p], ch_closed = False\<rparr> tA"
  have p: "20 \<le> length p" "length p \<le> 1280" "p \<noteq> []" "for_peer tA p vB" using assms(4) by (auto simp: readable_def)
  have empty: "set_FromTun \<lparr>ch_cap = 256, ch_items = [], ch_closed = False\<rparr> ?t1 = tA"
    using assms(1) by (simp add: set_FromTun_def client_rest_def)
  have "link_target (Some srv) (link_of (p2pRouter tA) vB) = Some u" by (simp add: assms(5))
  from sealed_passage [OF assms(1-3) p(4) this assms(6) p(3,2) assms(7,8), of uA] obtain tA' w tB1 tB' tail where
    r: "send_packet envA False p tA = Some (tA', [Datagram w u], PumpContinue)"
    "packetRecv envB False w uA tB = Some (tB1, [], PumpContinue)" "device_write tB1 = Some (tB', [ToDevice (p @ tail)])" "length tail \<le> 16"
    by metis
  have "packetSend envA False ?t1 = Some (Some (count_sent 1 tA', [Datagram w u], TurnDone))"
    using r(1) p(1) by (intro packetSend_one) (simp_all add: empty, simp add: set_FromTun_def)
  then show ?thesis
    using device_read_queued [OF assms(1,4)] r(2-4) by (simp add: carry_direct_def send_turn_def)
qed

end
