(* ===== verification/PacketPool.thy ===== *)
theory PacketPool
  imports Packet Store
begin

text \<open>
  Parsing and encoding of packets (\<^verbatim>\<open>packet.go\<close>) in memory from the pool, and that they agree
  with the operations on values of the theory \<open>Packet\<close> and leave all other memory alone.
\<close>

section \<open>Operations\<close>

abbreviation whole :: "nat \<Rightarrow> nat \<Rightarrow> ref" where
  "whole b n \<equiv> \<lparr>ref_block = b, ref_off = 0, ref_len = n\<rparr>"

text \<open>\<open>i\<close> is the pool's choice. A packet that fails to parse leaves no reference.\<close>

definition ParsePacket_mem :: "nat option \<Rightarrow> bytes \<Rightarrow> GamePacket \<Rightarrow> mem \<Rightarrow> GamePacket \<times> ref option \<times> mem" where
  "ParsePacket_mem i content g m =
     (if int (length content) > MaxPacketSize then (g, None, m)
      else case pool_GetSized i (length content) m of (b, m) \<Rightarrow>
        let m = fill b content m
        in case parse g content True None of
             (g, Some err) \<Rightarrow> (g\<lparr>RawData := None, Payload := []\<rparr>, None, pool_Put b m)
           | (g, None) \<Rightarrow> (g\<lparr>RawData := None, Payload := []\<rparr>, Some (whole b (length content)), m))"

definition EncodePacket_mem :: "nat option \<Rightarrow> bool \<Rightarrow> GamePacket \<Rightarrow> mem \<Rightarrow> ref \<times> mem" where
  "EncodePacket_mem i control g m =
     (case payloadLengthField (int (length (Payload g))) of (len, ok) \<Rightarrow>
      if \<not> ok then (case mem_make 0 m of (b, m) \<Rightarrow> (whole b 0, m))
      else case pool_GetSized i (HeaderLength + unat len) m of (b, m) \<Rightarrow>
        let data = (case encode (g\<lparr>Length := len\<rparr>) [] control None of (None, _, _) \<Rightarrow> [] | (Some d, _, _) \<Rightarrow> d)
        in (whole b (length data), fill b data m))"

text \<open>A packet whose bytes are behind a reference, with those bytes.\<close>

definition abs_gp :: "store \<Rightarrow> ref \<Rightarrow> GamePacket \<Rightarrow> GamePacket" where
  "abs_gp st r g = g\<lparr>RawData := Some \<lparr>sl_data = deref st r, sl_cap = length (st ! ref_block r)\<rparr>, Payload := drop HeaderLength (deref st r)\<rparr>"

lemma abs_gp_sel [simp]:
  "PType (abs_gp st r g) = PType g" "gp_src (abs_gp st r g) = gp_src g" "gp_dst (abs_gp st r g) = gp_dst g" "Payload (abs_gp st r g) = drop HeaderLength (deref st r)"
  "raw_bytes (abs_gp st r g) = deref st r" "Destination (abs_gp st r g) = Destination g"
  by (simp_all add: abs_gp_def raw_bytes_def Destination_def)

section \<open>They do what the operations on values do\<close>

lemma parse_plain:
  "parse (g\<lparr>RawData := raw\<rparr>) content True None = apfst (\<lambda>g. g\<lparr>RawData := raw\<rparr>) (parse g content True None)"
  "parse g content True None = (g', None) \<Longrightarrow> Payload g' = drop HeaderLength content"
  by (auto simp: parse_def Let_def split: sum.splits)

lemma ParsePacket_mem_none:
  assumes "mem_ok m xs" "ParsePacket_mem i content g m = (g', None, m')"
  shows "mem_ok m' xs" "\<forall>c \<in> set xs. m_store m' ! c = m_store m ! c" "\<exists>g'' err. ParsePacket buf content True None g = (g'', Some err)"
proof -
  have "mem_ok m' xs \<and> (\<forall>c \<in> set xs. m_store m' ! c = m_store m ! c) \<and> (\<exists>g'' err. ParsePacket buf content True None g = (g'', Some err))"
  proof (cases "int (length content) > MaxPacketSize")
    case True
    then show ?thesis using assms by (simp add: ParsePacket_mem_def ParsePacket_def)
  next
    case False
    obtain b m1 where b: "pool_GetSized i (length content) m = (b, m1)" by force
    obtain g1 e where p: "parse g content True None = (g1, e)" by force
    from assms(2) False b p obtain err where e: "e = Some err" "m' = pool_Put b (fill b content m1)"
      by (auto simp: ParsePacket_mem_def Let_def split: option.splits)
    have "ParsePacket buf content True None g = (g1\<lparr>RawData := None, Payload := []\<rparr>, Some err)"
      using False p e(1) by (simp add: ParsePacket_def Let_def parse_plain)
    then show ?thesis using sized.borrowed [where m = m and xs = xs and i = "(i, length content)" and b = b and m' = m1 and d = content] assms(1) b e(2) by auto
  qed
  then show "mem_ok m' xs" "\<forall>c \<in> set xs. m_store m' ! c = m_store m ! c" "\<exists>g'' err. ParsePacket buf content True None g = (g'', Some err)"
    by simp_all
qed

lemma ParsePacket_mem_some:
  assumes "mem_ok m xs" "ParsePacket_mem i content g m = (g', Some r, m')"
  shows "mem_ok m' (ref_block r # xs)" "\<forall>c \<in> set xs. m_store m' ! c = m_store m ! c" "deref (m_store m') r = content"
    "\<exists>buf. ParsePacket buf content True None g = (abs_gp (m_store m') r g', None)"
proof -
  have le: "\<not> int (length content) > MaxPacketSize" using assms(2) by (auto simp: ParsePacket_mem_def)
  obtain b m1 where b: "pool_GetSized i (length content) m = (b, m1)" by force
  obtain g1 e where p: "parse g content True None = (g1, e)" by force
  from assms(2) le b p have r: "e = None" "m' = fill b content m1" "r = whole b (length content)" "g' = g1\<lparr>RawData := None, Payload := []\<rparr>"
    by (auto simp: ParsePacket_mem_def Let_def split: option.splits)
  note got = mem_ok_GetSized [OF assms(1) b]
  note filled = mem_ok_fill [OF got(1), of content]
  show "mem_ok m' (ref_block r # xs)" "\<forall>c \<in> set xs. m_store m' ! c = m_store m ! c"
    using filled(1,2) got(2) r by simp_all
  show d: "deref (m_store m') r = content" using filled(3) r by (simp add: deref_def)
  let ?buf = "\<lparr>sl_data = [], sl_cap = length (m_store m' ! b)\<rparr>"
  have "ParsePacket ?buf content True None g = (g1\<lparr>RawData := Some \<lparr>sl_data = content, sl_cap = length (m_store m' ! b)\<rparr>\<rparr>, None)"
    using le p r(1,2) filled(4) got(3) by (simp add: ParsePacket_def Let_def parse_plain)
  then show "\<exists>buf. ParsePacket buf content True None g = (abs_gp (m_store m') r g', None)"
    using d r parse_plain(2) [of g content g1] p by (intro exI [of _ ?buf]) (simp add: abs_gp_def)
qed

lemma EncodePacket_mem_some:
  assumes "mem_ok m xs" "EncodePacket_mem i control g m = (d, m')"
  shows "mem_ok m' (ref_block d # xs)" "\<forall>c \<in> set xs. m_store m' ! c = m_store m ! c"
    "deref (m_store m') d = (case EncodePacket z pb cb eb control False None g of (None, _, _) \<Rightarrow> [] | (Some w, _, _) \<Rightarrow> w)"
proof -
  obtain len ok where l: "payloadLengthField (int (length (Payload g))) = (len, ok)" by force
  have "mem_ok m' (ref_block d # xs) \<and> (\<forall>c \<in> set xs. m_store m' ! c = m_store m ! c) \<and>
    deref (m_store m') d = (case EncodePacket z pb cb eb control False None g of (None, _, _) \<Rightarrow> [] | (Some w, _, _) \<Rightarrow> w)"
  proof (cases ok)
    case False
    obtain b m1 where b: "mem_make 0 m = (b, m1)" by force
    then show ?thesis
      using assms l False mem_ok_make [OF assms(1) b] by (auto simp: EncodePacket_mem_def EncodePacket_def deref_def)
  next
    case True
    obtain b m1 where b: "pool_GetSized i (HeaderLength + unat len) m = (b, m1)" by force
    let ?w = "case encode (g\<lparr>Length := len\<rparr>) [] control None of (None, _, _) \<Rightarrow> [] | (Some d, _, _) \<Rightarrow> d"
    have r: "d = whole b (length ?w)" "m' = fill b ?w m1" using assms(2) l True b by (auto simp: EncodePacket_mem_def Let_def)
    note got = mem_ok_GetSized [OF assms(1) b]
    show ?thesis
      using mem_ok_fill [OF got(1), of ?w] got(2) r l True by (auto simp: EncodePacket_def deref_def Let_def)
  qed
  then show "mem_ok m' (ref_block d # xs)" "\<forall>c \<in> set xs. m_store m' ! c = m_store m ! c"
    "deref (m_store m') d = (case EncodePacket z pb cb eb control False None g of (None, _, _) \<Rightarrow> [] | (Some w, _, _) \<Rightarrow> w)"
    by simp_all
qed

end
