(* ===== verification/ServerPool.thy ===== *)
theory ServerPool
  imports HubUdp PacketPool
begin

text \<open>
  The server's data path in shared memory. The other theories treat a packet's bytes as a value.
  The code keeps them in an array from the pool, which the listener fills, the queue to the relay,
  the queue to the writer and the writer pass on, and the last owner puts back; answers to key
  queries wait in such an array, too. Here the same loops (\<^verbatim>\<open>server_udp.go\<close>,
  \<^verbatim>\<open>transfer\<close> in \<^verbatim>\<open>server.go\<close>, \<^verbatim>\<open>handleNoiseHandshake\<close> and
  \<^verbatim>\<open>writePump\<close> in \<^verbatim>\<open>server_ws.go\<close>) work on references, for any choice the pool
  makes, and it is shown that they implement the definitions on values.
\<close>

section \<open>State\<close>

text \<open>
  The queues hold references beside the fields that are copied; the two queues inside \<open>pm_hub\<close> are
  not used. \<open>pm_answers\<close> are the payloads of the key answers that wait for their connections.
\<close>

record pooled =
  pm_hub :: Hub
  pm_mem :: mem
  pm_transfer :: "(transferPacket \<times> ref) chan"
  pm_packets :: "(packet \<times> ref) chan"
  pm_answers :: "ref list"

section \<open>The loops\<close>

definition listenUdp_mem :: "('m, 'r) dns_lib \<Rightarrow> nat option \<Rightarrow> nat option \<Rightarrow> bool \<Rightarrow> addrport \<Rightarrow> bytes \<Rightarrow> GamePacket \<Rightarrow> pooled \<Rightarrow> pooled \<times> disposed" where
  "listenUdp_mem dl i j stop srcAddrPort payload gp s =
     (case ParsePacket_mem i payload gp (pm_mem s) of
        (gp, None, m) \<Rightarrow> (s\<lparr>pm_mem := put_nil m\<rparr>, CleanUp)
      | (gp, Some r, m) \<Rightarrow>
          let rawPType = clear_flag (PType gp);
              h = pm_hub s;
              put_back = s\<lparr>pm_mem := pool_Put (ref_block r) m\<rparr>
          in if rawPType = TypePing then
               (s\<lparr>pm_hub := (case gm_get (clientMap (hub_router h)) (IpToKey (SourceVirtualIp gp)) of
                             None \<Rightarrow> h | Some c \<Rightarrow> updateAddrCheck c srcAddrPort h),
                  pm_mem := pool_Put (ref_block r) m\<rparr>, CleanUp)
             else if rawPType = TypeDnsRequest then
               (case buildDnsResponse dl (drop HeaderLength (deref (m_store m) r)) h of
                  Inl err \<Rightarrow> (put_back, CleanUp)
                | Inr dnsResp \<Rightarrow>
                    let dnsGp = NewGamePacket ip4_zero (IpToKey (SourceVirtualIp gp)) TypeDnsResponse dnsResp;
                        (d, m) = EncodePacket_mem j False dnsGp m;
                        p = \<lparr>pk_data = [], pk_broadcast = False, pk_dstAddr = srcAddrPort\<rparr>
                    in (case try_send (p, d) (pm_packets s) of
                          (ch, True) \<Rightarrow> (s\<lparr>pm_packets := ch, pm_mem := pool_Put (ref_block r) m\<rparr>, CleanUp)
                        | (ch, False) \<Rightarrow> (s\<lparr>pm_mem := pool_Put (ref_block r) (pool_Put (ref_block d) m)\<rparr>, CleanUp)))
             else if rawPType = TypeData then
               (case select_send stop (\<lparr>tp_gp = gp, tp_srcAddr = srcAddrPort\<rparr>, r) (pm_transfer s) of
                  (ch, SelSent) \<Rightarrow> (s\<lparr>pm_transfer := ch, pm_mem := m\<rparr>, Queued)
                | (ch, SelDone) \<Rightarrow> (put_back, Returned)
                | (ch, SelDefault) \<Rightarrow> (put_back, CleanUp))
             else (put_back, CleanUp))"

text \<open>One turn of the relay; \<open>None\<close> is an empty queue.\<close>

definition transfer_mem :: "bool \<Rightarrow> bool \<Rightarrow> pooled \<Rightarrow> (pooled \<times> relayed) option" where
  "transfer_mem stop stopTask s =
     (case chan_recv (pm_transfer s) of
        None \<Rightarrow> None
      | Some ((tp, r), queue) \<Rightarrow>
          let s = s\<lparr>pm_transfer := queue\<rparr>;
              dropped = (\<lambda>h. Some (s\<lparr>pm_hub := h, pm_mem := pool_Put (ref_block r) (pm_mem s)\<rparr>, Dropped));
              h = pm_hub s; dst = Destination (tp_gp tp); src = SourceVirtualIp (tp_gp tp);
              snapshot = hub_router h; srcIp = IpToKey src
          in case gm_get (clientMap snapshot) srcIp of
               None \<Rightarrow> dropped h
             | Some srcClient \<Rightarrow>
                 let h = updateAddrCheck srcClient (tp_srcAddr tp) h
                 in if the (To4 dst) ! 3 = 255 \<or> IsMulticast dst then dropped h
                    else if Contains (hub_Subnet h) dst \<and> \<not> IsLoopback dst then
                      let dstIp = IpToKey (the (To4 dst))
                      in case gm_get (clientMap snapshot) dstIp of
                           None \<Rightarrow> dropped h
                         | Some c \<Rightarrow>
                             let dstAddr = dataAddr (client h c);
                                 (tm, est) = ifEstablish srcIp dstIp (natType (client h srcClient)) (natType (client h c)) (hub_tm h);
                                 h = h\<lparr>hub_tm := tm\<rparr>;
                                 h = (if est then newP2PTask stopTask srcIp dstIp (tp_srcAddr tp) dstAddr h else h)
                             in if \<not> IsValid dstAddr then dropped h
                                else (case select_send stop
                                          (\<lparr>pk_data = [], pk_broadcast = False, pk_dstAddr = dstAddr\<rparr>, r) (pm_packets s) of
                                        (ch, SelSent) \<Rightarrow> Some (s\<lparr>pm_hub := h, pm_packets := ch\<rparr>, Relayed)
                                      | (ch, SelDone) \<Rightarrow> Some (s\<lparr>pm_hub := h\<rparr>, Stopped)
                                      | (ch, SelDefault) \<Rightarrow> dropped h)
                    else dropped h)"

text \<open>The bytes behind a queue entry.\<close>

fun abs_tp :: "store \<Rightarrow> transferPacket \<times> ref \<Rightarrow> transferPacket" where
  "abs_tp st (tp, r) = tp\<lparr>tp_gp := abs_gp st r (tp_gp tp)\<rparr>"

fun abs_packet :: "store \<Rightarrow> packet \<times> ref \<Rightarrow> packet" where
  "abs_packet st (p, r) = p\<lparr>pk_data := deref st r\<rparr>"

text \<open>One batch of the writer: the messages are read from the arrays, then the arrays go back.\<close>

definition writeUdpPacket_mem :: "pooled \<Rightarrow> (pooled \<times> (bytes \<times> addrport) list) option" where
  "writeUdpPacket_mem s =
     (case chan_recv (pm_packets s) of
        None \<Rightarrow> None
      | Some (pa, ch) \<Rightarrow>
          (case drain 15 [pa] ch of
             (batch, ch) \<Rightarrow>
               Some (s\<lparr>pm_packets := ch, pm_mem := fold pool_Put (map (ref_block \<circ> snd) batch) (pm_mem s)\<rparr>,
                     batch_msgs (pm_hub s) (map (abs_packet (m_store (pm_mem s))) batch))))"

text \<open>
  The answer to a key query: the key and the packet are appended to a buffer, in a new array when
  there is no room. \<open>queued\<close> says that the control queue took the answer.
\<close>

definition answer_mem :: "nat option \<Rightarrow> bool \<Rightarrow> bytes \<Rightarrow> pooled \<Rightarrow> pooled" where
  "answer_mem i queued pendingBuffer s =
     (case pool_Get i (pm_mem s) of (b, m) \<Rightarrow>
      case (if length (m_store m ! b) < length pendingBuffer then mem_make (length pendingBuffer) m else (b, m)) of (b, m) \<Rightarrow>
        let m = fill b pendingBuffer m
        in if queued then s\<lparr>pm_mem := m, pm_answers := pm_answers s @ [whole b (length pendingBuffer)]\<rparr>
           else s\<lparr>pm_mem := pool_Put b m\<rparr>)"

text \<open>The connection that writes the \<open>k\<close>-th waiting answer as the packet \<open>gp\<close>: its frame.\<close>

definition writePump_mem :: "nat option \<Rightarrow> nat \<Rightarrow> GamePacket \<Rightarrow> pooled \<Rightarrow> pooled \<times> bytes" where
  "writePump_mem i k gp s =
     (let r = pm_answers s ! k;
          (d, m) = EncodePacket_mem i True (gp\<lparr>Payload := deref (m_store (pm_mem s)) r\<rparr>) (pm_mem s)
      in (s\<lparr>pm_answers := take k (pm_answers s) @ drop (Suc k) (pm_answers s),
            pm_mem := pool_Put (ref_block r) (pool_Put (ref_block d) m)\<rparr>, deref (m_store m) d))"

section \<open>Ownership and abstraction\<close>

definition map_chan :: "('a \<Rightarrow> 'b) \<Rightarrow> 'a chan \<Rightarrow> 'b chan" where
  "map_chan f ch = \<lparr>ch_cap = ch_cap ch, ch_items = map f (ch_items ch), ch_closed = ch_closed ch\<rparr>"

lemma map_chan_send:
  "try_send (f x) (map_chan f ch) = (map_chan f (fst (try_send x ch)), snd (try_send x ch))"
  "select_send stop (f x) (map_chan f ch) = (map_chan f (fst (select_send stop x ch)), snd (select_send stop x ch))"
  by (simp_all add: select_send_def try_send_def chan_send_def map_chan_def)

lemma map_chan_cong: "\<forall>x \<in> set (ch_items ch). f x = g x \<Longrightarrow> map_chan f ch = map_chan g ch"
  by (simp add: map_chan_def)

definition pm_abs :: "pooled \<Rightarrow> Hub" where
  "pm_abs s = (pm_hub s)\<lparr>hub_transferChan := map_chan (abs_tp (m_store (pm_mem s))) (pm_transfer s),
     hub_packetChan := map_chan (abs_packet (m_store (pm_mem s))) (pm_packets s)\<rparr>"

definition pm_payloads :: "pooled \<Rightarrow> bytes list" where
  "pm_payloads s = map (deref (m_store (pm_mem s))) (pm_answers s)"

text \<open>The arrays in use: those of the queued packets and of the waiting answers.\<close>

definition held :: "pooled \<Rightarrow> nat list" where
  "held s = map (ref_block \<circ> snd) (ch_items (pm_transfer s)) @ map (ref_block \<circ> snd) (ch_items (pm_packets s)) @ map ref_block (pm_answers s)"

definition pm_ok :: "pooled \<Rightarrow> bool" where
  "pm_ok s \<longleftrightarrow> mem_ok (pm_mem s) (held s)"

lemma abs_entry_cong:
  assumes "st' ! ref_block r = st ! ref_block r"
  shows "deref st' r = deref st r" "abs_tp st' (tp, r) = abs_tp st (tp, r)" "abs_packet st' (p, r) = abs_packet st (p, r)"
  using assms by (simp_all add: deref_def abs_gp_def)

text \<open>Memory operations that leave the arrays in use alone are invisible.\<close>

lemma abs_mem:
  assumes "\<forall>c \<in> set (held s). m_store m ! c = m_store (pm_mem s) ! c"
  shows "pm_abs (s\<lparr>pm_mem := m\<rparr>) = pm_abs s" "pm_payloads (s\<lparr>pm_mem := m\<rparr>) = pm_payloads s"
proof -
  have "map_chan (abs_tp (m_store m)) (pm_transfer s) = map_chan (abs_tp (m_store (pm_mem s))) (pm_transfer s)"
    "map_chan (abs_packet (m_store m)) (pm_packets s) = map_chan (abs_packet (m_store (pm_mem s))) (pm_packets s)"
    using assms by (force intro!: map_chan_cong abs_entry_cong(2) abs_entry_cong(3) simp: held_def)+
  then show "pm_abs (s\<lparr>pm_mem := m\<rparr>) = pm_abs s" by (simp add: pm_abs_def)
  show "pm_payloads (s\<lparr>pm_mem := m\<rparr>) = pm_payloads s" using assms by (auto simp: pm_payloads_def held_def deref_def)
qed

lemma pm_sel [simp]:
  "hub_router (pm_abs s) = hub_router (pm_hub s)" "hub_heap (pm_abs s) = hub_heap (pm_hub s)" "hub_tm (pm_abs s) = hub_tm (pm_hub s)"
  "hub_Subnet (pm_abs s) = hub_Subnet (pm_hub s)" "hub_dnsMap (pm_abs s) = hub_dnsMap (pm_hub s)"
  by (simp_all add: pm_abs_def)

lemma hub_transferChan_abs: "hub_transferChan (pm_abs (s\<lparr>pm_mem := m\<rparr>)) = map_chan (abs_tp (m_store m)) (pm_transfer s)"
  by (simp add: pm_abs_def)

lemma held_mem [simp]: "held (s\<lparr>pm_mem := m\<rparr>) = held s" "held (s\<lparr>pm_hub := h\<rparr>) = held s"
  by (simp_all add: held_def)

lemma buildDnsResponse_abs: "buildDnsResponse dl p (pm_abs s) = buildDnsResponse dl p (pm_hub s)"
proof -
  have "getDns name suffix (pm_abs s) = getDns name suffix (pm_hub s)" for name suffix by (simp add: getDns_def)
  then show ?thesis by (simp add: buildDnsResponse_def split: sum.split list.split)
qed

lemma updateAddrCheck_abs: "updateAddrCheck c a (pm_abs s) = pm_abs (s\<lparr>pm_hub := updateAddrCheck c a (pm_hub s)\<rparr>)"
  by (simp add: updateAddrCheck_def set_client_def pm_abs_def)

section \<open>The loops implement those on values\<close>

lemma select_send_cases:
  "select_send stop x ch = (ch', SelSent) \<Longrightarrow> ch_items ch' = ch_items ch @ [x]"
  "try_send x ch = (ch', True) \<Longrightarrow> ch_items ch' = ch_items ch @ [x]"
  "select_send stop x ch = (ch', res) \<Longrightarrow> res \<noteq> SelSent \<Longrightarrow> ch' = ch"
  "try_send x ch = (ch', False) \<Longrightarrow> ch' = ch"
  by (auto simp: select_send_def try_send_def chan_send_def split: if_splits)

lemma put_back:
  assumes "mem_ok m (b # held s)" "\<forall>c \<in> set (held s). m_store m ! c = m_store (pm_mem s) ! c"
  shows "pm_ok (s\<lparr>pm_mem := pool_Put b m\<rparr>)" "pm_abs (s\<lparr>pm_mem := pool_Put b m\<rparr>) = pm_abs s"
    "pm_payloads (s\<lparr>pm_mem := pool_Put b m\<rparr>) = pm_payloads s"
  using abs_mem [of s "pool_Put b m"] assms by (simp_all add: pm_ok_def mem_ok_Put)

text \<open>A packet with its array goes to a queue.\<close>

lemma handed_to_relay:
  assumes "mem_ok m (ref_block r # held s)" "\<forall>c \<in> set (held s). m_store m ! c = m_store (pm_mem s) ! c"
    and "select_send stop (x, r) (pm_transfer s) = (ch, SelSent)"
  shows "pm_ok (s\<lparr>pm_transfer := ch, pm_mem := m\<rparr>)" "pm_payloads (s\<lparr>pm_transfer := ch, pm_mem := m\<rparr>) = pm_payloads s"
    "\<exists>q. select_send stop (abs_tp (m_store m) (x, r)) (hub_transferChan (pm_abs s)) = (q, SelSent) \<and>
      pm_abs (s\<lparr>pm_transfer := ch, pm_mem := m\<rparr>) = (pm_abs s)\<lparr>hub_transferChan := q\<rparr>"
proof -
  have items: "ch_items ch = ch_items (pm_transfer s) @ [(x, r)]" using select_send_cases(1) [OF assms(3)] .
  show "pm_ok (s\<lparr>pm_transfer := ch, pm_mem := m\<rparr>)"
    unfolding pm_ok_def using mem_ok_perm [OF assms(1)] by (simp add: held_def items)
  have abs: "pm_abs s = pm_abs (s\<lparr>pm_mem := m\<rparr>)" "pm_payloads (s\<lparr>pm_mem := m\<rparr>) = pm_payloads s" using abs_mem [OF assms(2)] by simp_all
  show "pm_payloads (s\<lparr>pm_transfer := ch, pm_mem := m\<rparr>) = pm_payloads s" using abs(2) by (simp add: pm_payloads_def)
  show "\<exists>q. select_send stop (abs_tp (m_store m) (x, r)) (hub_transferChan (pm_abs s)) = (q, SelSent) \<and>
      pm_abs (s\<lparr>pm_transfer := ch, pm_mem := m\<rparr>) = (pm_abs s)\<lparr>hub_transferChan := q\<rparr>"
    unfolding abs(1) using map_chan_send(2) [of stop "abs_tp (m_store m)" "(x, r)" "pm_transfer s"] assms(3) by (simp add: pm_abs_def)
qed

lemma answer_queued:
  assumes "mem_ok m (ref_block d # held s)" "\<forall>c \<in> set (held s). m_store m ! c = m_store (pm_mem s) ! c"
    and "try_send (p, d) (pm_packets s) = (ch, True)"
  shows "pm_ok (s\<lparr>pm_packets := ch, pm_mem := m\<rparr>)" "pm_payloads (s\<lparr>pm_packets := ch, pm_mem := m\<rparr>) = pm_payloads s"
    "pm_abs (s\<lparr>pm_packets := ch, pm_mem := m\<rparr>) = (pm_abs s)\<lparr>hub_packetChan := fst (try_send (p\<lparr>pk_data := deref (m_store m) d\<rparr>) (hub_packetChan (pm_abs s)))\<rparr>"
proof -
  have items: "ch_items ch = ch_items (pm_packets s) @ [(p, d)]" using select_send_cases(2) [OF assms(3)] .
  show "pm_ok (s\<lparr>pm_packets := ch, pm_mem := m\<rparr>)"
    unfolding pm_ok_def using mem_ok_perm [OF assms(1)] by (simp add: held_def items)
  have abs: "pm_abs s = pm_abs (s\<lparr>pm_mem := m\<rparr>)" "pm_payloads (s\<lparr>pm_mem := m\<rparr>) = pm_payloads s" using abs_mem [OF assms(2)] by simp_all
  show "pm_payloads (s\<lparr>pm_packets := ch, pm_mem := m\<rparr>) = pm_payloads s" using abs(2) by (simp add: pm_payloads_def)
  show "pm_abs (s\<lparr>pm_packets := ch, pm_mem := m\<rparr>) = (pm_abs s)\<lparr>hub_packetChan := fst (try_send (p\<lparr>pk_data := deref (m_store m) d\<rparr>) (hub_packetChan (pm_abs s)))\<rparr>"
    unfolding abs(1) using map_chan_send(1) [of "abs_packet (m_store m)" "(p, d)" "pm_packets s"] assms(3) by (simp add: pm_abs_def)
qed

lemma answer_refines:
  assumes "mem_ok m (ref_block d # b # held s)" "\<forall>c \<in> set (held s). m_store m ! c = m_store (pm_mem s) ! c"
    and "try_send (p, d) (pm_packets s) = (ch, sent)"
    and "s' = (if sent then s\<lparr>pm_packets := ch, pm_mem := pool_Put b m\<rparr> else s\<lparr>pm_mem := pool_Put b (pool_Put (ref_block d) m)\<rparr>)"
  shows "pm_ok s' \<and> pm_payloads s' = pm_payloads s \<and>
      pm_abs s' = (pm_abs s)\<lparr>hub_packetChan := fst (try_send (p\<lparr>pk_data := deref (m_store m) d\<rparr>) (hub_packetChan (pm_abs s)))\<rparr>"
proof (cases sent)
  case True
  have "mem_ok (pool_Put b m) (ref_block d # held s)"
    using mem_ok_Put [OF mem_ok_perm [OF assms(1)], of b "ref_block d # held s"] by simp
  from answer_queued [OF this] assms(2-4) True show ?thesis by simp
next
  case False
  have "pm_abs s = pm_abs (s\<lparr>pm_mem := m\<rparr>)" using abs_mem [OF assms(2)] by simp
  moreover have "ch = pm_packets s" using select_send_cases(4) [of "(p, d)" "pm_packets s" ch] assms(3) False by simp
  ultimately have "(pm_abs s)\<lparr>hub_packetChan := fst (try_send (p\<lparr>pk_data := deref (m_store m) d\<rparr>) (hub_packetChan (pm_abs s)))\<rparr> = pm_abs s"
    using map_chan_send(1) [of "abs_packet (m_store m)" "(p, d)" "pm_packets s"] assms(3) by (simp add: pm_abs_def)
  moreover have "mem_ok (pool_Put (ref_block d) m) (b # held s)" using mem_ok_Put [OF assms(1)] .
  note put_back [OF this]
  ultimately show ?thesis using assms(2,4) False by simp
qed

text \<open>A turn of the listener that has parsed its datagram, by the type of the packet.\<close>

definition parsed :: "nat option \<Rightarrow> bytes \<Rightarrow> GamePacket \<Rightarrow> slice \<Rightarrow> GamePacket \<Rightarrow> ref \<Rightarrow> mem \<Rightarrow> pooled \<Rightarrow> bool" where
  "parsed i payload gp buf g r m s \<longleftrightarrow> ParsePacket_mem i payload gp (pm_mem s) = (g, Some r, m) \<and>
     ParsePacket buf payload True None gp = (abs_gp (m_store m) r g, None) \<and> mem_ok m (ref_block r # held s) \<and>
     (\<forall>c \<in> set (held s). m_store m ! c = m_store (pm_mem s) ! c) \<and> deref (m_store m) r = payload"

abbreviation same_turn :: "pooled \<Rightarrow> pooled \<Rightarrow> disposed \<Rightarrow> GamePacket \<times> Hub \<times> disposed \<Rightarrow> bool" where
  "same_turn s s' disp L \<equiv> pm_ok s' \<and> pm_payloads s' = pm_payloads s \<and> fst (snd L) = pm_abs s' \<and> snd (snd L) = disp"

lemma listen_ping:
  assumes "parsed i payload gp buf g r m s" "listenUdp_mem dl i j stop a payload gp s = (s', disp)" "clear_flag (PType g) = TypePing"
  shows "same_turn s s' disp (listenUdp z dl buf pb cb eb stop a payload gp (pm_abs s))"
proof -
  define h where "h = (case gm_get (clientMap (hub_router (pm_hub s))) (gp_src g) of None \<Rightarrow> pm_hub s | Some c \<Rightarrow> updateAddrCheck c a (pm_hub s))"
  have "s' = s\<lparr>pm_hub := h, pm_mem := pool_Put (ref_block r) m\<rparr>" "disp = CleanUp"
    using assms by (simp_all add: parsed_def listenUdp_mem_def h_def Let_def)
  moreover have "fst (snd (listenUdp z dl buf pb cb eb stop a payload gp (pm_abs s))) = pm_abs (s\<lparr>pm_hub := h\<rparr>)"
    "snd (snd (listenUdp z dl buf pb cb eb stop a payload gp (pm_abs s))) = CleanUp"
    using assms(1,3) by (simp_all add: parsed_def listenUdp_def Let_def h_def updateAddrCheck_abs split: option.split)
  ultimately show ?thesis
    using put_back [of m "ref_block r" "s\<lparr>pm_hub := h\<rparr>"] assms(1) by (simp add: parsed_def pm_payloads_def)
qed

lemma listen_dns:
  assumes "parsed i payload gp buf g r m s" "listenUdp_mem dl i j stop a payload gp s = (s', disp)" "clear_flag (PType g) = TypeDnsRequest"
  shows "same_turn s s' disp (listenUdp z dl buf pb cb eb stop a payload gp (pm_abs s))"
proof -
  let ?L = "listenUdp z dl buf pb cb eb stop a payload gp (pm_abs s)"
  have ty: "TypeDnsRequest \<noteq> TypePing" by (simp add: type_defs)
  have p: "mem_ok m (ref_block r # held s)" "\<forall>c \<in> set (held s). m_store m ! c = m_store (pm_mem s) ! c"
    using assms(1) by (simp_all add: parsed_def)
  show ?thesis
  proof (cases "buildDnsResponse dl (drop HeaderLength payload) (pm_hub s)")
    case (Inl err)
    then have "s' = s\<lparr>pm_mem := pool_Put (ref_block r) m\<rparr>" "disp = CleanUp" "fst (snd ?L) = pm_abs s" "snd (snd ?L) = CleanUp"
      using assms ty by (simp_all add: parsed_def listenUdp_mem_def listenUdp_def buildDnsResponse_abs)
    then show ?thesis using put_back [OF p] by simp
  next
    case (Inr resp)
    let ?g = "NewGamePacket ip4_zero (gp_src g) TypeDnsResponse resp" and ?p = "\<lparr>pk_data = [], pk_broadcast = False, pk_dstAddr = a\<rparr>"
    obtain d m2 where d: "EncodePacket_mem j False ?g m = (d, m2)" by force
    note e = EncodePacket_mem_some(1,2) [OF p(1) d] EncodePacket_mem_some(3) [OF p(1) d, where z = z and pb = pb and cb = cb and eb = eb]
    have keep: "\<forall>c \<in> set (held s). m_store m2 ! c = m_store (pm_mem s) ! c" using e(2) p(2) by simp
    have L: "fst (snd ?L) = (pm_abs s)\<lparr>hub_packetChan := fst (try_send (?p\<lparr>pk_data := deref (m_store m2) d\<rparr>) (hub_packetChan (pm_abs s)))\<rparr>"
      "snd (snd ?L) = CleanUp"
      using assms(1,3) ty Inr e(3) by (simp_all add: parsed_def listenUdp_def buildDnsResponse_abs Let_def)
    obtain ch sent where t: "try_send (?p, d) (pm_packets s) = (ch, sent)" by force
    then have s': "s' = (if sent then s\<lparr>pm_packets := ch, pm_mem := pool_Put (ref_block r) m2\<rparr>
        else s\<lparr>pm_mem := pool_Put (ref_block r) (pool_Put (ref_block d) m2)\<rparr>)" "disp = CleanUp"
      using assms ty Inr d by (cases sent; simp add: parsed_def listenUdp_mem_def)+
    then show ?thesis using answer_refines [OF e(1) keep t s'(1)] L by (simp del: if_split)
  qed
qed

lemma listen_data:
  assumes "parsed i payload gp buf g r m s" "listenUdp_mem dl i j stop a payload gp s = (s', disp)" "clear_flag (PType g) = TypeData"
  shows "same_turn s s' disp (listenUdp z dl buf pb cb eb stop a payload gp (pm_abs s))"
proof -
  let ?L = "listenUdp z dl buf pb cb eb stop a payload gp (pm_abs s)"
  have ty: "TypeData \<noteq> TypePing" "TypeData \<noteq> TypeDnsRequest" by (simp_all add: type_defs)
  have p: "mem_ok m (ref_block r # held s)" "\<forall>c \<in> set (held s). m_store m ! c = m_store (pm_mem s) ! c"
    using assms(1) by (simp_all add: parsed_def)
  let ?x = "\<lparr>tp_gp = g, tp_srcAddr = a\<rparr>"
  obtain ch res where sel: "select_send stop (?x, r) (pm_transfer s) = (ch, res)" by force
  have res: "snd (select_send stop (abs_tp (m_store m) (?x, r)) (hub_transferChan (pm_abs s))) = res"
    using map_chan_send(2) [of stop "abs_tp (m_store m)" "(?x, r)" "pm_transfer s"] sel abs_mem(1) [OF p(2)] by (metis hub_transferChan_abs snd_conv)
  show ?thesis
  proof (cases "res = SelSent")
    case True
    then have "s' = s\<lparr>pm_transfer := ch, pm_mem := m\<rparr>" "disp = Queued"
      using assms ty sel by (simp_all add: parsed_def listenUdp_mem_def)
    moreover have "select_send stop (?x, r) (pm_transfer s) = (ch, SelSent)" using sel True by simp
    note handed_to_relay [OF p this]
    ultimately show ?thesis using assms(1,3) ty by (auto simp: parsed_def listenUdp_def)
  next
    case False
    then have "s' = s\<lparr>pm_mem := pool_Put (ref_block r) m\<rparr>" "disp = (if res = SelDone then Returned else CleanUp)"
      using assms ty sel by (cases res; simp add: parsed_def listenUdp_mem_def)+
    moreover have "fst (snd ?L) = pm_abs s" "snd (snd ?L) = (if res = SelDone then Returned else CleanUp)"
      using assms(1,3) ty res False by (cases res; force simp: parsed_def listenUdp_def split: prod.split)+
    ultimately show ?thesis using put_back [OF p] by simp
  qed
qed

lemma listen_refines:
  assumes "pm_ok s" "listenUdp_mem dl i j stop a payload gp s = (s', disp)"
  shows "\<exists>buf. same_turn s s' disp (listenUdp z dl buf pb cb eb stop a payload gp (pm_abs s))"
proof -
  have ok: "mem_ok (pm_mem s) (held s)" using assms(1) by (simp add: pm_ok_def)
  obtain g ro m where pm: "ParsePacket_mem i payload gp (pm_mem s) = (g, ro, m)" by (metis prod_cases3)
  show ?thesis
  proof (cases ro)
    case None
    note p = ParsePacket_mem_none [OF ok pm [unfolded None]]
    note n = mem_ok_nil [OF p(1)]
    have s': "s' = s\<lparr>pm_mem := put_nil m\<rparr>" "disp = CleanUp" using assms(2) pm None by (simp_all add: listenUdp_mem_def)
    have "pm_abs s' = pm_abs s" "pm_payloads s' = pm_payloads s" "pm_ok s'"
      using abs_mem [of s "put_nil m"] n p(2) by (simp_all add: s'(1) pm_ok_def)
    moreover obtain g' e where "ParsePacket (make_slice 0) payload True None gp = (g', Some e)" using p(3) by blast
    then have "listenUdp z dl (make_slice 0) pb cb eb stop a payload gp (pm_abs s) = (g'\<lparr>RawData := None\<rparr>, pm_abs s, CleanUp)"
      by (simp add: listenUdp_def)
    ultimately show ?thesis using s'(2) by (intro exI [of _ "make_slice 0"]) simp
  next
    case (Some r)
    then obtain buf where q: "parsed i payload gp buf g r m s"
      using ParsePacket_mem_some [OF ok pm [unfolded Some]] pm by (auto simp: parsed_def)
    consider "clear_flag (PType g) = TypePing" | "clear_flag (PType g) = TypeDnsRequest" | "clear_flag (PType g) = TypeData"
      | "clear_flag (PType g) \<notin> {TypePing, TypeDnsRequest, TypeData}" by blast
    then show ?thesis
    proof cases
      case 1
      from listen_ping [OF q assms(2) 1, of z pb cb eb] show ?thesis by (rule exI)
    next
      case 2
      from listen_dns [OF q assms(2) 2, of z pb cb eb] show ?thesis by (rule exI)
    next
      case 3
      from listen_data [OF q assms(2) 3, of z pb cb eb] show ?thesis by (rule exI)
    next
      case 4
      then have "s' = s\<lparr>pm_mem := pool_Put (ref_block r) m\<rparr>" "disp = CleanUp" using assms(2) q by (simp_all add: parsed_def listenUdp_mem_def Let_def)
      then show ?thesis
        using put_back [of m "ref_block r" s] q 4 by (intro exI [of _ buf]) (simp add: parsed_def listenUdp_def Let_def)
    qed
  qed
qed

text \<open>The relay's decision, which does not depend on memory: the public address to send to, if any.\<close>

definition verdict :: "bool \<Rightarrow> transferPacket \<Rightarrow> Hub \<Rightarrow> Hub \<times> addrport option" where
  "verdict stopTask tp h =
     (let dst = Destination (tp_gp tp); srcIp = gp_src (tp_gp tp); dstIp = IpToKey (the (To4 dst)); snapshot = hub_router h
      in case gm_get (clientMap snapshot) srcIp of
           None \<Rightarrow> (h, None)
         | Some srcClient \<Rightarrow>
             let h = updateAddrCheck srcClient (tp_srcAddr tp) h
             in if the (To4 dst) ! 3 = 255 \<or> IsMulticast dst \<or> \<not> (Contains (hub_Subnet h) dst \<and> \<not> IsLoopback dst) then (h, None)
                else case gm_get (clientMap snapshot) dstIp of
                       None \<Rightarrow> (h, None)
                     | Some c \<Rightarrow>
                         (relay_decision stopTask srcIp dstIp srcClient c (tp_srcAddr tp) h,
                          if IsValid (dataAddr (client h c)) then Some (dataAddr (client h c)) else None))"

lemma transfer_verdict:
  "transfer stop stopTask tp h =
     (case verdict stopTask tp h of
        (h', None) \<Rightarrow> (h', Dropped)
      | (h', Some a) \<Rightarrow>
          (case select_send stop \<lparr>pk_data = raw_bytes (tp_gp tp), pk_broadcast = False, pk_dstAddr = a\<rparr> (hub_packetChan h) of
             (ch, SelSent) \<Rightarrow> (h'\<lparr>hub_packetChan := ch\<rparr>, Relayed)
           | (ch, SelDone) \<Rightarrow> (h', Stopped)
           | (ch, SelDefault) \<Rightarrow> (h', Dropped)))"
  by (simp add: transfer_def verdict_def relay_decision_def newP2PTask_def Let_def case_prod_beta split: option.split selected.split)

lemma transfer_mem_verdict:
  "chan_recv (pm_transfer s) = Some ((tp, r), queue) \<Longrightarrow>
   transfer_mem stop stopTask s =
     (let s = s\<lparr>pm_transfer := queue\<rparr>
      in case verdict stopTask tp (pm_hub s) of
           (h', None) \<Rightarrow> Some (s\<lparr>pm_hub := h', pm_mem := pool_Put (ref_block r) (pm_mem s)\<rparr>, Dropped)
         | (h', Some a) \<Rightarrow>
             (case select_send stop (\<lparr>pk_data = [], pk_broadcast = False, pk_dstAddr = a\<rparr>, r) (pm_packets s) of
                (ch, SelSent) \<Rightarrow> Some (s\<lparr>pm_hub := h', pm_packets := ch\<rparr>, Relayed)
              | (ch, SelDone) \<Rightarrow> Some (s\<lparr>pm_hub := h'\<rparr>, Stopped)
              | (ch, SelDefault) \<Rightarrow> Some (s\<lparr>pm_hub := h', pm_mem := pool_Put (ref_block r) (pm_mem s)\<rparr>, Dropped)))"
  by (simp add: transfer_mem_def verdict_def relay_decision_def newP2PTask_def Let_def case_prod_beta split: option.split selected.split)

lemma relay_decision_abs: "relay_decision st src dst c d a (pm_abs s) = pm_abs (s\<lparr>pm_hub := relay_decision st src dst c d a (pm_hub s)\<rparr>)"
  by (simp add: relay_decision_def newP2PTask_def Let_def case_prod_beta pm_abs_def)

lemma verdict_abs:
  "verdict st (abs_tp S (x, r)) (pm_abs s) = (case verdict st x (pm_hub s) of (h, a) \<Rightarrow> (pm_abs (s\<lparr>pm_hub := h\<rparr>), a))"
  by (simp add: verdict_def Let_def updateAddrCheck_abs relay_decision_abs split: option.split)

text \<open>Taking a packet out of its queue makes its array the turn's own.\<close>

lemma transfer_taken:
  assumes "pm_ok s" "chan_recv (pm_transfer s) = Some ((x, r), queue)" "s1 = s\<lparr>pm_transfer := queue\<rparr>"
  shows "mem_ok (pm_mem s1) (ref_block r # held s1)" "pm_payloads s1 = pm_payloads s"
    "chan_recv (hub_transferChan (pm_abs s)) = Some (abs_tp (m_store (pm_mem s)) (x, r), hub_transferChan (pm_abs s1))"
    "(pm_abs s)\<lparr>hub_transferChan := hub_transferChan (pm_abs s1)\<rparr> = pm_abs s1"
proof -
  have q: "ch_items (pm_transfer s) = (x, r) # ch_items queue" "queue = (pm_transfer s)\<lparr>ch_items := ch_items queue\<rparr>"
    using assms(2) by (auto simp: chan_recv_def split: list.splits)
  show "mem_ok (pm_mem s1) (ref_block r # held s1)" using assms(1) by (simp add: pm_ok_def held_def assms(3) q(1))
  show "pm_payloads s1 = pm_payloads s" by (simp add: pm_payloads_def assms(3))
  have "map_chan f queue = (map_chan f (pm_transfer s))\<lparr>ch_items := map f (ch_items queue)\<rparr>" for f :: "transferPacket \<times> ref \<Rightarrow> transferPacket"
    by (subst q(2)) (simp add: map_chan_def)
  then show "chan_recv (hub_transferChan (pm_abs s)) = Some (abs_tp (m_store (pm_mem s)) (x, r), hub_transferChan (pm_abs s1))"
    by (simp add: pm_abs_def assms(3) chan_recv_def) (simp add: map_chan_def q(1))
  show "(pm_abs s)\<lparr>hub_transferChan := hub_transferChan (pm_abs s1)\<rparr> = pm_abs s1" by (simp add: pm_abs_def assms(3))
qed

lemma handed_to_writer:
  assumes "mem_ok (pm_mem s) (ref_block r # held s)" "select_send stop (p, r) (pm_packets s) = (ch, SelSent)"
  shows "pm_ok (s\<lparr>pm_packets := ch\<rparr>)"
  using mem_ok_perm [OF assms(1)] select_send_cases(1) [OF assms(2)] by (simp add: pm_ok_def held_def)

lemma transfer_refines:
  assumes "pm_ok s" "transfer_mem stop st s = Some (s', res)"
  shows "pm_ok s' \<and> pm_payloads s' = pm_payloads s \<and>
    (\<exists>tp ch. chan_recv (hub_transferChan (pm_abs s)) = Some (tp, ch) \<and> transfer stop st tp ((pm_abs s)\<lparr>hub_transferChan := ch\<rparr>) = (pm_abs s', res))"
proof -
  obtain x r queue where q: "chan_recv (pm_transfer s) = Some ((x, r), queue)"
    using assms(2) by (auto simp: transfer_mem_def split: option.splits)
  define s1 where "s1 = s\<lparr>pm_transfer := queue\<rparr>"
  note t = transfer_taken [OF assms(1) q s1_def]
  let ?S = "m_store (pm_mem s)"
  obtain h v where v: "verdict st x (pm_hub s1) = (h, v)" by force
  let ?s2 = "s1\<lparr>pm_hub := h\<rparr>"
  have va: "verdict st (abs_tp ?S (x, r)) (pm_abs s1) = (pm_abs ?s2, v)" by (simp only: verdict_abs v prod.case)
  have ok2: "mem_ok (pm_mem ?s2) (ref_block r # held ?s2)" using t(1) by simp
  have "pm_ok s' \<and> pm_payloads s' = pm_payloads s1 \<and> transfer stop st (abs_tp ?S (x, r)) (pm_abs s1) = (pm_abs s', res)"
  proof (cases v)
    case None
    then have "s' = ?s2\<lparr>pm_mem := pool_Put (ref_block r) (pm_mem ?s2)\<rparr>" "res = Dropped"
      using assms(2) v by (simp_all add: transfer_mem_verdict [OF q] flip: s1_def)
    then show ?thesis using put_back [OF ok2] va None by (simp add: transfer_verdict pm_payloads_def)
  next
    case (Some a)
    let ?p = "\<lparr>pk_data = [], pk_broadcast = False, pk_dstAddr = a\<rparr>"
    obtain ch sel where sel: "select_send stop (?p, r) (pm_packets s1) = (ch, sel)" by force
    have sel': "select_send stop \<lparr>pk_data = deref ?S r, pk_broadcast = False, pk_dstAddr = a\<rparr> (hub_packetChan (pm_abs s1)) = (map_chan (abs_packet ?S) ch, sel)"
      using map_chan_send(2) [of stop "abs_packet ?S" "(?p, r)" "pm_packets s1"] sel by (simp add: pm_abs_def s1_def)
    show ?thesis
    proof (cases sel)
      case SelSent
      then have "s' = ?s2\<lparr>pm_packets := ch\<rparr>" "res = Relayed"
        using assms(2) v Some sel by (simp_all add: transfer_mem_verdict [OF q] flip: s1_def)
      moreover have "pm_ok (?s2\<lparr>pm_packets := ch\<rparr>)" using handed_to_writer [OF ok2] sel SelSent by simp
      ultimately show ?thesis using va Some sel' SelSent by (simp add: transfer_verdict pm_payloads_def pm_abs_def s1_def)
    next
      case SelDone
      then have "s' = ?s2" "res = Stopped" using assms(2) v Some sel by (simp_all add: transfer_mem_verdict [OF q] flip: s1_def)
      moreover have "pm_ok ?s2" using ok2 by (simp add: pm_ok_def mem_ok_def)
      ultimately show ?thesis using va Some sel' SelDone by (simp add: transfer_verdict pm_payloads_def)
    next
      case SelDefault
      then have "s' = ?s2\<lparr>pm_mem := pool_Put (ref_block r) (pm_mem ?s2)\<rparr>" "res = Dropped"
        using assms(2) v Some sel by (simp_all add: transfer_mem_verdict [OF q] flip: s1_def)
      then show ?thesis using put_back [OF ok2] va Some sel' SelDefault by (simp add: transfer_verdict pm_payloads_def)
    qed
  qed
  then show ?thesis using t(2-4) by simp
qed

lemma batch_msgs_cong:
  assumes "hub_router h = hub_router h'" "hub_heap h = hub_heap h'"
  shows "batch_msgs h ps = batch_msgs h' ps"
proof -
  have "broadcast_msgs h data cs = broadcast_msgs h' data cs" for data cs using assms(2) by (induction cs) simp_all
  then show ?thesis using assms(1) by (induction ps) simp_all
qed

lemma write_refines:
  assumes "pm_ok s" "writeUdpPacket_mem s = Some (s', msgs)"
  shows "pm_ok s' \<and> pm_payloads s' = pm_payloads s \<and> writeUdpPacket (pm_abs s) = Some (pm_abs s', msgs)"
proof -
  let ?q = "ch_items (pm_packets s)" and ?S = "m_store (pm_mem s)"
  let ?s1 = "s\<lparr>pm_packets := (pm_packets s)\<lparr>ch_items := drop 16 ?q\<rparr>\<rparr>"
  let ?bs = "map (ref_block \<circ> snd) (take 16 ?q)"
  have ne: "?q \<noteq> []" using assms(2) by (auto simp: writeUdpPacket_mem_def chan_recv_def)
  then have s': "s' = ?s1\<lparr>pm_mem := fold pool_Put ?bs (pm_mem s)\<rparr>" "msgs = batch_msgs (pm_hub s) (map (abs_packet ?S) (take 16 ?q))"
    using assms(2) by (cases ?q; simp add: writeUdpPacket_mem_def chan_recv_def drain_take)+
  have "held s = map (ref_block \<circ> snd) (ch_items (pm_transfer s)) @ (?bs @ map (ref_block \<circ> snd) (drop 16 ?q)) @ map ref_block (pm_answers s)"
    by (simp add: held_def flip: map_append)
  then have "mem_ok (pm_mem s) (?bs @ held ?s1)" using assms(1) mem_ok_perm by (simp add: pm_ok_def held_def)
  note p = sized.all_put [OF this]
  have "pm_ok s'" using p by (simp add: s'(1) pm_ok_def)
  moreover have "pm_abs s' = pm_abs ?s1" "pm_payloads s' = pm_payloads ?s1" using abs_mem [of ?s1 "fold pool_Put ?bs (pm_mem s)"] p s'(1) by simp_all
  moreover have "pm_abs ?s1 = (pm_abs s)\<lparr>hub_packetChan := (hub_packetChan (pm_abs s))\<lparr>ch_items := drop 16 (ch_items (hub_packetChan (pm_abs s)))\<rparr>\<rparr>"
    "pm_payloads ?s1 = pm_payloads s" by (simp_all add: pm_abs_def map_chan_def drop_map pm_payloads_def)
  moreover have "batch_msgs (pm_abs s) (take 16 (ch_items (hub_packetChan (pm_abs s)))) = msgs"
    by (simp add: s'(2) batch_msgs_cong [of "pm_abs s" "pm_hub s"]) (simp add: pm_abs_def map_chan_def take_map)
  moreover have "ch_items (hub_packetChan (pm_abs s)) \<noteq> []" using ne by (simp add: pm_abs_def map_chan_def)
  ultimately show ?thesis by (simp add: writeUdpPacket_batch)
qed

lemma answer_waits:
  assumes "pm_ok s"
  shows "pm_ok (answer_mem i queued data s) \<and> pm_abs (answer_mem i queued data s) = pm_abs s \<and>
    pm_payloads (answer_mem i queued data s) = pm_payloads s @ (if queued then [data] else [])"
proof -
  have ok: "mem_ok (pm_mem s) (held s)" using assms by (simp add: pm_ok_def)
  obtain b1 m1 where g: "pool_Get i (pm_mem s) = (b1, m1)" by force
  note g1 = mem_ok_Get [OF ok g]
  obtain b m where b: "(if length (m_store m1 ! b1) < length data then mem_make (length data) m1 else (b1, m1)) = (b, m)" by force
  have "mem_ok m1 (held s)" using g1(1) by (simp add: mem_ok_def)
  then have g2: "mem_ok m (b # held s)" "\<forall>c \<in> set (held s). m_store m ! c = m_store (pm_mem s) ! c"
    using b g1 mem_ok_make [of m1 "held s" "length data" b m] by (auto split: if_splits)
  note f = mem_ok_fill [OF g2(1), of data]
  have a: "answer_mem i queued data s = (if queued then s\<lparr>pm_mem := fill b data m, pm_answers := pm_answers s @ [whole b (length data)]\<rparr>
      else s\<lparr>pm_mem := pool_Put b (fill b data m)\<rparr>)"
    by (simp add: answer_mem_def g b)
  have keep: "\<forall>c \<in> set (held s). m_store (fill b data m) ! c = m_store (pm_mem s) ! c" using f(2) g2(2) by simp
  show ?thesis
  proof (cases queued)
    case True
    have "mem_ok (fill b data m) (held s @ [b])" using mem_ok_perm [OF f(1)] by simp
    then show ?thesis
      unfolding a using True abs_mem [OF keep] f(3) by (simp add: pm_ok_def held_def pm_abs_def pm_payloads_def deref_def)
  next
    case False
    then show ?thesis unfolding a using put_back [OF f(1) keep] by simp
  qed
qed

lemma answer_written:
  assumes "pm_ok s" "k < length (pm_answers s)" "writePump_mem i k gp s = (s', w)"
  shows "pm_ok s' \<and> pm_abs s' = pm_abs s \<and> pm_payloads s' = take k (pm_payloads s) @ drop (Suc k) (pm_payloads s) \<and>
    w = (case EncodePacket z pb cb eb True False None (gp\<lparr>Payload := pm_payloads s ! k\<rparr>) of (None, _, _) \<Rightarrow> [] | (Some d, _, _) \<Rightarrow> d)"
proof -
  have ok: "mem_ok (pm_mem s) (held s)" using assms(1) by (simp add: pm_ok_def)
  let ?r = "pm_answers s ! k" and ?s1 = "s\<lparr>pm_answers := take k (pm_answers s) @ drop (Suc k) (pm_answers s)\<rparr>"
  obtain d m where d: "EncodePacket_mem i True (gp\<lparr>Payload := deref (m_store (pm_mem s)) ?r\<rparr>) (pm_mem s) = (d, m)" by force
  note e = EncodePacket_mem_some(1,2) [OF ok d] EncodePacket_mem_some(3) [OF ok d, where z = z and pb = pb and cb = cb and eb = eb]
  have s': "s' = ?s1\<lparr>pm_mem := pool_Put (ref_block ?r) (pool_Put (ref_block d) m)\<rparr>" "w = deref (m_store m) d"
    using assms(3) d by (simp_all add: writePump_mem_def)
  have "map ref_block (pm_answers s) = map ref_block (take k (pm_answers s)) @ ref_block ?r # map ref_block (drop (Suc k) (pm_answers s))"
    using id_take_nth_drop [OF assms(2)] by (metis list.simps(9) map_append)
  then have "mset (held s) = mset (ref_block ?r # held ?s1)" by (simp add: held_def)
  then have "mem_ok (pool_Put (ref_block d) m) (ref_block ?r # held ?s1)" and sub: "set (held ?s1) \<subseteq> set (held s)"
    using mem_ok_perm [OF mem_ok_Put [OF e(1)]] mset_eq_setD [of "held s" "ref_block ?r # held ?s1"] by auto
  note p = put_back [OF this(1)]
  have "pm_ok s'" "pm_abs s' = pm_abs ?s1" "pm_payloads s' = pm_payloads ?s1"
    using p e(2) sub by (auto simp: s'(1))
  then show ?thesis
    using e(3) assms(2) by (simp add: s'(2) pm_abs_def pm_payloads_def take_map drop_map)
qed

section \<open>Every interleaving\<close>

text \<open>
  The turns of the loops, in any order, and the garbage collector, which may empty the pool. The
  pool's choices are part of the event.
\<close>

datatype pool_event =
    EvDatagram "nat option" "nat option" bool addrport bytes GamePacket
  | EvRelay bool bool
  | EvWrite
  | EvAnswer "nat option" bool bytes
  | EvFrame "nat option" nat GamePacket
  | EvCollect nat

type_synonym sent = "(bytes \<times> addrport) list \<times> bytes list"

definition pool_step :: "('m, 'r) dns_lib \<Rightarrow> pool_event \<Rightarrow> pooled \<Rightarrow> pooled \<times> sent" where
  "pool_step dl e s =
     (case e of
        EvDatagram i j stop a w gp \<Rightarrow> (fst (listenUdp_mem dl i j stop a w gp s), [], [])
      | EvRelay stop st \<Rightarrow> (case transfer_mem stop st s of None \<Rightarrow> (s, [], []) | Some (s', _) \<Rightarrow> (s', [], []))
      | EvWrite \<Rightarrow> (case writeUdpPacket_mem s of None \<Rightarrow> (s, [], []) | Some (s', msgs) \<Rightarrow> (s', msgs, []))
      | EvAnswer i queued data \<Rightarrow> (answer_mem i queued data s, [], [])
      | EvFrame i k gp \<Rightarrow>
          if k < length (pm_answers s) then (case writePump_mem i k gp s of (s', w) \<Rightarrow> (s', [], [w])) else (s, [], [])
      | EvCollect k \<Rightarrow>
          (s\<lparr>pm_mem := (pm_mem s)\<lparr>m_free := take k (m_free (pm_mem s)) @ drop (Suc k) (m_free (pm_mem s))\<rparr>\<rparr>, [], []))"

fun pool_run :: "('m, 'r) dns_lib \<Rightarrow> pool_event list \<Rightarrow> pooled \<Rightarrow> pooled \<times> sent" where
  "pool_run dl [] s = (s, [], [])"
| "pool_run dl (e # es) s =
     (case pool_step dl e s of (s, ds, fs) \<Rightarrow> case pool_run dl es s of (s, ds', fs') \<Rightarrow> (s, ds @ ds', fs @ fs'))"

text \<open>The same turns on values; \<open>buf\<close> is the slice a datagram is parsed into.\<close>

definition value_step :: "lz4 \<Rightarrow> slice \<Rightarrow> slice \<Rightarrow> slice \<Rightarrow> ('m, 'r) dns_lib \<Rightarrow> slice \<Rightarrow> pool_event \<Rightarrow> Hub \<times> bytes list \<Rightarrow> (Hub \<times> bytes list) \<times> sent" where
  "value_step z pb cb eb dl buf e =
     (\<lambda>(h, waiting). case e of
        EvDatagram i j stop a w gp \<Rightarrow> ((fst (snd (listenUdp z dl buf pb cb eb stop a w gp h)), waiting), [], [])
      | EvRelay stop st \<Rightarrow>
          (case chan_recv (hub_transferChan h) of
             None \<Rightarrow> ((h, waiting), [], [])
           | Some (tp, ch) \<Rightarrow> ((fst (transfer stop st tp (h\<lparr>hub_transferChan := ch\<rparr>)), waiting), [], []))
      | EvWrite \<Rightarrow> (case writeUdpPacket h of None \<Rightarrow> ((h, waiting), [], []) | Some (h', msgs) \<Rightarrow> ((h', waiting), msgs, []))
      | EvAnswer i queued data \<Rightarrow> ((h, waiting @ (if queued then [data] else [])), [], [])
      | EvFrame i k gp \<Rightarrow>
          if k < length waiting
          then ((h, take k waiting @ drop (Suc k) waiting), [],
                [case EncodePacket z pb cb eb True False None (gp\<lparr>Payload := waiting ! k\<rparr>) of (None, _, _) \<Rightarrow> [] | (Some d, _, _) \<Rightarrow> d])
          else ((h, waiting), [], [])
      | EvCollect k \<Rightarrow> ((h, waiting), [], []))"

fun value_run :: "lz4 \<Rightarrow> slice \<Rightarrow> slice \<Rightarrow> slice \<Rightarrow> ('m, 'r) dns_lib \<Rightarrow> (slice \<times> pool_event) list \<Rightarrow> Hub \<times> bytes list \<Rightarrow> (Hub \<times> bytes list) \<times> sent" where
  "value_run z pb cb eb dl [] x = (x, [], [])"
| "value_run z pb cb eb dl ((buf, e) # es) x =
     (case value_step z pb cb eb dl buf e x of (x, ds, fs) \<Rightarrow>
      case value_run z pb cb eb dl es x of (x, ds', fs') \<Rightarrow> (x, ds @ ds', fs @ fs'))"

lemma transfer_mem_none: "transfer_mem stop st s = None \<Longrightarrow> chan_recv (hub_transferChan (pm_abs s)) = None"
proof (cases "chan_recv (pm_transfer s)")
  case None
  then show ?thesis by (simp add: chan_recv_def pm_abs_def map_chan_def split: list.splits)
next
  case (Some y)
  then obtain x r q where "chan_recv (pm_transfer s) = Some ((x, r), q)" by (cases y) auto
  then show "transfer_mem stop st s = None \<Longrightarrow> ?thesis"
    by (simp add: transfer_mem_verdict Let_def split: prod.splits option.splits selected.splits)
qed

lemma pool_step_refines:
  assumes "pm_ok s" "pool_step dl e s = (s', out)"
  shows "pm_ok s' \<and> (\<exists>buf. value_step z pb cb eb dl buf e (pm_abs s, pm_payloads s) = ((pm_abs s', pm_payloads s'), out))"
proof (cases e)
  case (EvDatagram i j stop a w gp)
  then obtain disp where "listenUdp_mem dl i j stop a w gp s = (s', disp)" "out = ([], [])"
    using assms(2) by (cases "listenUdp_mem dl i j stop a w gp s") (auto simp: pool_step_def)
  with listen_refines [OF assms(1) this(1), of z pb cb eb] show ?thesis by (auto simp: EvDatagram value_step_def)
next
  case (EvRelay stop st)
  show ?thesis
  proof (cases "transfer_mem stop st s")
    case None
    then show ?thesis using assms transfer_mem_none [OF None] by (simp add: EvRelay pool_step_def value_step_def)
  next
    case (Some y)
    then obtain res where "transfer_mem stop st s = Some (s', res)" "out = ([], [])"
      using assms(2) by (cases y) (auto simp: EvRelay pool_step_def)
    with transfer_refines [OF assms(1) this(1)] show ?thesis by (auto simp: EvRelay value_step_def)
  qed
next
  case EvWrite
  show ?thesis
  proof (cases "writeUdpPacket_mem s")
    case None
    then have "ch_items (hub_packetChan (pm_abs s)) = []"
      by (auto simp: writeUdpPacket_mem_def chan_recv_def drain_take pm_abs_def map_chan_def split: list.splits)
    then show ?thesis using assms None by (simp add: EvWrite pool_step_def value_step_def writeUdpPacket_batch)
  next
    case (Some y)
    then obtain msgs where "writeUdpPacket_mem s = Some (s', msgs)" "out = (msgs, [])"
      using assms(2) by (cases y) (auto simp: EvWrite pool_step_def)
    with write_refines [OF assms(1) this(1)] show ?thesis by (auto simp: EvWrite value_step_def)
  qed
next
  case (EvAnswer i queued data)
  then show ?thesis using assms answer_waits [OF assms(1), of i queued data] by (auto simp: pool_step_def value_step_def)
next
  case (EvFrame i k gp)
  show ?thesis
  proof (cases "k < length (pm_answers s)")
    case True
    then obtain w where "writePump_mem i k gp s = (s', w)" "out = ([], [w])"
      using assms(2) by (cases "writePump_mem i k gp s") (auto simp: EvFrame pool_step_def)
    with answer_written [OF assms(1) True this(1), of z pb cb eb] True show ?thesis by (auto simp: EvFrame value_step_def pm_payloads_def)
  next
    case False
    then show ?thesis using assms by (simp add: EvFrame pool_step_def value_step_def pm_payloads_def)
  qed
next
  case (EvCollect k)
  let ?m = "(pm_mem s)\<lparr>m_free := take k (m_free (pm_mem s)) @ drop (Suc k) (m_free (pm_mem s))\<rparr>"
  have "mem_ok ?m (held s)"
    using assms(1) set_take_subset [of k "m_free (pm_mem s)"] set_drop_subset [of "Suc k" "m_free (pm_mem s)"]
      set_take_disj_set_drop_if_distinct [of "m_free (pm_mem s)" k "Suc k"] by (auto simp: pm_ok_def mem_ok_def)
  then show ?thesis using assms(2) abs_mem [of s ?m] by (auto simp: EvCollect pool_step_def value_step_def pm_ok_def)
qed

text \<open>
  C9. The pooled memory of the server is safe. Whatever the order in which the listener, the relay,
  the writers and the control connections take their turns, whichever buffers the pool hands out
  and whenever it is emptied, no buffer has two owners, and everything the server sends (datagrams
  and key answers) is what the definitions on values send: no packet is overwritten while it
  waits.
\<close>

theorem pooled_memory_refines:
  assumes "pm_ok s" and "pool_run dl es s = (s', out)"
  shows "pm_ok s' \<and> (\<exists>bufs. length bufs = length es \<and>
    value_run z pb cb eb dl (zip bufs es) (pm_abs s, pm_payloads s) = ((pm_abs s', pm_payloads s'), out))"
  using assms
proof (induction es arbitrary: s out)
  case Nil
  then show ?case by simp
next
  case (Cons e es)
  obtain s1 ds fs where 1: "pool_step dl e s = (s1, ds, fs)" by (metis prod_cases3)
  obtain ds' fs' where 2: "pool_run dl es s1 = (s', ds', fs')" "out = (ds @ ds', fs @ fs')"
    using Cons.prems(2) 1 by (cases "pool_run dl es s1") auto
  obtain buf where b: "pm_ok s1" "value_step z pb cb eb dl buf e (pm_abs s, pm_payloads s) = ((pm_abs s1, pm_payloads s1), ds, fs)"
    using pool_step_refines [OF Cons.prems(1) 1, of z pb cb eb] by blast
  obtain bufs where "pm_ok s'" "length bufs = length es"
    "value_run z pb cb eb dl (zip bufs es) (pm_abs s1, pm_payloads s1) = ((pm_abs s', pm_payloads s'), ds', fs')"
    using Cons.IH [OF b(1) 2(1)] by blast
  then show ?case using b(2) 2(2) by (intro conjI exI [of _ "buf # bufs"]) simp_all
qed

definition pm_new :: "Hub \<Rightarrow> pooled" where
  "pm_new h = \<lparr>pm_hub = h, pm_mem = \<lparr>m_store = [], m_free = []\<rparr>, pm_transfer = make_chan 128, pm_packets = make_chan 128, pm_answers = []\<rparr>"

lemma pm_new_ok: "pm_ok (pm_new h)"
  by (simp add: pm_ok_def pm_new_def mem_ok_def held_def)

definition demo_turns :: "pool_event list" where
  "demo_turns = [EvDatagram None None False (demo_addr 1) (frame TypePing ip4_zero 0 (IP4 10 0 6 2) (replicate 8 0) []) gp_empty,
      EvDatagram (Some 0) None False (demo_addr 1) (frame TypeData (IP4 10 0 6 3) 3 (IP4 10 0 6 2) (replicate 8 0) [7, 8, 9]) gp_empty,
      EvRelay False False,
      EvDatagram (Some 0) None False (demo_addr 1) (frame TypePing ip4_zero 0 (IP4 10 0 6 2) (replicate 8 0) []) gp_empty,
      EvWrite]"

lemma demo_turns_sent:
  "snd (pool_run echo_dns demo_turns (pm_new (demo_hub TypeUnknown (demo_addr 1) (demo_addr 7)))) =
    ([(frame TypeData (IP4 10 0 6 3) 3 (IP4 10 0 6 2) (replicate 8 0) [7, 8, 9], demo_addr 7)], [])"
  by code_simp

theorem pooled_memory_refines_witness:
  "\<exists>s' bufs. snd (pool_run echo_dns demo_turns (pm_new (demo_hub TypeUnknown (demo_addr 1) (demo_addr 7)))) =
      ([(frame TypeData (IP4 10 0 6 3) 3 (IP4 10 0 6 2) (replicate 8 0) [7, 8, 9], demo_addr 7)], []) \<and> pm_ok s' \<and>
    value_run null_lz4 (make_slice 0) (make_slice 0) (make_slice 0) echo_dns (zip bufs demo_turns)
      (pm_abs (pm_new (demo_hub TypeUnknown (demo_addr 1) (demo_addr 7))), pm_payloads (pm_new (demo_hub TypeUnknown (demo_addr 1) (demo_addr 7)))) =
      ((pm_abs s', pm_payloads s'), [(frame TypeData (IP4 10 0 6 3) 3 (IP4 10 0 6 2) (replicate 8 0) [7, 8, 9], demo_addr 7)], [])"
proof -
  obtain s' out where r: "pool_run echo_dns demo_turns (pm_new (demo_hub TypeUnknown (demo_addr 1) (demo_addr 7))) = (s', out)" by (metis surj_pair)
  from pooled_memory_refines [OF pm_new_ok r, of null_lz4 "make_slice 0" "make_slice 0" "make_slice 0"]
  show ?thesis using demo_turns_sent r by auto
qed

end
