(* ===== verification/ClientPool.thy ===== *)
theory ClientPool
  imports EndToEnd PacketPool
begin

text \<open>
  The memory behind the client's data path: the buffer that the sending loop builds DNS requests in
  (\<^verbatim>\<open>dnsBuffer\<close> in \<^verbatim>\<open>packetSend\<close>), the pool it shares with the receiving loop, and the
  packets that wait for the device (\<^verbatim>\<open>client_udp.go\<close>, \<^verbatim>\<open>tun/device_linux.go\<close>).
\<close>

record client_mem =
  cm_mem :: mem
  cm_dns :: nat
  cm_net :: "ref list"

text \<open>
  One DNS request \<open>p\<close> (the port and the message): it is appended to the buffer from its start, in a
  new array when there is no room, whose size the allocator rounds up. The buffer is the payload of
  the packet, and the payload goes to the pool together with the frame.
\<close>

definition dns_mem :: "(nat \<Rightarrow> nat) \<Rightarrow> nat option \<Rightarrow> ip4 \<Rightarrow> ip4 \<Rightarrow> bytes \<Rightarrow> client_mem \<Rightarrow> client_mem \<times> bytes" where
  "dns_mem round i me dst p s =
     (let (b, m) = (if length p \<le> length (m_store (cm_mem s) ! cm_dns s) then (cm_dns s, cm_mem s)
                    else mem_make (round (length p)) (cm_mem s));
          m = fill b p m;
          gp = NewGamePacket me dst TypeDnsRequest (deref (m_store m) (whole b (length p)));
          (d, m) = EncodePacket_mem i False gp m;
          sent = deref (m_store m) d;
          m = pool_Put (ref_block d) (pool_Put b m)
      in (s\<lparr>cm_mem := m, cm_dns := b\<rparr>, sent))"

text \<open>
  A datagram under a session key: parsed into a buffer of the pool, opened in place, and queued for
  the device; the unpacked form of a compressed packet that does not fit gets an array of its own.
\<close>

definition recv_mem :: "lz4 \<Rightarrow> nat option \<Rightarrow> CipherState \<Rightarrow> bytes \<Rightarrow> client_mem \<Rightarrow> client_mem option" where
  "recv_mem z i cipher content s =
     (case ParsePacket_mem i content gp_empty (cm_mem s) of
        (g, None, m) \<Rightarrow> Some (s\<lparr>cm_mem := m\<rparr>)
      | (g, Some r, m) \<Rightarrow>
          (case DecryptParse z (Some cipher) (abs_gp (m_store m) r g) of
             None \<Rightarrow> None
           | Some (g, Some err) \<Rightarrow> Some (s\<lparr>cm_mem := pool_Put (ref_block r) m\<rparr>)
           | Some (g, None) \<Rightarrow>
               let raw = raw_bytes g;
                   (b, m) = (if length raw \<le> length (m_store m ! ref_block r) then (ref_block r, m)
                             else mem_make (length raw) (pool_Put (ref_block r) m))
               in Some (s\<lparr>cm_mem := fill b raw m, cm_net := cm_net s @ [whole b (length raw)]\<rparr>)))"

text \<open>What the device will be given for the packets that wait.\<close>

definition cm_packets :: "client_mem \<Rightarrow> bytes list" where
  "cm_packets s = map (\<lambda>r. drop HeaderLength (deref (m_store (cm_mem s)) r)) (cm_net s)"

lemma dns_mem_shares:
  assumes "mem_ok (cm_mem s) (cm_dns s # map ref_block (cm_net s))" "dns_mem round i me dst p s = (s', sent)"
  shows "mem_ok (cm_mem s') (map ref_block (cm_net s'))" "cm_dns s' \<in> set (m_free (cm_mem s'))" "cm_net s' = cm_net s"
    "length p \<le> length (m_store (cm_mem s) ! cm_dns s) \<Longrightarrow> length (m_store (cm_mem s') ! cm_dns s') = length (m_store (cm_mem s) ! cm_dns s)"
proof -
  obtain b m where b: "(if length p \<le> length (m_store (cm_mem s) ! cm_dns s) then (cm_dns s, cm_mem s) else mem_make (round (length p)) (cm_mem s)) = (b, m)"
    by force
  have "mem_ok (cm_mem s) (map ref_block (cm_net s))" using assms(1) by (simp add: mem_ok_def)
  then have ok: "mem_ok m (b # map ref_block (cm_net s))"
    using assms(1) b mem_ok_make [of "cm_mem s" "map ref_block (cm_net s)" "round (length p)" b m] by (auto split: if_splits)
  let ?m = "fill b p m" and ?g = "NewGamePacket me dst TypeDnsRequest (deref (m_store (fill b p m)) (whole b (length p)))"
  obtain d m2 where d: "EncodePacket_mem i False ?g ?m = (d, m2)" by force
  note e = EncodePacket_mem_some(1) [OF mem_ok_fill(1) [OF ok] d]
  have s': "s' = s\<lparr>cm_mem := pool_Put (ref_block d) (pool_Put b m2), cm_dns := b\<rparr>"
    using assms(2) b d by (simp add: dns_mem_def Let_def)
  have "mem_ok m2 (b # ref_block d # map ref_block (cm_net s))" using mem_ok_perm [OF e] by simp
  from mem_ok_Put [OF mem_ok_Put [OF this]] show "mem_ok (cm_mem s') (map ref_block (cm_net s'))" by (simp add: s')
  show "cm_dns s' \<in> set (m_free (cm_mem s'))" "cm_net s' = cm_net s" by (simp_all add: s' pool_Put_def)
  assume "length p \<le> length (m_store (cm_mem s) ! cm_dns s)"
  then show "length (m_store (cm_mem s') ! cm_dns s') = length (m_store (cm_mem s) ! cm_dns s)"
    using b mem_ok_fill(4) [OF ok, of p] EncodePacket_mem_some(2) [OF mem_ok_fill(1) [OF ok] d] by (simp add: s')
qed

text \<open>The pool may hand a buffer it has been given to the next that asks.\<close>

lemma Get_reuses:
  assumes "b \<in> set (m_free m)" "n \<le> length (m_store m ! b)"
  shows "\<exists>k m'. pool_GetSized (Some k) n m = (b, m') \<and> m_store m' = m_store m"
proof -
  obtain k where "k < length (m_free m)" "m_free m ! k = b" using assms(1) by (auto simp: in_set_conv_nth)
  then show ?thesis using assms(2) by (intro exI [of _ k]) (simp add: pool_GetSized_def pool_Get_def)
qed

lemma packet_received:
  assumes "mem_ok (cm_mem s) (map ref_block (cm_net s))" "b \<in> set (m_free (cm_mem s))" "37 + length p \<le> length (m_store (cm_mem s) ! b)"
    and "aead_ok (cs_aead snder)" "cs_aead rcver = cs_aead snder" "lz4_ok z" "p \<noteq> []" "length p \<le> 1280"
    and "EncodePacket z pb cb eb False compress (Some snder) (data_packet src me p) = (Some w, g, c)"
  shows "\<exists>k s' raw tail. recv_mem z (Some k) rcver w s = Some s' \<and> cm_net s' = cm_net s @ [whole b (length raw)] \<and>
    drop HeaderLength raw = p @ tail \<and> length raw = HeaderLength + length (p @ tail) \<and> cm_dns s' = cm_dns s \<and> mem_ok (cm_mem s') (map ref_block (cm_net s')) \<and>
    (\<forall>r \<in> set (cm_net s). m_store (cm_mem s') ! ref_block r = m_store (cm_mem s) ! ref_block r) \<and>
    take (length raw) (m_store (cm_mem s') ! b) = raw \<and> length (m_store (cm_mem s') ! b) = length (m_store (cm_mem s) ! b)"
proof -
  have le: "length w \<le> 37 + length p" and open': "\<And>buf. \<exists>g1 g2 tail. ParsePacket buf w True None gp_empty = (g1, None) \<and> DecryptParse z (Some rcver) g1 = Some (g2, None) \<and>
       length (raw_bytes g2) > HeaderLength \<and> drop HeaderLength (raw_bytes g2) = p @ tail \<and> length tail \<le> 16"
    using data_frame [OF assms(4-8), of pb cb eb compress src me] assms(9) by auto
  obtain k m1 where k: "pool_GetSized (Some k) (length w) (cm_mem s) = (b, m1)" "m_store m1 = m_store (cm_mem s)"
    using Get_reuses [OF assms(2), of "length w"] le assms(3) by auto
  obtain g1 ro m where p: "ParsePacket_mem (Some k) w gp_empty (cm_mem s) = (g1, ro, m)" by (metis prod_cases3)
  have "ro \<noteq> None"
  proof
    assume "ro = None"
    with p have "ParsePacket_mem (Some k) w gp_empty (cm_mem s) = (g1, None, m)" by simp
    from ParsePacket_mem_none(3) [OF assms(1) this, of "make_slice 0"] open' [of "make_slice 0"] show False by auto
  qed
  then obtain r where r: "ro = Some r" by blast
  note q = ParsePacket_mem_some [OF assms(1) p [unfolded r]]
  have m: "m = fill b w m1" "r = whole b (length w)"
    using p r k(1) by (auto simp: ParsePacket_mem_def Let_def split: if_splits prod.splits option.splits)
  obtain g2 tail where o: "DecryptParse z (Some rcver) (abs_gp (m_store m) r g1) = Some (g2, None)"
    "length (raw_bytes g2) > HeaderLength" "drop HeaderLength (raw_bytes g2) = p @ tail" "length tail \<le> 16"
    using q(4) open' by (metis fst_conv)
  let ?raw = "raw_bytes g2"
  have len: "length ?raw = HeaderLength + length (p @ tail)" using arg_cong [OF o(3), of length] o(2) by simp
  have ok: "mem_ok m (b # map ref_block (cm_net s))" using q(1) m(2) by simp
  have cap: "length (m_store m ! b) = length (m_store (cm_mem s) ! b)"
    using mem_ok_fill(4) [OF mem_ok_GetSized(1) [OF assms(1) k(1)], of w] le assms(3) k(2) m(1) by simp
  have fits: "length ?raw \<le> length (m_store m ! b)" using len o(4) assms(3) cap by (simp add: HeaderLength_eq)
  then have s': "recv_mem z (Some k) rcver w s = Some (s\<lparr>cm_mem := fill b ?raw m, cm_net := cm_net s @ [whole b (length ?raw)]\<rparr>)"
    using p r o(1) m(2) by (simp add: recv_mem_def Let_def)
  have "mem_ok (fill b ?raw m) (map ref_block (cm_net s) @ [b])" using mem_ok_perm [OF mem_ok_fill(1) [OF ok]] by simp
  then show ?thesis
    using s' o(3) len mem_ok_fill(2-4) [OF ok, of ?raw] q(2) cap fits by (intro exI [of _ k] exI [of _ "s\<lparr>cm_mem := fill b ?raw m, cm_net := cm_net s @ [whole b (length ?raw)]\<rparr>"]
        exI [of _ ?raw] exI [of _ tail]) auto
qed

text \<open>
  C33. The buffer of DNS requests belongs to two goroutines. After a request, the sending loop has
  given its buffer to the pool and goes on using it. A packet from a peer that arrives next may be
  received into the same memory, and waits there for the device. The next DNS request is written
  over it: the device is given the end of the request in place of the first bytes of the packet.
  The memory is then in the pool and in the queue at the same time.
\<close>

theorem dns_buffer_shared:
  assumes "mem_ok (cm_mem s) (cm_dns s # map ref_block (cm_net s))" and "dns_mem round i me dst q1 s = (s1, sent)"
    and "37 + length p \<le> length (m_store (cm_mem s1) ! cm_dns s1)"
    and "aead_ok (cs_aead snder)" and "cs_aead rcver = cs_aead snder" and "lz4_ok z" and "p \<noteq> []" and "length p \<le> 1280"
    and "EncodePacket z pb cb eb False compress (Some snder) (data_packet src me p) = (Some w, g, c)"
    and "HeaderLength \<le> length q2" and "length q2 \<le> HeaderLength + length p"
  shows "\<exists>k s2 tail s3 sent2. recv_mem z (Some k) rcver w s1 = Some s2 \<and> cm_packets s2 = cm_packets s1 @ [p @ tail] \<and>
    dns_mem round j me dst q2 s2 = (s3, sent2) \<and>
    cm_packets s3 = cm_packets s1 @ [drop HeaderLength q2 @ drop (length q2 - HeaderLength) (p @ tail)] \<and>
    cm_dns s3 \<in> set (m_free (cm_mem s3)) \<and> cm_dns s3 \<in> ref_block ` set (cm_net s3)"
proof -
  note s1 = dns_mem_shares [OF assms(1,2)]
  let ?D = "cm_dns s1"
  obtain k s2 raw tail where r: "recv_mem z (Some k) rcver w s1 = Some s2" "cm_net s2 = cm_net s1 @ [whole ?D (length raw)]"
    "drop HeaderLength raw = p @ tail" "length raw = HeaderLength + length (p @ tail)" "cm_dns s2 = ?D" "mem_ok (cm_mem s2) (map ref_block (cm_net s2))"
    "\<forall>r \<in> set (cm_net s1). m_store (cm_mem s2) ! ref_block r = m_store (cm_mem s1) ! ref_block r"
    "take (length raw) (m_store (cm_mem s2) ! ?D) = raw" "length (m_store (cm_mem s2) ! ?D) = length (m_store (cm_mem s1) ! ?D)"
    using packet_received [OF s1(1,2) assms(3-9)] by blast
  have before: "cm_packets s2 = cm_packets s1 @ [p @ tail]"
    using r(2,3,7,8) by (simp add: cm_packets_def deref_def)
  have fits: "length q2 \<le> length (m_store (cm_mem s2) ! ?D)" using assms(3,11) r(9) by (simp add: HeaderLength_eq)
  let ?m = "fill ?D q2 (cm_mem s2)" and ?g = "NewGamePacket me dst TypeDnsRequest (deref (m_store (fill ?D q2 (cm_mem s2))) (whole ?D (length q2)))"
  obtain d m3 where d: "EncodePacket_mem j False ?g ?m = (d, m3)" by force
  let ?s3 = "s2\<lparr>cm_mem := pool_Put (ref_block d) (pool_Put ?D m3), cm_dns := ?D\<rparr>"
  have dns: "dns_mem round j me dst q2 s2 = (?s3, deref (m_store m3) d)" using fits r(5) d by (simp add: dns_mem_def Let_def)
  have own: "mem_ok (cm_mem s2) (?D # map ref_block (cm_net s1))" using mem_ok_perm [OF r(6)] r(2) by simp
  note f = mem_ok_fill [OF own, of q2]
  have "m_store m3 ! c = m_store ?m ! c" if "c \<in> set (?D # map ref_block (cm_net s1))" for c
    using EncodePacket_mem_some(2) [OF f(1) d] that by blast
  then have st: "m_store m3 ! ?D = m_store ?m ! ?D" "\<forall>r \<in> set (cm_net s1). m_store m3 ! ref_block r = m_store (cm_mem s1) ! ref_block r"
    using f(2) r(7) by simp_all
  have "?D < length (m_store (cm_mem s2))" using own by (simp add: mem_ok_def)
  then have "m_store ?m ! ?D = q2 @ drop (length q2) (m_store (cm_mem s2) ! ?D)" by (simp add: fill_def block_write_at)
  then have "take (length raw) (m_store m3 ! ?D) = q2 @ drop (length q2) raw"
    using st(1) r(4,8) assms(11) by (simp add: take_drop)
  then have "drop HeaderLength (take (length raw) (m_store m3 ! ?D)) = drop HeaderLength q2 @ drop (length q2 - HeaderLength) (p @ tail)"
    using assms(10) r(3) by (metis (no_types, lifting) drop_append diff_is_0_eq' drop_0 drop_drop le_add_diff_inverse2)
  then have "cm_packets ?s3 = cm_packets s1 @ [drop HeaderLength q2 @ drop (length q2 - HeaderLength) (p @ tail)]"
    using st(2) r(2) by (simp add: cm_packets_def deref_def)
  moreover have "cm_dns ?s3 \<in> set (m_free (cm_mem ?s3))" "cm_dns ?s3 \<in> ref_block ` set (cm_net ?s3)"
    using r(2) by (simp_all add: pool_Put_def)
  ultimately show ?thesis using r(1) before dns by blast
qed

definition demo_mem :: client_mem where
  "demo_mem = \<lparr>cm_mem = \<lparr>m_store = [replicate 64 0], m_free = []\<rparr>, cm_dns = 0, cm_net = []\<rparr>"

theorem dns_buffer_shared_witness:
  "\<exists>s1 sent w g c k s2 tail s3 sent2. dns_mem id None (IP4 10 0 6 3) (IP4 10 0 6 1) (replicate 30 4) demo_mem = (s1, sent) \<and>
    EncodePacket null_lz4 (make_slice 0) (make_slice 0) (make_slice 0) False False (Some zero_state) (data_packet (IP4 10 0 6 2) (IP4 10 0 6 3) demo_udp) = (Some w, g, c) \<and>
    recv_mem null_lz4 (Some k) zero_state w s1 = Some s2 \<and> cm_packets s2 = [demo_udp @ tail] \<and>
    dns_mem id None (IP4 10 0 6 3) (IP4 10 0 6 1) (replicate 30 5) s2 = (s3, sent2) \<and> cm_packets s3 = [replicate 9 5 @ drop 9 (demo_udp @ tail)]"
proof -
  obtain s1 sent where d: "dns_mem id None (IP4 10 0 6 3) (IP4 10 0 6 1) (replicate 30 4) demo_mem = (s1, sent)" by force
  obtain w g where w: "EncodePacket null_lz4 (make_slice 0) (make_slice 0) (make_slice 0) False False (Some zero_state) (data_packet (IP4 10 0 6 2) (IP4 10 0 6 3) demo_udp) =
      (Some w, g, Some (snd (GetNonce zero_state)))"
    using EncodePacket_data [of demo_udp null_lz4 "make_slice 0" "make_slice 0" "make_slice 0" False zero_state "IP4 10 0 6 2" "IP4 10 0 6 3"]
    by (auto simp: demo_udp_def MaxPayloadSize_eq)
  have own: "mem_ok (cm_mem demo_mem) (cm_dns demo_mem # map ref_block (cm_net demo_mem))" by (simp add: demo_mem_def mem_ok_def)
  have s1: "cm_net s1 = []" "length (m_store (cm_mem s1) ! cm_dns s1) = 64"
    using dns_mem_shares(3,4) [OF own d] by (simp_all add: demo_mem_def)
  have p: "37 + length demo_udp \<le> length (m_store (cm_mem s1) ! cm_dns s1)" "demo_udp \<noteq> []" "length demo_udp \<le> 1280" "HeaderLength \<le> length (replicate 30 (5 :: byte))"
    "length (replicate 30 (5 :: byte)) \<le> HeaderLength + length demo_udp"
    by (simp_all add: s1 demo_udp_def HeaderLength_eq)
  have "cm_packets s1 = []" "aead_ok (cs_aead zero_state)" using s1(1) by (simp_all add: cm_packets_def zero_aead_ok)
  with dns_buffer_shared [OF own d p(1) _ refl null_lz4_ok p(2,3) w p(4,5), of None] d w show ?thesis
    by (simp add: HeaderLength_eq) blast
qed

end
