(* ===== verification/Devices.thy ===== *)
theory Devices
  imports Client
begin

text \<open>
  The life of the TUN devices of a client on Linux: \<^verbatim>\<open>Start\<close> with its two loops and its
  end (\<^verbatim>\<open>device_linux.go\<close>), and the replacement of the device when the server assigns
  another address (\<^verbatim>\<open>client.go\<close>). Every device that was ever started is kept with the
  position of its three goroutines, since all of them share the two queues of the client. The
  steps of the goroutines are interleaved in any order.
\<close>

section \<open>A started device\<close>

text \<open>
  The reading loop is at the top of a turn, inside \<^verbatim>\<open>Read\<close>, or has returned;
  \<^verbatim>\<open>Start\<close> waits for the context, for its loops, or has returned.
\<close>

datatype reading = AtTop | InRead | ReadReturned

datatype starting = AwaitCancel | AwaitLoops | StartReturned

record device =
  dv_tun :: Tun
  dv_file :: tun_file
  dv_recv :: reading
  dv_send :: bool
  dv_start :: starting

definition Start :: "Tun \<Rightarrow> tun_file \<Rightarrow> device" where
  "Start dev fd = \<lparr>dv_tun = dev, dv_file = fd, dv_recv = AtTop, dv_send = True, dv_start = AwaitCancel\<rparr>"

definition device_Close :: "device \<Rightarrow> device" where
  "device_Close d = d\<lparr>dv_file := fst (snd (tun_Close (dv_tun d) (dv_file d)))\<rparr>"

text \<open>
  The goroutine of \<^verbatim>\<open>Start\<close> itself: it closes the device once the context is cancelled
  and returns when both loops have.
\<close>

definition Start_turn :: "bool \<Rightarrow> device \<Rightarrow> device option" where
  "Start_turn cancelled d =
     (case dv_start d of
        AwaitCancel \<Rightarrow> if cancelled then Some ((device_Close d)\<lparr>dv_start := AwaitLoops\<rparr>) else None
      | AwaitLoops \<Rightarrow> if dv_recv d = ReadReturned \<and> \<not> dv_send d then Some (d\<lparr>dv_start := StartReturned\<rparr>) else None
      | StartReturned \<Rightarrow> None)"

text \<open>
  The writing loop: \<open>pick\<close> says that the runtime picks the branch of the context when both are
  ready. What the kernel refuses and what a closed file refuses is logged and lost.
\<close>

definition file_writes :: "(bytes \<Rightarrow> bool) \<Rightarrow> bytes list \<Rightarrow> tun_file \<Rightarrow> tun_file" where
  "file_writes accept ps f = fold (\<lambda>p f. fst (file_Write accept p f)) ps f"

definition tunSend_turn :: "(bytes \<Rightarrow> bool) \<Rightarrow> bool \<Rightarrow> bool \<Rightarrow> device \<Rightarrow> bytes chan \<Rightarrow> (device \<times> bytes chan) option" where
  "tunSend_turn accept cancelled pick d fromNet =
     (if \<not> dv_send d then None
      else if cancelled \<and> pick then Some (d\<lparr>dv_send := False\<rparr>, fromNet)
      else case tunSend HeaderLength fromNet of
             None \<Rightarrow> None
           | Some (ps, ch) \<Rightarrow> Some (d\<lparr>dv_file := file_writes accept ps (dv_file d)\<rparr>, ch))"

text \<open>
  The reading loop. \<open>finish_read\<close> is the part of a turn after \<^verbatim>\<open>Read\<close>. A read of a closed
  file fails at once. A read that is already waiting fails when the file is closed if the file
  supports deadlines (\<open>wakes\<close>); otherwise it goes on waiting for a packet, as
  \<^verbatim>\<open>os.File.Close\<close> documents.
\<close>

definition finish_read :: "bool \<Rightarrow> tun_read \<Rightarrow> device \<Rightarrow> bytes chan \<Rightarrow> device \<times> bytes chan" where
  "finish_read stop ev d toNet =
     (case tunRecv stop (dv_tun d) ev toNet of
        (ch, r) \<Rightarrow> (d\<lparr>dv_recv := (if r = PumpReturn then ReadReturned else AtTop)\<rparr>, ch))"

definition tunRecv_turn :: "bool \<Rightarrow> bool \<Rightarrow> device \<Rightarrow> bytes chan \<Rightarrow> (device \<times> bytes chan) option" where
  "tunRecv_turn wakes cancelled d toNet =
     (case dv_recv d of
        AtTop \<Rightarrow>
          if cancelled then Some (d\<lparr>dv_recv := ReadReturned\<rparr>, toNet)
          else if tf_open (dv_file d) then Some (d\<lparr>dv_recv := InRead\<rparr>, toNet)
          else Some (finish_read False TunClosed d toNet)
      | InRead \<Rightarrow> if wakes \<and> \<not> tf_open (dv_file d) then Some (finish_read False TunClosed d toNet) else None
      | ReadReturned \<Rightarrow> None)"

section \<open>The devices of a client\<close>

type_synonym 'h host = "'h ClientTransport \<times> device list \<times> bool"

definition close_last :: "device list \<Rightarrow> device list" where
  "close_last devs = butlast devs @ [device_Close (last devs)]"

text \<open>
  The replacement: a device that exists is closed, the new one is started; nothing stops the loops
  of the old one.
\<close>

definition sync_devices :: "attempt \<Rightarrow> GamePacket \<Rightarrow> 'h host \<Rightarrow> 'h host option" where
  "sync_devices a hs h =
     (case h of (t, devs, cancelled) \<Rightarrow>
        (case (To4 (Destination hs), sync_device a hs t) of
           (Some newVip, Some t') \<Rightarrow>
             if localIp t = [] \<or> \<not> ip_Equal (localIp t) newVip then
               let devs = (if ct_device t \<noteq> None then close_last devs else devs)
               in map_option (\<lambda>dev. (t', devs @ [Start dev \<lparr>tf_open = True, tf_written = []\<rparr>], cancelled)) (ct_device t')
             else Some (t', devs, cancelled)
         | _ \<Rightarrow> None))"

text \<open>
  The goroutines of the devices: a step of one loop, or of \<^verbatim>\<open>Start\<close>, of the device \<open>i\<close>.
\<close>

inductive dev_step :: "bool \<Rightarrow> (bytes \<Rightarrow> bool) \<Rightarrow> 'h host \<Rightarrow> 'h host \<Rightarrow> bool" for wakes accept where
  sender: "i < length devs \<Longrightarrow> tunSend_turn accept c pick (devs ! i) (FromNet t) = Some (d, ch) \<Longrightarrow>
    dev_step wakes accept (t, devs, c) (t\<lparr>FromNet := ch\<rparr>, devs[i := d], c)"
| reader: "i < length devs \<Longrightarrow> tunRecv_turn wakes c (devs ! i) (FromTun t) = Some (d, ch) \<Longrightarrow>
    dev_step wakes accept (t, devs, c) (set_FromTun ch t, devs[i := d], c)"
| starter: "i < length devs \<Longrightarrow> Start_turn c (devs ! i) = Some d \<Longrightarrow>
    dev_step wakes accept (t, devs, c) (t, devs[i := d], c)"

text \<open>
  What happens to them: the kernel answers a read that waits, with a packet or an error; the rest
  of the client adds to and takes from the two queues; the handshake assigns an address; the
  context is cancelled.
\<close>

inductive dev_event :: "'h host \<Rightarrow> 'h host \<Rightarrow> bool" where
  kernel: "i < length devs \<Longrightarrow> dv_recv (devs ! i) = InRead \<Longrightarrow> ev \<noteq> TunClosed \<Longrightarrow> stop \<longrightarrow> c \<Longrightarrow>
    finish_read stop ev (devs ! i) (FromTun t) = (d, ch) \<Longrightarrow>
    dev_event (t, devs, c) (set_FromTun ch t, devs[i := d], c)"
| received: "dev_event (t, devs, c) (t\<lparr>FromNet := fst (try_send p (FromNet t))\<rparr>, devs, c)"
| taken: "chan_recv (FromTun t) = Some (p, ch) \<Longrightarrow> dev_event (t, devs, c) (set_FromTun ch t, devs, c)"
| assigned: "sync_devices a hs (t, devs, c) = Some h \<Longrightarrow> dev_event (t, devs, c) h"
| cancel: "dev_event (t, devs, c) (t, devs, True)"

inductive host_reachable :: "bool \<Rightarrow> (bytes \<Rightarrow> bool) \<Rightarrow> 'h host \<Rightarrow> bool" for wakes accept where
  created: "host_reachable wakes accept (NewTransport kp, [], False)"
| step: "host_reachable wakes accept h \<Longrightarrow> dev_step wakes accept h h' \<Longrightarrow> host_reachable wakes accept h'"
| event: "host_reachable wakes accept h \<Longrightarrow> dev_event h h' \<Longrightarrow> host_reachable wakes accept h'"

section \<open>Invariant\<close>

text \<open>
  A loop ends only with the context or with its file, \<^verbatim>\<open>Start\<close> leaves its wait only when
  cancelled and then the file is closed; all devices but the current one are closed, and the
  current one is the client's.
\<close>

definition device_inv :: "bool \<Rightarrow> device \<Rightarrow> bool" where
  "device_inv c d \<longleftrightarrow>
     (\<not> dv_send d \<longrightarrow> c) \<and>
     (dv_recv d = ReadReturned \<longrightarrow> c \<or> \<not> tf_open (dv_file d)) \<and>
     (dv_start d \<noteq> AwaitCancel \<longrightarrow> c \<and> \<not> tf_open (dv_file d)) \<and>
     (dv_start d = StartReturned \<longrightarrow> dv_recv d = ReadReturned \<and> \<not> dv_send d)"

definition host_inv :: "'h host \<Rightarrow> bool" where
  "host_inv h \<longleftrightarrow>
     (case h of (t, devs, c) \<Rightarrow>
        list_all (device_inv c) devs \<and> list_all (\<lambda>d. \<not> tf_open (dv_file d)) (butlast devs) \<and>
        ct_device t = (if devs = [] then None else Some (dv_tun (last devs))))"

lemma file_writes_open [simp]: "tf_open (file_writes accept ps f) = tf_open f"
proof (induction ps arbitrary: f)
  case (Cons p ps)
  have "file_writes accept (p # ps) f = file_writes accept ps (fst (file_Write accept p f))"
    by (simp add: file_writes_def)
  with Cons show ?case by (simp add: file_Write_def)
qed (simp add: file_writes_def)

lemma file_writes_closed: "\<not> tf_open f \<Longrightarrow> file_writes accept ps f = f"
  by (induction ps) (simp_all add: file_writes_def file_Write_def)

lemma device_Close_sel [simp]:
  "\<not> tf_open (dv_file (device_Close d))" "dv_recv (device_Close d) = dv_recv d" "dv_send (device_Close d) = dv_send d"
  "dv_start (device_Close d) = dv_start d" "dv_tun (device_Close d) = dv_tun d"
  by (simp_all add: device_Close_def tun_Close_def file_Close_def)

text \<open>What a turn of a goroutine may do to its device.\<close>

definition turn_ok :: "bool \<Rightarrow> device \<Rightarrow> device \<Rightarrow> bool" where
  "turn_ok c d d' \<longleftrightarrow> (device_inv c d \<longrightarrow> device_inv c d') \<and> dv_tun d' = dv_tun d \<and>
     (\<not> tf_open (dv_file d) \<longrightarrow> \<not> tf_open (dv_file d'))"

lemma tunSend_turn_ok: "tunSend_turn accept c pick d ch = Some (d', ch') \<Longrightarrow> turn_ok c d d'"
  by (auto simp: tunSend_turn_def turn_ok_def device_inv_def split: if_split_asm option.split_asm)

lemma tunRecv_return: "tunRecv stop dev ev ch = (ch', PumpReturn) \<Longrightarrow> ev = TunClosed \<or> stop"
  by (auto simp: tunRecv_def select_send_def split: tun_read.splits if_split_asm prod.splits bool.splits)

lemma finish_read_ok:
  "finish_read stop ev d ch = (d', ch') \<Longrightarrow> stop \<longrightarrow> c \<Longrightarrow> ev = TunClosed \<longrightarrow> \<not> tf_open (dv_file d) \<Longrightarrow>
   dv_recv d \<noteq> ReadReturned \<Longrightarrow> turn_ok c d d'"
  by (auto simp: finish_read_def turn_ok_def device_inv_def dest: tunRecv_return split: prod.splits if_split_asm)

lemma tunRecv_turn_ok: "tunRecv_turn wakes c d ch = Some (d', ch') \<Longrightarrow> turn_ok c d d'"
  by (auto simp: tunRecv_turn_def split: reading.splits if_split_asm dest: finish_read_ok [where c = c])
    (auto simp: turn_ok_def device_inv_def)

lemma Start_turn_ok: "Start_turn c d = Some d' \<Longrightarrow> turn_ok c d d'"
  by (auto simp: Start_turn_def turn_ok_def device_inv_def split: starting.splits if_split_asm)

lemma host_inv_turn:
  assumes "host_inv (t, devs, c)" and "i < length devs" and "turn_ok c (devs ! i) d" and "ct_device t' = ct_device t"
  shows "host_inv (t', devs[i := d], c)"
proof -
  have "device_inv c d" "dv_tun d = dv_tun (devs ! i)" using assms(1-3) by (auto simp: host_inv_def turn_ok_def list_all_length)
  moreover have "\<not> tf_open (dv_file d)" if "i < length devs - 1"
    using assms(1,3) that by (auto simp: host_inv_def turn_ok_def list_all_length nth_butlast)
  ultimately show ?thesis using assms(1,2,4)
    by (auto simp: host_inv_def butlast_list_update last_list_update last_conv_nth list_all_length nth_list_update)
qed

lemma sync_devices_cases:
  assumes "sync_devices a hs (t, devs, c) = Some h"
  obtains t' where "h = (t', devs, c)" "ct_device t' = ct_device t"
  | t' dev where "h = (t', (if ct_device t \<noteq> None then close_last devs else devs) @ [Start dev \<lparr>tf_open = True, tf_written = []\<rparr>], c)"
      "ct_device t' = Some dev"
proof (cases "localIp t = [] \<or> \<not> ip_Equal (localIp t) (ip4_bytes (gp_dst hs))")
  case True
  then show ?thesis using assms that(2)
    by (cases "sync_device a hs t") (auto simp: sync_devices_def Let_def)
next
  case False
  then show ?thesis using assms that(1)
    by (cases "sync_device a hs t") (auto simp: sync_devices_def sync_device_def)
qed

lemma host_inv_assigned:
  assumes "host_inv (t, devs, c)" and "sync_devices a hs (t, devs, c) = Some h"
  shows "host_inv h"
  using assms(2)
proof (cases rule: sync_devices_cases)
  case (2 t' dev)
  have "device_inv c (Start dev f)" for f by (simp add: Start_def device_inv_def)
  moreover have "device_inv c (device_Close d)" if "device_inv c d" for d using that by (simp add: device_inv_def)
  ultimately show ?thesis using assms(1) 2
    by (cases devs rule: rev_cases) (auto simp: host_inv_def close_last_def Start_def butlast_append)
qed (use assms(1) in \<open>simp add: host_inv_def\<close>)

lemma ct_device_tun [simp]: "ct_device (set_FromTun ch t) = ct_device t"
  by (simp add: set_FromTun_def)

lemma dev_step_inv: "dev_step wakes accept h h' \<Longrightarrow> host_inv h \<Longrightarrow> host_inv h'"
  by (induction rule: dev_step.induct)
    (auto elim!: host_inv_turn intro: tunSend_turn_ok tunRecv_turn_ok Start_turn_ok)

lemma dev_event_inv: "dev_event h h' \<Longrightarrow> host_inv h \<Longrightarrow> host_inv h'"
proof (induction rule: dev_event.induct)
  case (kernel i devs ev stop c t d ch)
  then show ?case by (intro host_inv_turn finish_read_ok) auto
next
  case (assigned a hs t devs c h)
  then show ?case by (rule host_inv_assigned [rotated])
qed (auto simp: host_inv_def device_inv_def list_all_iff)

lemma host_reachable_inv: "host_reachable wakes accept h \<Longrightarrow> host_inv h"
proof (induction rule: host_reachable.induct)
  case (created kp)
  show ?case by (simp add: host_inv_def NewTransport_def)
qed (auto intro: dev_step_inv dev_event_inv)

section \<open>Shutdown\<close>

text \<open>What is left to do after the context was cancelled.\<close>

definition device_work :: "device \<Rightarrow> nat" where
  "device_work d =
     (case dv_recv d of AtTop \<Rightarrow> 1 | InRead \<Rightarrow> 2 | ReadReturned \<Rightarrow> 0) + (if dv_send d then 1 else 0) +
     (case dv_start d of AwaitCancel \<Rightarrow> 2 | AwaitLoops \<Rightarrow> 1 | StartReturned \<Rightarrow> 0)"

definition work :: "'h ClientTransport \<Rightarrow> device list \<Rightarrow> nat" where
  "work t devs = length (ch_items (FromNet t)) + sum_list (map device_work devs)"

lemma work_turn:
  assumes "i < length devs"
    and "length (ch_items (FromNet t')) + device_work d < length (ch_items (FromNet t)) + device_work (devs ! i)"
  shows "work t' (devs[i := d]) < work t devs"
proof -
  have "device_work (devs ! i) \<le> sum_list (map device_work devs)"
    using elem_le_sum_list [of i "map device_work devs"] assms(1) by simp
  then show ?thesis using assms by (simp add: work_def map_update sum_list_update)
qed

lemma FromNet_tun [simp]: "FromNet (set_FromTun ch t) = FromNet t"
  by (simp add: set_FromTun_def)

lemma tunSend_turn_work:
  "tunSend_turn accept True pick d ch = Some (d', ch') \<Longrightarrow>
   length (ch_items ch') + device_work d' < length (ch_items ch) + device_work d"
  by (auto simp: tunSend_turn_def device_work_def tunSend_def chan_recv_def split: if_split_asm option.split_asm list.split_asm)

lemma tunRecv_turn_work: "tunRecv_turn wakes True d ch = Some (d', ch') \<Longrightarrow> device_work d' < device_work d"
  by (auto simp: tunRecv_turn_def finish_read_def tunRecv_def device_work_def split: reading.splits if_split_asm)

lemma Start_turn_work: "Start_turn True d = Some d' \<Longrightarrow> device_work d' < device_work d"
  by (auto simp: Start_turn_def device_work_def split: starting.splits if_split_asm)

lemma dev_step_work:
  "dev_step wakes accept h h' \<Longrightarrow> h = (t, devs, True) \<Longrightarrow> \<exists>t' devs'. h' = (t', devs', True) \<and> work t' devs' < work t devs"
  by (induction rule: dev_step.induct)
    (auto intro!: work_turn dest: tunSend_turn_work tunRecv_turn_work Start_turn_work)

lemma dev_steps_work:
  "(dev_step wakes accept ^^ n) (t, devs, True) (t', devs', c) \<Longrightarrow> c \<and> n + work t' devs' \<le> work t devs"
proof (induction n arbitrary: t devs)
  case (Suc n)
  obtain h where h: "dev_step wakes accept (t, devs, True) h" "(dev_step wakes accept ^^ n) h (t', devs', c)"
    using relpowp_Suc_D2 [OF Suc.prems] by blast
  obtain t1 devs1 where "h = (t1, devs1, True)" "work t1 devs1 < work t devs"
    using dev_step_work [OF h(1) refl] by blast
  then show ?case using Suc.IH [of t1 devs1] h(2) by simp
qed simp

lemma dev_steps_inv: "(dev_step wakes accept ^^ n) h h' \<Longrightarrow> host_inv h \<Longrightarrow> host_inv h'"
  by (induction n arbitrary: h') (auto intro: dev_step_inv)

lemma dev_stuck:
  assumes "host_inv (t, devs, True)" and "\<nexists>h. dev_step wakes accept (t, devs, True) h" and "d \<in> set devs"
  shows "\<not> tf_open (dv_file d) \<and> \<not> dv_send d \<and> dv_recv d \<noteq> AtTop \<and>
    (wakes \<longrightarrow> dv_recv d = ReadReturned \<and> dv_start d = StartReturned)"
proof -
  obtain i where i: "i < length devs" "d = devs ! i" using assms(3) by (auto simp: in_set_conv_nth)
  have inv: "device_inv True d" using assms(1,3) by (auto simp: host_inv_def list_all_iff)
  have "tunSend_turn accept True True d (FromNet t) = None"
    using assms(2) sender [OF i(1), where wakes = wakes and accept = accept and c = True and pick = True and t = t, folded i(2)]
    by (cases "tunSend_turn accept True True d (FromNet t)") auto
  moreover have "tunRecv_turn wakes True d (FromTun t) = None"
    using assms(2) reader [OF i(1), where wakes = wakes and accept = accept and c = True and t = t, folded i(2)]
    by (cases "tunRecv_turn wakes True d (FromTun t)") auto
  moreover have "Start_turn True d = None"
    using assms(2) starter [OF i(1), where wakes = wakes and accept = accept and c = True and t = t, folded i(2)]
    by (cases "Start_turn True d") auto
  ultimately show ?thesis using inv
    by (auto simp: tunSend_turn_def tunRecv_turn_def Start_turn_def device_inv_def split: if_split_asm reading.splits starting.splits)
qed

text \<open>
  C18. Shutdown of the devices: after the context is cancelled, the goroutines of all devices ever
  started, interleaved in any order, make a bounded number of steps, at most one per waiting
  packet and five per device; when none can make another step, every device file is closed,
  every writing loop has returned, and if closing a file wakes its readers every reading loop
  and every \<^verbatim>\<open>Start\<close> has returned. If it does not, a reading loop that is left waits in
  \<^verbatim>\<open>Read\<close> for another packet.
\<close>

theorem devices_stop:
  assumes "host_reachable wakes accept (t, devs, True)"
    and "(dev_step wakes accept ^^ n) (t, devs, True) (t', devs', c)"
  shows "c \<and> n \<le> length (ch_items (FromNet t)) + 5 * length devs \<and>
    ((\<nexists>h. dev_step wakes accept (t', devs', c) h) \<longrightarrow>
      (\<forall>d\<in>set devs'. \<not> tf_open (dv_file d) \<and> \<not> dv_send d \<and>
        (if wakes then dv_recv d = ReadReturned \<and> dv_start d = StartReturned
         else dv_recv d = ReadReturned \<or> dv_recv d = InRead)))"
proof -
  have "device_work d \<le> 5" for d
    by (auto simp: device_work_def split: reading.split starting.split)
  then have "sum_list (map device_work devs) \<le> 5 * length devs"
    by (induction devs) (simp_all add: add_mono)
  then have "n \<le> length (ch_items (FromNet t)) + 5 * length devs" and c: "c"
    using dev_steps_work [OF assms(2)] by (auto simp: work_def)
  moreover have "host_inv (t', devs', True)"
    using dev_steps_inv [OF assms(2)] host_reachable_inv [OF assms(1)] c by simp
  ultimately show ?thesis using dev_stuck [of t' devs' wakes accept] by (auto intro: reading.exhaust)
qed

section \<open>A replaced device\<close>

lemma sender_takes:
  assumes "i < length devs" and "dv_send (devs ! i)" and "ch_items (FromNet t) = p # q" and "HeaderLength < length p"
  shows "dev_step wakes accept (t, devs, False) (t\<lparr>FromNet := (FromNet t)\<lparr>ch_items := q\<rparr>\<rparr>,
    devs[i := (devs ! i)\<lparr>dv_file := fst (file_Write accept (drop HeaderLength p) (dv_file (devs ! i)))\<rparr>], False)"
  using assms by (intro sender [where pick = False]) (simp_all add: tunSend_turn_def tunSend_def chan_recv_def file_writes_def)

text \<open>
  C34. A replaced device takes packets of its successor: when the server has assigned another
  address, the old device is closed and the new one started, but the writing loop of the old
  one goes on with the queue both share. The next packet for the device may be taken by the old
  loop, and then it is written to no device at all, or by the new one, which writes it.
\<close>

theorem replaced_device_takes_packets:
  assumes "host_reachable wakes accept (t, devs, False)" and "devs \<noteq> []"
    and "sync_devices a hs (t, devs, False) = Some (t', devs', c)" and "devs' \<noteq> devs"
    and "ch_items (FromNet t') = p # q" and "HeaderLength < length p" and "accept (drop HeaderLength p)"
  shows "length devs' = length devs + 1 \<and>
    (\<exists>u. dev_step wakes accept (t', devs', c) (u, devs', c) \<and> ch_items (FromNet u) = q) \<and>
    (\<exists>u d. dev_step wakes accept (t', devs', c) (u, butlast devs' @ [d], c) \<and> ch_items (FromNet u) = q \<and>
      tf_written (dv_file d) = [drop HeaderLength p])"
  using assms(3)
proof (cases rule: sync_devices_cases)
  case (2 t2 dev)
  have inv: "host_inv (t, devs, False)" by (rule host_reachable_inv [OF assms(1)])
  obtain ds d where d: "devs = ds @ [d]" using assms(2) by (cases devs rule: rev_cases) auto
  let ?new = "Start dev \<lparr>tf_open = True, tf_written = []\<rparr>"
  have devs': "devs' = ds @ [device_Close d, ?new]" "c = False"
    using 2 inv by (auto simp: host_inv_def d close_last_def)
  have "dv_send d" using inv by (auto simp: host_inv_def device_inv_def d)
  then have "dev_step wakes accept (t', devs', False) (t'\<lparr>FromNet := (FromNet t')\<lparr>ch_items := q\<rparr>\<rparr>, devs', False)"
    using sender_takes [of "length ds" devs' t' p q wakes accept] assms(5,6)
    by (simp add: devs' file_Write_def nth_append)
  moreover have "dev_step wakes accept (t', devs', False) (t'\<lparr>FromNet := (FromNet t')\<lparr>ch_items := q\<rparr>\<rparr>,
      butlast devs' @ [?new\<lparr>dv_file := \<lparr>tf_open = True, tf_written = [drop HeaderLength p]\<rparr>\<rparr>], False)"
    using sender_takes [of "length ds + 1" devs' t' p q wakes accept] assms(5-7)
    by (simp add: devs' file_Write_def nth_append Start_def butlast_append list_update_append)
  ultimately show ?thesis by (force simp: devs' d)
qed (use assms(4) in simp)

section \<open>Concrete runs\<close>

definition demo_try :: attempt where
  "demo_try = \<lparr>at_nat = Inr 0, at_dial = True, at_server = None, at_check = None, at_listen = True, at_write = True,
     at_reply = Inr [], at_open = True, at_ioctl = True, at_runs = \<lambda>_. True\<rparr>"

definition demo_assignment :: "byte \<Rightarrow> GamePacket" where
  "demo_assignment n = NewGamePacket ip4_zero (IP4 10 0 0 n) TypeHandshake (str ''pc'')"

definition demo_device :: "byte \<Rightarrow> device" where
  "demo_device n = Start (tun_state (str ''pc'') (str ''.et'') [10, 0, 0, n]) \<lparr>tf_open = True, tf_written = []\<rparr>"

definition demo_at :: "byte \<Rightarrow> nat ClientTransport \<Rightarrow> nat ClientTransport" where
  "demo_at n t = the (sync_device demo_try (demo_assignment n) t)"

lemma demo_sync:
  "localIp t = [] \<or> localIp t = [10, 0, 0, m] \<and> m \<noteq> n \<Longrightarrow>
   sync_device demo_try (demo_assignment n) t = Some (demo_at n t) \<and> FromNet (demo_at n t) = FromNet t \<and>
   localIp (demo_at n t) = [10, 0, 0, n] \<and> ct_device (demo_at n t) = Some (tun_state (str ''pc'') (str ''.et'') [10, 0, 0, n])"
  by (auto simp: demo_at_def sync_device_def demo_assignment_def demo_try_def NewGamePacket_def Reset_def Destination_def NewTun_def
      list_all_iff Let_def ip_Equal_def)

lemma demo_first:
  "sync_devices demo_try (demo_assignment n) (NewTransport kp, [], c) = Some (demo_at n (NewTransport kp), [demo_device n], c)"
  using demo_sync [of "NewTransport kp" n n]
  by (simp add: sync_devices_def demo_device_def NewTransport_def)

abbreviation demo_t :: "byte \<Rightarrow> nat ClientTransport" where
  "demo_t n \<equiv> demo_at n (NewTransport ([1], [1]))"

lemma demo_host: "host_reachable wakes accept (demo_t n, [demo_device n], False)"
  using event [OF created assigned [OF demo_first]] .

lemma demo_t_sel: "FromNet (demo_t n) = make_chan 64" "localIp (demo_t n) = [10, 0, 0, n]" "ct_device (demo_t n) \<noteq> None"
  using demo_sync [of "NewTransport ([1], [1])" n n] by (simp_all add: NewTransport_def)

definition demo_stopped :: "byte \<Rightarrow> device" where
  "demo_stopped n = (device_Close (demo_device n))\<lparr>dv_recv := ReadReturned, dv_send := False, dv_start := StartReturned\<rparr>"

lemma set_FromTun_same [simp]: "set_FromTun (FromTun t) t = t"
  by (simp add: set_FromTun_def FromTun_def)

lemma demo_shutdown: "(dev_step True accept ^^ 4) (t, [demo_device n], True) (t, [demo_stopped n], True)"
proof -
  let ?d = "demo_device n"
  let ?d1 = "?d\<lparr>dv_send := False\<rparr>"
  let ?d2 = "?d1\<lparr>dv_recv := ReadReturned\<rparr>"
  let ?d3 = "(device_Close ?d2)\<lparr>dv_start := AwaitLoops\<rparr>"
  have "dev_step True accept (t, [?d], True) (t, [?d1], True)"
    using sender [of 0 "[?d]" accept True True t ?d1 "FromNet t" True] by (simp add: tunSend_turn_def demo_device_def Start_def)
  moreover have "dev_step True accept (t, [?d1], True) (t, [?d2], True)"
    using reader [of 0 "[?d1]" True True t ?d2 "FromTun t" accept] by (simp add: tunRecv_turn_def demo_device_def Start_def)
  moreover have "dev_step True accept (t, [?d2], True) (t, [?d3], True)"
    using starter [of 0 "[?d2]" True ?d3 True accept t] by (simp add: Start_turn_def demo_device_def Start_def)
  moreover have "dev_step True accept (t, [?d3], True) (t, [demo_stopped n], True)"
    using starter [of 0 "[?d3]" True "demo_stopped n" True accept t]
    by (simp add: Start_turn_def demo_device_def Start_def demo_stopped_def device_Close_def)
  ultimately show ?thesis by (auto simp: numeral_eq_Suc intro!: relcomppI)
qed

lemma demo_stopped_stuck: "\<nexists>h. dev_step True accept (t, [demo_stopped n], True) h"
  by (auto elim!: dev_step.cases simp: demo_stopped_def tunSend_turn_def tunRecv_turn_def Start_turn_def)

theorem devices_stop_witness:
  "(4::nat) \<le> length (ch_items (FromNet (demo_t 5))) + 5 \<and> \<not> tf_open (dv_file (demo_stopped 5)) \<and>
   \<not> dv_send (demo_stopped 5) \<and> dv_recv (demo_stopped 5) = ReadReturned \<and> dv_start (demo_stopped 5) = StartReturned"
proof -
  have "host_reachable True (\<lambda>_. True) (demo_t 5, [demo_device 5], True)" using event [OF demo_host cancel] .
  from devices_stop [OF this demo_shutdown] show ?thesis using demo_stopped_stuck by force
qed

theorem replaced_device_takes_packets_witness:
  "\<exists>t' devs'. sync_devices demo_try (demo_assignment 9)
      ((demo_t 5)\<lparr>FromNet := (make_chan 64)\<lparr>ch_items := [replicate 50 7]\<rparr>\<rparr>, [demo_device 5], False) = Some (t', devs', False) \<and>
    (\<exists>u. dev_step True (\<lambda>_. True) (t', devs', False) (u, devs', False) \<and> ch_items (FromNet u) = []) \<and>
    (\<exists>u d. dev_step True (\<lambda>_. True) (t', devs', False) (u, butlast devs' @ [d], False) \<and> ch_items (FromNet u) = [] \<and>
      tf_written (dv_file d) = [drop HeaderLength (replicate 50 7)])"
proof -
  let ?q = "(make_chan 64)\<lparr>ch_items := [replicate 50 7]\<rparr> :: bytes chan"
  let ?t = "(demo_t 5)\<lparr>FromNet := ?q\<rparr>"
  have "fst (try_send (replicate 50 7) (make_chan 64)) = ?q" by (simp add: try_send_def chan_send_def)
  then have reach: "host_reachable True (\<lambda>_. True) (?t, [demo_device 5], False)"
    using event [OF demo_host received [where p = "replicate 50 7"], of True "\<lambda>_. True" 5] by (simp add: demo_t_sel)
  let ?t' = "demo_at 9 ?t"
  have t': "sync_device demo_try (demo_assignment 9) ?t = Some ?t'" "FromNet ?t' = ?q" "ct_device ?t' \<noteq> None"
    using demo_sync [of ?t 5 9] by (simp_all add: demo_t_sel)
  then obtain devs' where s: "sync_devices demo_try (demo_assignment 9) (?t, [demo_device 5], False) = Some (?t', devs', False)"
    "devs' \<noteq> [demo_device 5]"
    by (auto simp: sync_devices_def demo_t_sel demo_assignment_def NewGamePacket_def Reset_def ip_Equal_def Destination_def close_last_def)
  from replaced_device_takes_packets [OF reach _ s, of "replicate 50 7" "[]"] show ?thesis using s(1) t'(2) by (auto simp: HeaderLength_def NonceLength_def)
qed

end
