(* ===== verification/Teardown.thy ===== *)
theory Teardown
  imports Client
begin

text \<open>
  The goroutines of one session of the client (\<^verbatim>\<open>client.go\<close>): which loops
  \<^verbatim>\<open>ListenAndServe\<close> starts, where each of them can wait, and how the session ends, so that
  the reconnect loop goes on. A turn of a loop is described by where it waits next; what it does to
  the rest of the client is the subject of the other theories. Only the queue \<open>FromTun\<close>
  is kept, since two loops wait for room in it without watching the context: the test loop
  (\<^verbatim>\<open>client_ui.go\<close>) and the receiver that completes a Noise handshake and hands over the
  packets that waited for it (\<^verbatim>\<open>SendAllPendingData\<close> in \<^verbatim>\<open>noise.go\<close>).
\<close>

section \<open>The loops of a session\<close>

datatype loop = LControlRecv | LControlSend | LHeartbeat | LPacketRecv | LPacketSend | LP2P | LTest | LCloser

definition session_loops :: "Settings \<Rightarrow> bool \<Rightarrow> loop list" where
  "session_loops cfg testFlag =
     [LControlRecv, LControlSend, LHeartbeat] @
     replicate (nat (RecvWorkers cfg)) LPacketRecv @
     replicate (nat (SendWorkers cfg)) LPacketSend @
     (if EnableP2P cfg then [LP2P] else []) @
     (if testFlag then [LTest] else []) @
     [LCloser]"

text \<open>
  A loop is at its \<^verbatim>\<open>select\<close>, in a read from its connection, waiting for room in
  \<open>FromTun\<close> with the packets it has to put there, or has returned.
\<close>

datatype place = AtSelect | Reading | Handing "bytes list" | Ended

record 'h session =
  ss_t :: "'h ClientTransport"
  ss_cancelled :: bool
  ss_control :: bool
  ss_data :: bool
  ss_loops :: "(loop \<times> place) list"

definition start_session :: "Settings \<Rightarrow> bool \<Rightarrow> 'h ClientTransport \<Rightarrow> 'h session" where
  "start_session cfg testFlag t =
     \<lparr>ss_t = t, ss_cancelled = False, ss_control = True, ss_data = True,
      ss_loops = map (\<lambda>l. (l, AtSelect)) (session_loops cfg testFlag)\<rparr>"

text \<open>\<^verbatim>\<open>sessionGroup.Wait\<close> returns when all loops have.\<close>

definition over :: "'h session \<Rightarrow> bool" where
  "over s \<longleftrightarrow> list_all (\<lambda>lp. snd lp = Ended) (ss_loops s)"

section \<open>Turns\<close>

text \<open>
  A loop at its \<^verbatim>\<open>select\<close> returns once the context is cancelled; the closing goroutine
  closes both connections then, and \<^verbatim>\<open>controlRecv\<close> closes its connection whenever it
  returns.
\<close>

definition select_turn :: "loop \<Rightarrow> 'h session \<Rightarrow> (place \<times> 'h session) option" where
  "select_turn l s =
     (if ss_cancelled s then
        Some (Ended, case l of
                       LCloser \<Rightarrow> s\<lparr>ss_data := False, ss_control := False\<rparr>
                     | LControlRecv \<Rightarrow> s\<lparr>ss_control := False\<rparr>
                     | _ \<Rightarrow> s)
      else case l of
             LControlRecv \<Rightarrow> Some (Reading, s)
           | LPacketRecv \<Rightarrow> Some (Reading, s)
           | _ \<Rightarrow> None)"

text \<open>A read of a connection that is closed fails; the error cancels the context of the group.\<close>

definition read_turn :: "loop \<Rightarrow> 'h session \<Rightarrow> (place \<times> 'h session) option" where
  "read_turn l s =
     (case l of
        LControlRecv \<Rightarrow> if ss_control s then None else Some (Ended, s\<lparr>ss_cancelled := True\<rparr>)
      | LPacketRecv \<Rightarrow> if ss_data s then None else Some (Ended, s\<lparr>ss_cancelled := True\<rparr>)
      | _ \<Rightarrow> None)"

fun hand_turn :: "bytes list \<Rightarrow> 'h session \<Rightarrow> (place \<times> 'h session) option" where
  "hand_turn [] s = Some (AtSelect, s)"
| "hand_turn (x # xs) s =
     (case chan_send x (FromTun (ss_t s)) of
        Sent ch \<Rightarrow> Some (Handing xs, s\<lparr>ss_t := set_FromTun ch (ss_t s)\<rparr>)
      | _ \<Rightarrow> None)"

definition loop_turn :: "loop \<times> place \<Rightarrow> 'h session \<Rightarrow> (place \<times> 'h session) option" where
  "loop_turn lp s =
     (case lp of (l, p) \<Rightarrow>
        (case p of
           AtSelect \<Rightarrow> select_turn l s
         | Reading \<Rightarrow> read_turn l s
         | Handing ps \<Rightarrow> hand_turn ps s
         | Ended \<Rightarrow> None))"

text \<open>The send of the test loop is one hand-over.\<close>

lemma hand_turn_test:
  "testBroadCast bch (ss_t s) = Some (t', PumpContinue) \<Longrightarrow> hand_turn [bch] s = Some (Handing [], s\<lparr>ss_t := t'\<rparr>)"
  by (auto simp: testBroadCast_def split: send_outcome.split)

definition set_loop :: "nat \<Rightarrow> place \<Rightarrow> 'h session \<Rightarrow> 'h session" where
  "set_loop i p s = s\<lparr>ss_loops := (ss_loops s)[i := (fst (ss_loops s ! i), p)]\<rparr>"

text \<open>What the goroutines do by themselves.\<close>

inductive sess_step :: "'h session \<Rightarrow> 'h session \<Rightarrow> bool" where
  turn: "i < length (ss_loops s) \<Longrightarrow> loop_turn (ss_loops s ! i) s = Some (p, s') \<Longrightarrow> sess_step s (set_loop i p s')"

text \<open>
  What comes from outside or depends on the choice of the runtime: the ticks of the test loop; a
  message, a datagram or a deadline for a loop that reads, where a datagram may leave packets to
  hand over; a write or a read that fails; a sender that takes a packet; the device that adds one; the end of
  the process.
\<close>

inductive sess_event :: "'h session \<Rightarrow> 'h session \<Rightarrow> bool" where
  tick: "i < length (ss_loops s) \<Longrightarrow> ss_loops s ! i = (LTest, AtSelect) \<Longrightarrow> sess_event s (set_loop i (Handing [bch]) s)"
| message: "i < length (ss_loops s) \<Longrightarrow> ss_loops s ! i = (LControlRecv, Reading) \<Longrightarrow> ss_control s \<Longrightarrow>
    sess_event s (set_loop i AtSelect s)"
| datagram: "i < length (ss_loops s) \<Longrightarrow> ss_loops s ! i = (LPacketRecv, Reading) \<Longrightarrow> ss_data s \<Longrightarrow> length ps \<le> 24 \<Longrightarrow>
    sess_event s (set_loop i (Handing ps) s)"
| fails: "i < length (ss_loops s) \<Longrightarrow> ss_loops s ! i = (l, AtSelect) \<Longrightarrow> l \<in> {LControlSend, LHeartbeat} \<Longrightarrow>
    sess_event s (set_loop i Ended (s\<lparr>ss_cancelled := True\<rparr>))"
| broken: "i < length (ss_loops s) \<Longrightarrow> ss_loops s ! i = (l, Reading) \<Longrightarrow>
    sess_event s (set_loop i Ended (s\<lparr>ss_cancelled := True, ss_control := (ss_control s \<and> l \<noteq> LControlRecv)\<rparr>))"
| taken: "(LPacketSend, AtSelect) \<in> set (ss_loops s) \<Longrightarrow> chan_recv (FromTun (ss_t s)) = Some (x, ch) \<Longrightarrow>
    sess_event s (s\<lparr>ss_t := set_FromTun ch (ss_t s)\<rparr>)"
| device: "sess_event s (s\<lparr>ss_t := set_FromTun (fst (try_send x (FromTun (ss_t s)))) (ss_t s)\<rparr>)"
| process: "sess_event s (s\<lparr>ss_cancelled := True\<rparr>)"

definition sess_any :: "'h session \<Rightarrow> 'h session \<Rightarrow> bool" where
  "sess_any s s' \<longleftrightarrow> sess_step s s' \<or> sess_event s s'"

text \<open>Every state of a session that was started.\<close>

definition session_reachable :: "Settings \<Rightarrow> bool \<Rightarrow> 'h session \<Rightarrow> bool" where
  "session_reachable cfg testFlag s \<longleftrightarrow> (\<exists>t. sess_any\<^sup>*\<^sup>* (start_session cfg testFlag t) s)"

section \<open>Invariant\<close>

text \<open>
  Only the two receiving loops read, only the receiver and the test loop hand packets over, and
  once the closing goroutine has returned both connections are closed.
\<close>

definition place_ok :: "bool \<Rightarrow> loop \<times> place \<Rightarrow> bool" where
  "place_ok closed lp \<longleftrightarrow>
     (case lp of (l, p) \<Rightarrow>
        (p = Reading \<longrightarrow> l = LControlRecv \<or> l = LPacketRecv) \<and>
        (\<forall>ps. p = Handing ps \<longrightarrow> l = LTest \<or> l = LPacketRecv) \<and>
        (l = LCloser \<and> p = Ended \<longrightarrow> closed))"

definition loops_inv :: "'h session \<Rightarrow> bool" where
  "loops_inv s \<longleftrightarrow>
     (\<forall>i < length (ss_loops s). place_ok (\<not> ss_control s \<and> \<not> ss_data s) (ss_loops s ! i)) \<and>
     (\<exists>i < length (ss_loops s). fst (ss_loops s ! i) = LCloser)"

lemma set_loop_sel [simp]:
  "ss_t (set_loop i p s) = ss_t s" "ss_cancelled (set_loop i p s) = ss_cancelled s" "ss_control (set_loop i p s) = ss_control s"
  "ss_data (set_loop i p s) = ss_data s" "length (ss_loops (set_loop i p s)) = length (ss_loops s)"
  by (simp_all add: set_loop_def)

lemma set_loop_nth:
  "i < length (ss_loops s) \<Longrightarrow>
   ss_loops (set_loop j p s) ! i = (if i = j then (fst (ss_loops s ! i), p) else ss_loops s ! i)"
  by (simp add: set_loop_def nth_list_update)

lemma fst_set_loop: "i < length (ss_loops s) \<Longrightarrow> fst (ss_loops (set_loop j p s) ! i) = fst (ss_loops s ! i)"
  by (simp add: set_loop_nth)

text \<open>A turn only closes connections and leaves the places of the loops to the caller.\<close>

lemma select_turn_frame:
  "select_turn l s = Some (p, s') \<Longrightarrow> ss_loops s' = ss_loops s \<and> (ss_control s' \<longrightarrow> ss_control s) \<and>
    (ss_data s' \<longrightarrow> ss_data s) \<and> ss_cancelled s' = ss_cancelled s \<and> ss_t s' = ss_t s \<and>
    place_ok (\<not> ss_control s' \<and> \<not> ss_data s') (l, p) \<and> (if ss_cancelled s then p = Ended else p = Reading)"
  by (cases l) (auto simp: select_turn_def place_ok_def split: if_split_asm)

lemma read_turn_frame:
  "read_turn l s = Some (p, s') \<Longrightarrow> s' = s\<lparr>ss_cancelled := True\<rparr> \<and> p = Ended \<and> (l = LControlRecv \<or> l = LPacketRecv)"
  by (cases l) (auto simp: read_turn_def split: if_split_asm)

lemma hand_turn_frame:
  "hand_turn ps s = Some (p, s') \<Longrightarrow> (\<exists>t. s' = s\<lparr>ss_t := t\<rparr>) \<and>
    (ps = [] \<and> p = AtSelect \<and> s' = s \<or> p = Handing (tl ps) \<and> ps \<noteq> [] \<and> length (ch_items (FromTun (ss_t s))) < 256)"
  by (cases ps) (auto simp: chan_send_def FromTun_def split: if_split_asm intro: exI [of _ "ss_t s"])

definition turn_frame :: "'h session \<Rightarrow> 'h session \<Rightarrow> bool" where
  "turn_frame s s' \<longleftrightarrow> ss_loops s' = ss_loops s \<and> (ss_control s' \<longrightarrow> ss_control s) \<and> (ss_data s' \<longrightarrow> ss_data s) \<and>
     (ss_cancelled s \<longrightarrow> ss_cancelled s')"

lemma loop_turn_frame:
  assumes "loop_turn (l, q) s = Some (p, s')" and "place_ok b (l, q)"
  shows "turn_frame s s'" "place_ok (\<not> ss_control s' \<and> \<not> ss_data s') (l, p)"
proof -
  have "turn_frame s s' \<and> place_ok (\<not> ss_control s' \<and> \<not> ss_data s') (l, p)"
  proof (cases q)
    case AtSelect
    then have "select_turn l s = Some (p, s')" using assms(1) by (simp add: loop_turn_def)
    from select_turn_frame [OF this] show ?thesis by (simp add: turn_frame_def)
  next
    case Reading
    then have "read_turn l s = Some (p, s')" using assms(1) by (simp add: loop_turn_def)
    from read_turn_frame [OF this] show ?thesis by (auto simp: turn_frame_def place_ok_def)
  next
    case (Handing ps)
    then have "hand_turn ps s = Some (p, s')" using assms(1) by (simp add: loop_turn_def)
    from hand_turn_frame [OF this] show ?thesis using assms(2) Handing by (auto simp: turn_frame_def place_ok_def)
  next
    case Ended
    then show ?thesis using assms(1) by (simp add: loop_turn_def)
  qed
  then show "turn_frame s s'" "place_ok (\<not> ss_control s' \<and> \<not> ss_data s') (l, p)" by auto
qed

lemma place_ok_mono: "place_ok b lp \<Longrightarrow> b \<longrightarrow> b' \<Longrightarrow> place_ok b' lp"
  by (auto simp: place_ok_def)

text \<open>A change of one loop that keeps the connections or closes them.\<close>

lemma loops_inv_loop:
  assumes "loops_inv s" and "ss_loops s' = ss_loops s" and "ss_control s' \<longrightarrow> ss_control s" and "ss_data s' \<longrightarrow> ss_data s"
    and "place_ok (\<not> ss_control s' \<and> \<not> ss_data s') (fst (ss_loops s ! i), p)"
  shows "loops_inv (set_loop i p s')"
  unfolding loops_inv_def
proof (intro conjI allI impI)
  fix j assume "j < length (ss_loops (set_loop i p s'))"
  then have j: "j < length (ss_loops s')" "place_ok (\<not> ss_control s \<and> \<not> ss_data s) (ss_loops s' ! j)"
    using assms(1,2) by (auto simp: loops_inv_def)
  have "\<not> ss_control s \<and> \<not> ss_data s \<longrightarrow> \<not> ss_control s' \<and> \<not> ss_data s'" using assms(3,4) by blast
  from place_ok_mono [OF j(2) this]
  show "place_ok (\<not> ss_control (set_loop i p s') \<and> \<not> ss_data (set_loop i p s')) (ss_loops (set_loop i p s') ! j)"
    unfolding set_loop_sel set_loop_nth [OF j(1)] using assms(5) by (cases "j = i") (simp_all only: assms(2) if_True if_False refl)
next
  obtain j where "j < length (ss_loops s')" "fst (ss_loops s' ! j) = LCloser" using assms(1,2) by (auto simp: loops_inv_def)
  then show "\<exists>j<length (ss_loops (set_loop i p s')). fst (ss_loops (set_loop i p s') ! j) = LCloser"
    by (intro exI [of _ j]) (simp add: fst_set_loop)
qed

lemma sess_step_inv: "sess_step s s' \<Longrightarrow> loops_inv s \<Longrightarrow> loops_inv s'"
proof (induction rule: sess_step.induct)
  case (turn i s p s')
  obtain l q where lq: "ss_loops s ! i = (l, q)" by (cases "ss_loops s ! i")
  then have "place_ok (\<not> ss_control s \<and> \<not> ss_data s) (l, q)" using turn by (auto simp: loops_inv_def)
  from loop_turn_frame [OF turn(2) [unfolded lq] this] show ?case
    using turn(3) lq by (intro loops_inv_loop [of s]) (auto simp: turn_frame_def)
qed

lemma loops_inv_other: "loops_inv s \<Longrightarrow> loops_inv (s\<lparr>ss_t := t\<rparr>)" "loops_inv s \<Longrightarrow> loops_inv (s\<lparr>ss_cancelled := c\<rparr>)"
  by (simp_all add: loops_inv_def)

lemma sess_event_inv: "sess_event s s' \<Longrightarrow> loops_inv s \<Longrightarrow> loops_inv s'"
proof (induction rule: sess_event.induct)
  case (tick i s bch)
  then show ?case by (intro loops_inv_loop [of s]) (auto simp: place_ok_def)
next
  case (message i s)
  then show ?case by (intro loops_inv_loop [of s]) (auto simp: place_ok_def)
next
  case (datagram i s ps)
  then show ?case by (intro loops_inv_loop [of s]) (auto simp: place_ok_def)
next
  case (fails i s l)
  then show ?case by (intro loops_inv_loop [of s]) (auto simp: place_ok_def)
next
  case (broken i s l)
  then have "place_ok (\<not> ss_control s \<and> \<not> ss_data s) (l, Reading)" by (auto simp: loops_inv_def)
  then show ?case using broken by (intro loops_inv_loop [of s]) (auto simp: place_ok_def)
qed (rule loops_inv_other, assumption)+

lemma start_loops_inv: "loops_inv (start_session cfg testFlag t)"
proof -
  let ?ls = "session_loops cfg testFlag"
  have "last ?ls = LCloser" "?ls \<noteq> []" by (simp_all add: session_loops_def)
  then have "?ls ! (length ?ls - 1) = LCloser" "length ?ls - 1 < length ?ls" by (simp_all add: last_conv_nth)
  then have "\<exists>i<length ?ls. ?ls ! i = LCloser" by blast
  then show ?thesis by (auto simp: loops_inv_def start_session_def place_ok_def)
qed

lemma sess_any_inv: "sess_any\<^sup>*\<^sup>* s s' \<Longrightarrow> loops_inv s \<Longrightarrow> loops_inv s'"
  by (induction rule: rtranclp_induct) (auto simp: sess_any_def intro: sess_step_inv sess_event_inv)

lemma session_reachable_inv: "session_reachable cfg testFlag s \<Longrightarrow> loops_inv s"
  using start_loops_inv by (auto simp: session_reachable_def intro: sess_any_inv)

section \<open>The end of a session\<close>

fun place_work :: "place \<Rightarrow> nat" where
  "place_work AtSelect = 1"
| "place_work Reading = 1"
| "place_work (Handing ps) = 2 + length ps"
| "place_work Ended = 0"

definition loops_work :: "'h session \<Rightarrow> nat" where
  "loops_work s = sum_list (map (\<lambda>(l, p). place_work p) (ss_loops s))"

lemma loop_turn_work:
  assumes "loop_turn (l, q) s = Some (p, s')" and "ss_cancelled s"
  shows "place_work p < place_work q"
proof (cases q)
  case (Handing ps)
  then have "hand_turn ps s = Some (p, s')" using assms(1) by (simp add: loop_turn_def)
  from hand_turn_frame [OF this] show ?thesis using Handing by auto
qed (use assms in \<open>auto simp: loop_turn_def dest: select_turn_frame read_turn_frame\<close>)

lemma sess_step_work: "sess_step s s' \<Longrightarrow> loops_inv s \<Longrightarrow> ss_cancelled s \<Longrightarrow> ss_cancelled s' \<and> loops_work s' < loops_work s"
proof (induction rule: sess_step.induct)
  case (turn i s p s')
  obtain l q where lq: "ss_loops s ! i = (l, q)" by (cases "ss_loops s ! i")
  then have "place_ok (\<not> ss_control s \<and> \<not> ss_data s) (l, q)" using turn by (auto simp: loops_inv_def)
  then have f: "turn_frame s s'" using loop_turn_frame(1) turn(2) lq by auto
  have "place_work p < place_work q" using loop_turn_work turn(2,4) lq by auto
  moreover have "place_work q \<le> loops_work s"
    using elem_le_sum_list [of i "map (\<lambda>(l, p). place_work p) (ss_loops s)"] turn(1) lq by (simp add: loops_work_def)
  ultimately show ?case using f turn(1,4) lq
    by (simp add: turn_frame_def loops_work_def set_loop_def map_update sum_list_update)
qed

lemma sess_steps_work:
  "(sess_step ^^ n) s s' \<Longrightarrow> loops_inv s \<Longrightarrow> ss_cancelled s \<Longrightarrow> loops_inv s' \<and> ss_cancelled s' \<and> n + loops_work s' \<le> loops_work s"
proof (induction n arbitrary: s')
  case (Suc n)
  then obtain u where "(sess_step ^^ n) s u" "sess_step u s'" by auto
  then show ?case using Suc.IH [of u] Suc.prems(2,3) sess_step_inv sess_step_work by fastforce
qed simp

text \<open>The queue has no room left.\<close>

definition tun_full :: "'h session \<Rightarrow> bool" where
  "tun_full s \<longleftrightarrow> 256 \<le> length (ch_items (FromTun (ss_t s)))"

lemma stuck_turn: "\<nexists>s'. sess_step s s' \<Longrightarrow> i < length (ss_loops s) \<Longrightarrow> loop_turn (ss_loops s ! i) s = None"
  using turn [of i s] by (cases "loop_turn (ss_loops s ! i) s") auto

lemma stuck_place:
  assumes "loops_inv s" and "ss_cancelled s" and "\<nexists>s'. sess_step s s'" and "i < length (ss_loops s)"
  shows "snd (ss_loops s ! i) = Ended \<or>
    (\<exists>l x xs. ss_loops s ! i = (l, Handing (x # xs)) \<and> (l = LTest \<or> l = LPacketRecv) \<and> tun_full s)"
proof -
  have sel: "snd (ss_loops s ! j) \<noteq> AtSelect" if "j < length (ss_loops s)" for j
    using stuck_turn [OF assms(3) that] assms(2) by (cases "ss_loops s ! j") (auto simp: loop_turn_def select_turn_def)
  obtain j where j: "j < length (ss_loops s)" "fst (ss_loops s ! j) = LCloser" using assms(1) by (auto simp: loops_inv_def)
  have "place_ok (\<not> ss_control s \<and> \<not> ss_data s) (ss_loops s ! j)" using assms(1) j by (auto simp: loops_inv_def)
  then have closed: "\<not> ss_control s" "\<not> ss_data s" using sel [OF j(1)] j(2)
    by (cases "ss_loops s ! j"; cases "snd (ss_loops s ! j)"; auto simp: place_ok_def)+
  obtain l q where lq: "ss_loops s ! i = (l, q)" by (cases "ss_loops s ! i")
  have ok: "place_ok (\<not> ss_control s \<and> \<not> ss_data s) (l, q)" using assms(1,4) lq by (auto simp: loops_inv_def)
  have none: "loop_turn (l, q) s = None" using stuck_turn [OF assms(3,4)] lq by simp
  show ?thesis
  proof (cases q)
    case Reading
    then show ?thesis using none ok closed by (auto simp: loop_turn_def read_turn_def place_ok_def)
  next
    case (Handing ps)
    then show ?thesis using none ok lq
      by (cases ps) (auto simp: loop_turn_def place_ok_def chan_send_def tun_full_def FromTun_def split: if_split_asm)
  qed (use sel [OF assms(4)] lq in auto)
qed

text \<open>A loop that waits for room when no sender is left waits for ever.\<close>

definition blocked :: "nat \<Rightarrow> 'h session \<Rightarrow> bool" where
  "blocked i s \<longleftrightarrow> i < length (ss_loops s) \<and> (\<exists>x xs. snd (ss_loops s ! i) = Handing (x # xs)) \<and> tun_full s \<and>
     (\<forall>j < length (ss_loops s). fst (ss_loops s ! j) = LPacketSend \<longrightarrow> snd (ss_loops s ! j) = Ended)"

lemma blocked_loop:
  assumes "blocked i s" and "j \<noteq> i" and "ss_loops s' = ss_loops s" and "ss_t s' = ss_t s"
    and "fst (ss_loops s ! j) = LPacketSend \<longrightarrow> p = Ended"
  shows "blocked i (set_loop j p s')"
  unfolding blocked_def
proof (intro conjI allI impI)
  show "i < length (ss_loops (set_loop j p s'))" "tun_full (set_loop j p s')"
    using assms(1,3,4) by (auto simp: blocked_def tun_full_def)
  show "\<exists>x xs. snd (ss_loops (set_loop j p s') ! i) = Handing (x # xs)"
    using assms(1-3) by (auto simp: blocked_def set_loop_nth)
  fix k assume "k < length (ss_loops (set_loop j p s'))" "fst (ss_loops (set_loop j p s') ! k) = LPacketSend"
  then show "snd (ss_loops (set_loop j p s') ! k) = Ended"
    using assms(1,3,5) by (cases "k = j") (auto simp: blocked_def set_loop_nth)
qed

lemma blocked_step: "sess_step s s' \<Longrightarrow> blocked i s \<Longrightarrow> blocked i s'"
proof (induction rule: sess_step.induct)
  case (turn j s p s')
  obtain l q where lq: "ss_loops s ! j = (l, q)" by (cases "ss_loops s ! j")
  have full: "256 \<le> length (ch_items (FromTun (ss_t s)))" using turn(3) by (simp add: blocked_def tun_full_def)
  have same: "ss_loops s' = ss_loops s \<and> ss_t s' = ss_t s \<and> (p = Ended \<or> l = LControlRecv \<or> l = LPacketRecv \<or> q = Handing [])"
  proof (cases q)
    case AtSelect
    then have t: "select_turn l s = Some (p, s')" using turn(2) lq by (simp add: loop_turn_def)
    have "p = Ended \<or> l = LControlRecv \<or> l = LPacketRecv" using t by (cases l) (auto simp: select_turn_def split: if_split_asm)
    then show ?thesis using select_turn_frame [OF t] by auto
  next
    case (Handing ps)
    then have "hand_turn ps s = Some (p, s')" using turn(2) lq by (simp add: loop_turn_def)
    from hand_turn_frame [OF this] show ?thesis using Handing full by auto
  qed (use turn(2) lq in \<open>auto simp: loop_turn_def dest: read_turn_frame\<close>)
  have "j \<noteq> i"
    using turn(2,3) full lq by (auto simp: blocked_def loop_turn_def chan_send_def FromTun_def split: if_split_asm)
  moreover have "l = LPacketSend \<longrightarrow> q = Ended" using turn(1,3) lq by (auto simp: blocked_def)
  ultimately show ?case using same turn(2,3) lq
    by (intro blocked_loop [of i s]) (auto simp: loop_turn_def)
qed

lemma blocked_event: "sess_event s s' \<Longrightarrow> blocked i s \<Longrightarrow> blocked i s'"
proof (induction rule: sess_event.induct)
  case (tick j s bch)
  then show ?case by (intro blocked_loop [of i s]) (auto simp: blocked_def)
next
  case (message j s)
  then show ?case by (intro blocked_loop [of i s]) (auto simp: blocked_def)
next
  case (datagram j s ps)
  then show ?case by (intro blocked_loop [of i s]) (auto simp: blocked_def)
next
  case (fails j s l)
  then show ?case by (intro blocked_loop [of i s]) (auto simp: blocked_def)
next
  case (broken j s l)
  then show ?case by (intro blocked_loop [of i s]) (auto simp: blocked_def)
next
  case (taken s x ch)
  then show ?case by (force simp: blocked_def in_set_conv_nth)
next
  case (device s x)
  then have "fst (try_send x (FromTun (ss_t s))) = FromTun (ss_t s)"
    by (auto simp: blocked_def tun_full_def try_send_def chan_send_def FromTun_def)
  then show ?case using device by (simp add: blocked_def tun_full_def set_FromTun_def FromTun_def)
qed (simp add: blocked_def tun_full_def)

lemma blocked_run: "sess_any\<^sup>*\<^sup>* s s' \<Longrightarrow> blocked i s \<Longrightarrow> blocked i s'"
  by (induction rule: rtranclp_induct) (auto simp: sess_any_def intro: blocked_step blocked_event)

lemma blocked_not_over: "blocked i s \<Longrightarrow> \<not> over s"
  by (auto simp: blocked_def over_def list_all_length)

text \<open>
  C16. The end of a session: after its context is cancelled, by a loop that failed or by the
  process, the goroutines make a bounded number of steps; when none of them can make another
  one, either all have returned, so that the client goes on to reconnect, or the queue from the
  device is full and a receiver with packets to hand over, or the test loop, waits for room in
  it. In the second case all senders have returned, and whatever happens afterwards the session
  never ends and the client never reconnects.
\<close>

theorem session_ends:
  assumes "session_reachable cfg testFlag s" and "ss_cancelled s" and "(sess_step ^^ n) s s'"
  shows "n \<le> loops_work s \<and>
    ((\<nexists>u. sess_step s' u) \<longrightarrow>
      over s' \<or>
      tun_full s' \<and> (\<exists>l x xs. (l, Handing (x # xs)) \<in> set (ss_loops s') \<and> (l = LTest \<or> l = LPacketRecv)) \<and>
      (\<forall>u. sess_any\<^sup>*\<^sup>* s' u \<longrightarrow> \<not> over u))"
proof -
  have inv: "loops_inv s'" "ss_cancelled s'" "n \<le> loops_work s"
    using sess_steps_work [OF assms(3) session_reachable_inv [OF assms(1)] assms(2)] by auto
  have "over s' \<or> tun_full s' \<and> (\<exists>l x xs. (l, Handing (x # xs)) \<in> set (ss_loops s') \<and> (l = LTest \<or> l = LPacketRecv)) \<and>
      (\<forall>u. sess_any\<^sup>*\<^sup>* s' u \<longrightarrow> \<not> over u)" if stuck: "\<nexists>u. sess_step s' u"
  proof (cases "over s'")
    case False
    then obtain i where i: "i < length (ss_loops s')" "snd (ss_loops s' ! i) \<noteq> Ended"
      by (auto simp: over_def list_all_length)
    obtain l x xs where l: "ss_loops s' ! i = (l, Handing (x # xs))" "l = LTest \<or> l = LPacketRecv" "tun_full s'"
      using stuck_place [OF inv(1,2) stuck i(1)] i(2) by auto
    have "blocked i s'"
      using i l stuck_place [OF inv(1,2) stuck] by (fastforce simp: blocked_def)
    then show ?thesis using l i(1) blocked_run blocked_not_over by (metis nth_mem)
  qed simp
  then show ?thesis using inv(3) by blast
qed

section \<open>A concrete session that never ends\<close>

definition demo_settings :: Settings where
  "demo_settings = \<lparr>ServerIp = [], ServerPort = 1, DeviceName = [97], ClientID = replicate 16 0, ReadTimeout = 1, RetentionTime = 1,
     PingTime = 1, SendWorkers = 1, RecvWorkers = 1, CheckPort = 2, EnableP2P = False, EnableUi = False, EnableCompress = False\<rparr>"

definition demo_full :: "nat ClientTransport" where
  "demo_full = set_FromTun \<lparr>ch_cap = 256, ch_items = replicate 256 [7], ch_closed = False\<rparr> (NewTransport ([1], [1]))"

definition demo_sess :: "bool \<Rightarrow> bool \<Rightarrow> bool \<Rightarrow> place \<Rightarrow> place \<Rightarrow> place \<Rightarrow> place \<Rightarrow> place \<Rightarrow> place \<Rightarrow> nat session" where
  "demo_sess cancelled ctl dat p0 p1 p2 p3 p4 p5 =
     \<lparr>ss_t = demo_full, ss_cancelled = cancelled, ss_control = ctl, ss_data = dat,
      ss_loops = [(LControlRecv, p0), (LControlSend, p1), (LHeartbeat, p2), (LPacketRecv, p3), (LPacketSend, p4), (LCloser, p5)]\<rparr>"

definition demo_hung :: "nat session" where
  "demo_hung = demo_sess True False False Ended Ended Ended (Handing [[9]]) Ended Ended"

lemma demo_sess_start: "start_session demo_settings False demo_full = demo_sess False True True AtSelect AtSelect AtSelect AtSelect AtSelect AtSelect"
  by (simp add: start_session_def session_loops_def demo_settings_def demo_sess_def)

lemma demo_sess_cancelled:
  "session_reachable demo_settings False (demo_sess True True True AtSelect AtSelect AtSelect (Handing [[9]]) AtSelect AtSelect)"
proof -
  let ?s = "\<lambda>c p. demo_sess c True True AtSelect AtSelect AtSelect p AtSelect AtSelect"
  have "sess_any (?s False AtSelect) (?s False Reading)"
    using turn [of 3 "?s False AtSelect" Reading "?s False AtSelect"]
    by (simp add: sess_any_def demo_sess_def loop_turn_def select_turn_def set_loop_def numeral_3_eq_3)
  moreover have "sess_any (?s False Reading) (?s False (Handing [[9]]))"
    using datagram [of 3 "?s False Reading" "[[9]]"] by (simp add: sess_any_def demo_sess_def set_loop_def numeral_3_eq_3)
  moreover have "sess_any (?s False (Handing [[9]])) (?s True (Handing [[9]]))"
    using process [of "?s False (Handing [[9]])"] by (simp add: sess_any_def demo_sess_def)
  ultimately show ?thesis
    unfolding session_reachable_def using demo_sess_start by (metis (no_types) converse_rtranclp_into_rtranclp rtranclp.rtrancl_refl)
qed

lemma demo_sess_stops:
  "(sess_step ^^ 5) (demo_sess True True True AtSelect AtSelect AtSelect (Handing [[9]]) AtSelect AtSelect) demo_hung"
proof -
  have "sess_step (demo_sess True True True AtSelect AtSelect AtSelect q AtSelect AtSelect)
      (demo_sess True False True Ended AtSelect AtSelect q AtSelect AtSelect)" for q
    using turn [of 0 "demo_sess True True True AtSelect AtSelect AtSelect q AtSelect AtSelect" Ended
        "demo_sess True False True AtSelect AtSelect AtSelect q AtSelect AtSelect"]
    by (simp add: demo_sess_def loop_turn_def select_turn_def set_loop_def)
  moreover have "sess_step (demo_sess True False True Ended AtSelect AtSelect q AtSelect AtSelect)
      (demo_sess True False True Ended Ended AtSelect q AtSelect AtSelect)" for q
    using turn [of 1 "demo_sess True False True Ended AtSelect AtSelect q AtSelect AtSelect" Ended
        "demo_sess True False True Ended AtSelect AtSelect q AtSelect AtSelect"]
    by (simp add: demo_sess_def loop_turn_def select_turn_def set_loop_def)
  moreover have "sess_step (demo_sess True False True Ended Ended AtSelect q AtSelect AtSelect)
      (demo_sess True False True Ended Ended Ended q AtSelect AtSelect)" for q
    using turn [of 2 "demo_sess True False True Ended Ended AtSelect q AtSelect AtSelect" Ended
        "demo_sess True False True Ended Ended AtSelect q AtSelect AtSelect"]
    by (simp add: demo_sess_def loop_turn_def select_turn_def set_loop_def numeral_2_eq_2)
  moreover have "sess_step (demo_sess True False True Ended Ended Ended q AtSelect AtSelect)
      (demo_sess True False True Ended Ended Ended q Ended AtSelect)" for q
    using turn [of 4 "demo_sess True False True Ended Ended Ended q AtSelect AtSelect" Ended
        "demo_sess True False True Ended Ended Ended q AtSelect AtSelect"]
    by (simp add: demo_sess_def loop_turn_def select_turn_def set_loop_def numeral_eq_Suc)
  moreover have "sess_step (demo_sess True False True Ended Ended Ended q Ended AtSelect)
      (demo_sess True False False Ended Ended Ended q Ended Ended)" for q
    using turn [of 5 "demo_sess True False True Ended Ended Ended q Ended AtSelect" Ended
        "demo_sess True False False Ended Ended Ended q Ended AtSelect"]
    by (simp add: demo_sess_def loop_turn_def select_turn_def set_loop_def numeral_eq_Suc)
  ultimately show ?thesis unfolding demo_hung_def
    by (simp add: numeral_eq_Suc) (blast intro: relcomppI)
qed

lemma demo_hung_stuck: "\<nexists>u. sess_step demo_hung u"
proof -
  have "loop_turn (ss_loops demo_hung ! i) demo_hung = None" if "i < 6" for i
    using that less_Suc_eq by (auto simp: numeral_eq_Suc less_Suc_eq demo_hung_def demo_sess_def loop_turn_def demo_full_def FromTun_def set_FromTun_def chan_send_def)
  moreover have "length (ss_loops demo_hung) = 6" by (simp add: demo_hung_def demo_sess_def)
  ultimately show ?thesis by (auto elim!: sess_step.cases)
qed

theorem session_ends_witness:
  "5 \<le> loops_work (demo_sess True True True AtSelect AtSelect AtSelect (Handing [[9]]) AtSelect AtSelect) \<and>
   tun_full demo_hung \<and> {u. sess_any\<^sup>*\<^sup>* demo_hung u} \<inter> {u. over u} = {}"
proof -
  have "\<not> over demo_hung" by (simp add: over_def demo_hung_def demo_sess_def)
  then show ?thesis
    using session_ends [OF demo_sess_cancelled _ demo_sess_stops] demo_hung_stuck by (auto simp: demo_sess_def)
qed

end
