(* ===== verification/Startup.thy ===== *)
theory Startup
  imports Server Teardown
begin

text \<open>
  How the two programs start: the client's \<^verbatim>\<open>main\<close> with its flags and
  \<^verbatim>\<open>InitAll\<close>, the part of every session loop that runs before its first turn, the
  server's \<^verbatim>\<open>main\<close> and \<^verbatim>\<open>Run\<close> with the goroutines they start, and the loop of
  the data socket that reads datagrams in batches. The flag package, the sockets and the clock are
  outside.
\<close>

section \<open>The client\<close>

record client_flags =
  fl_test :: bool
  fl_interval :: int
  fl_config :: gostring

definition default_flags :: client_flags where
  "default_flags = \<lparr>fl_test = False, fl_interval = 10, fl_config = []\<rparr>"

text \<open>At the first start the example of a configuration is written to the working directory.\<close>

definition assets_init :: "(gostring \<Rightarrow> bool) \<Rightarrow> bytes \<Rightarrow> (gostring \<times> bytes) list" where
  "assets_init exists ConfigExampleBytes =
     (if exists (str ''config.toml.example'') then [] else [(str ''config.toml.example'', ConfigExampleBytes)])"

text \<open>A panic of \<^verbatim>\<open>InitConfig\<close> is reported and ends the program: \<open>None\<close>.\<close>

definition InitAll :: "files \<Rightarrow> (gostring \<Rightarrow> bool) \<Rightarrow> bytes \<Rightarrow> (bytes \<Rightarrow> Configuration option) \<Rightarrow>
    (gostring \<Rightarrow> int option) \<Rightarrow> bytes option \<Rightarrow> gostring \<Rightarrow> Settings option" where
  "InitAll fs stat ConfigBytes unmarshal ParseDuration random localPath =
     map_option fst (InitConfig fs stat ConfigBytes unmarshal ParseDuration random localPath)"

text \<open>
  What \<^verbatim>\<open>main\<close> passes on: the settings, the new transport, and the two arguments of
  \<^verbatim>\<open>ListenAndServe\<close>, the test flag and the interval, a nil pointer without the flag.
\<close>

definition client_main :: "files \<Rightarrow> (gostring \<Rightarrow> bool) \<Rightarrow> bytes \<Rightarrow> (bytes \<Rightarrow> Configuration option) \<Rightarrow>
    (gostring \<Rightarrow> int option) \<Rightarrow> bytes option \<Rightarrow> keys \<Rightarrow> client_flags \<Rightarrow>
    (Settings \<times> 'h ClientTransport \<times> bool \<times> int option) option" where
  "client_main fs stat ConfigBytes unmarshal ParseDuration random keypair flags =
     (case InitAll fs stat ConfigBytes unmarshal ParseDuration random (fl_config flags) of
        None \<Rightarrow> None
      | Some cfg \<Rightarrow>
          let second = fl_interval flags; tp = NewTransport keypair
          in if fl_test flags then Some (cfg, tp, fl_test flags, Some second)
             else Some (cfg, tp, fl_test flags, None))"

text \<open>
  The part of a loop before its first turn. \<^verbatim>\<open>time.NewTicker\<close> panics for an interval that is
  not positive; the interval of the test loop is a product of 64-bit integers. \<open>marshal_ok\<close> says
  whether the header of the test packet can be built: an error ends the loop.
\<close>

datatype loop_start = LoopRuns | LoopFails | LoopPanics

definition NewTicker :: "int \<Rightarrow> int option" where
  "NewTicker d = (if d \<le> 0 then None else Some d)"

definition heartbeat_start :: "Settings \<Rightarrow> 'h ClientTransport \<Rightarrow> loop_start" where
  "heartbeat_start cfg t =
     (case NewTicker (PingTime cfg) of
        None \<Rightarrow> LoopPanics
      | Some _ \<Rightarrow> (case To4 (localIp t) of None \<Rightarrow> LoopPanics | Some _ \<Rightarrow> LoopRuns))"

definition packetRecv_start :: "'h ClientTransport \<Rightarrow> loop_start" where
  "packetRecv_start t = (case To4 (localIp t) of None \<Rightarrow> LoopPanics | Some _ \<Rightarrow> LoopRuns)"

definition handleP2P_start :: "'h ClientTransport \<Rightarrow> loop_start" where
  "handleP2P_start t =
     (case NewTicker (3 * 10 ^ 9) of
        None \<Rightarrow> LoopPanics
      | Some _ \<Rightarrow> (case To4 (localIp t) of None \<Rightarrow> LoopPanics | Some _ \<Rightarrow> LoopRuns))"

definition testBroadCast_start :: "bool \<Rightarrow> int option \<Rightarrow> loop_start" where
  "testBroadCast_start marshal_ok testSecond =
     (case testSecond of
        None \<Rightarrow> LoopPanics
      | Some second \<Rightarrow>
          (case NewTicker (sint (1000000 * word_of_int second :: 64 word)) of
             None \<Rightarrow> LoopPanics
           | Some _ \<Rightarrow> if marshal_ok then LoopRuns else LoopFails))"

definition start_loop :: "Settings \<Rightarrow> bool \<Rightarrow> int option \<Rightarrow> 'h ClientTransport \<Rightarrow> loop \<Rightarrow> loop_start" where
  "start_loop cfg marshal_ok testSecond t l =
     (case l of
        LHeartbeat \<Rightarrow> heartbeat_start cfg t
      | LPacketRecv \<Rightarrow> packetRecv_start t
      | LP2P \<Rightarrow> handleP2P_start t
      | LTest \<Rightarrow> testBroadCast_start marshal_ok testSecond
      | _ \<Rightarrow> LoopRuns)"

lemma NewTicker_None [simp]: "NewTicker d = None \<longleftrightarrow> d \<le> 0"
  by (simp add: NewTicker_def)

lemma start_loop_panics:
  assumes "To4 (localIp t) \<noteq> None"
  shows "start_loop cfg marshal_ok testSecond t l = LoopPanics \<longleftrightarrow>
    l = LHeartbeat \<and> PingTime cfg \<le> 0 \<or>
    l = LTest \<and> (case testSecond of None \<Rightarrow> True | Some second \<Rightarrow> sint (1000000 * word_of_int second :: 64 word) \<le> 0)"
  using assms
  by (cases l) (auto simp: start_loop_def heartbeat_start_def packetRecv_start_def handleP2P_start_def testBroadCast_start_def
      NewTicker_def split: option.splits)

lemma session_loops_test: "LTest \<in> set (session_loops cfg testFlag) \<longleftrightarrow> testFlag"
  by (auto simp: session_loops_def)

lemma client_main_test:
  "client_main fs stat cb unmarshal pd random keypair flags = Some (cfg, t, testFlag, testSecond) \<Longrightarrow>
   testFlag = fl_test flags \<and> testSecond = (if fl_test flags then Some (fl_interval flags) else None)"
  by (auto simp: client_main_def Let_def split: option.splits if_split_asm)

text \<open>
  C35. What crashes a client when its session starts: for settings and flags that \<^verbatim>\<open>main\<close>
  accepted, and a transport that has its address, one of the loops of the session panics before
  its first turn exactly when the configured heartbeat interval is not positive, or the test
  mode is on with an interval whose milliseconds, as a 64-bit number of nanoseconds, are not
  positive. The start does not check either value.
\<close>

theorem session_start_panics_iff:
  assumes "client_main fs stat cb unmarshal pd random keypair flags = Some (cfg, t0, testFlag, testSecond)"
    and "To4 (localIp t) \<noteq> None"
  shows "(\<exists>l \<in> set (session_loops cfg testFlag). start_loop cfg marshal_ok testSecond t l = LoopPanics) \<longleftrightarrow>
    PingTime cfg \<le> 0 \<or> fl_test flags \<and> sint (1000000 * word_of_int (fl_interval flags) :: 64 word) \<le> 0"
  using client_main_test [OF assms(1)] session_loops_test [of cfg testFlag]
  by (auto simp: start_loop_panics [OF assms(2)] session_loops_def)

text \<open>A configuration with the heartbeat interval \<open>0s\<close>, and test mode with the interval 0.\<close>

theorem session_start_panics_iff_witness:
  "\<exists>cfg t0. client_main (\<lambda>_. None) (\<lambda>_. False) [] (\<lambda>_. Some demo_configuration) (\<lambda>_. Some 0) (Some (replicate 16 7)) ([1], [1])
      default_flags = Some (cfg, t0 :: nat ClientTransport, False, None) \<and> PingTime cfg = 0 \<and>
    (\<exists>l \<in> set (session_loops cfg False).
      start_loop cfg True None (t0\<lparr>localIp := [10, 0, 0, 5]\<rparr>) l = LoopPanics)"
proof -
  obtain cfg and t0 :: "nat ClientTransport" where c: "client_main (\<lambda>_. None) (\<lambda>_. False) [] (\<lambda>_. Some demo_configuration) (\<lambda>_. Some 0)
      (Some (replicate 16 7)) ([1], [1]) default_flags = Some (cfg, t0, False, None)" "PingTime cfg = 0"
    by (simp add: client_main_def InitAll_def InitConfig_def config_data_def load_client_id_def demo_configuration_def default_flags_def
        duration_or_def Let_def)
  have "To4 (localIp (t0\<lparr>localIp := [10, 0, 0, 5]\<rparr>)) \<noteq> None" by (simp add: To4_def)
  from session_start_panics_iff [OF c(1) this, of True] c show ?thesis by auto
qed

section \<open>The server\<close>

text \<open>
  \<^verbatim>\<open>main\<close>: the settings of the default configuration and a new hub, with which
  \<^verbatim>\<open>Run\<close> starts; here nothing recovers a panic of \<^verbatim>\<open>InitConfig\<close>.
\<close>

definition server_main :: "files \<Rightarrow> (gostring \<Rightarrow> bool) \<Rightarrow> bytes \<Rightarrow> (bytes \<Rightarrow> Configuration option) \<Rightarrow>
    (gostring \<Rightarrow> int option) \<Rightarrow> bytes option \<Rightarrow> (Settings \<times> Hub) option" where
  "server_main fs stat ConfigBytes unmarshal ParseDuration random =
     (case InitConfig fs stat ConfigBytes unmarshal ParseDuration random [] of
        None \<Rightarrow> None
      | Some (cfg, _) \<Rightarrow> Some (cfg, NewHub))"

lemma server_main_inv: "server_main fs stat cb unmarshal pd random = Some (cfg, h) \<Longrightarrow> server_inv ({}, h)"
  by (auto simp: server_main_def server_inv_new split: option.splits)

datatype goroutine = GTransfer | GWriteUdp | GP2PTask | GListenCheck

text \<open>
  Opening a socket: the two errors end the program (\<open>None\<close>). The data socket starts two relay
  loops, two writers per processor, the scheduler and the loop of the check socket.
\<close>

definition open_socket :: "bool \<Rightarrow> bool \<Rightarrow> unit option" where
  "open_socket resolve_ok listen_ok = (if \<not> resolve_ok then None else if \<not> listen_ok then None else Some ())"

definition listenUdp_start :: "bool \<Rightarrow> bool \<Rightarrow> nat \<Rightarrow> goroutine list option" where
  "listenUdp_start resolve_ok listen_ok numCPU =
     (case open_socket resolve_ok listen_ok of
        None \<Rightarrow> None
      | Some _ \<Rightarrow>
          let workerCount = numCPU * 2
          in Some (replicate 2 GTransfer @ replicate workerCount GWriteUdp @ [GP2PTask, GListenCheck]))"

definition listenCheck_start :: "bool \<Rightarrow> bool \<Rightarrow> unit option" where
  "listenCheck_start resolve_ok listen_ok = open_socket resolve_ok listen_ok"

text \<open>
  What \<^verbatim>\<open>ReadBatch\<close> returns to one turn: a timeout, another error, or the datagrams that
  arrived, each cut to its buffer of 2048 bytes. Every datagram is given a packet structure of the
  pool. A context that is cancelled ends the loop in the middle of a batch.
\<close>

datatype batch_read = BatchTimeout | BatchError | Batch "(addrport \<times> bytes \<times> GamePacket) list"

fun listenUdp_msgs :: "lz4 \<Rightarrow> ('m, 'r) dns_lib \<Rightarrow> slice \<Rightarrow> slice \<Rightarrow> slice \<Rightarrow> slice \<Rightarrow> bool \<Rightarrow>
    (addrport \<times> bytes \<times> GamePacket) list \<Rightarrow> Hub \<Rightarrow> Hub \<times> pump" where
  "listenUdp_msgs z dl buf pb cb eb stop [] h = (h, PumpContinue)"
| "listenUdp_msgs z dl buf pb cb eb stop ((srcAddr, content, gp) # msgs) h =
     (case listenUdp z dl buf pb cb eb stop srcAddr (take 2048 content) gp h of
        (_, h, Returned) \<Rightarrow> (h, PumpReturn)
      | (_, h, _) \<Rightarrow> listenUdp_msgs z dl buf pb cb eb stop msgs h)"

definition listenUdp_batch :: "lz4 \<Rightarrow> ('m, 'r) dns_lib \<Rightarrow> slice \<Rightarrow> slice \<Rightarrow> slice \<Rightarrow> slice \<Rightarrow> bool \<Rightarrow>
    batch_read \<Rightarrow> Hub \<Rightarrow> Hub \<times> pump" where
  "listenUdp_batch z dl buf pb cb eb stop ev h =
     (case ev of
        BatchTimeout \<Rightarrow> (h, PumpContinue)
      | BatchError \<Rightarrow> (h, PumpContinue)
      | Batch msgs \<Rightarrow> listenUdp_msgs z dl buf pb cb eb stop msgs h)"

text \<open>A batch is a sequence of datagram steps of the server, so what holds of those holds of it.\<close>

lemma listenUdp_msgs_steps:
  "(server_step polite z dl rt)\<^sup>*\<^sup>* (live, h) (live, fst (listenUdp_msgs z dl buf pb cb eb stop msgs h))"
proof (induction msgs arbitrary: h)
  case (Cons m msgs)
  obtain a content gp where m: "m = (a, content, gp)" by (cases m)
  obtain gp' h' d where l: "listenUdp z dl buf pb cb eb stop a (take 2048 content) gp h = (gp', h', d)"
    by (cases "listenUdp z dl buf pb cb eb stop a (take 2048 content) gp h")
  have "server_step polite z dl rt (live, h) (live, h')"
    using server_step.datagram [of polite z dl rt live h buf pb cb eb stop a "take 2048 content" gp] l by simp
  then show ?case using Cons.IH [of h'] m l
    by (cases d) (auto intro: converse_rtranclp_into_rtranclp)
qed simp

lemma listenUdp_batch_steps:
  "(server_step polite z dl rt)\<^sup>*\<^sup>* (live, h) (live, fst (listenUdp_batch z dl buf pb cb eb stop ev h))"
  by (cases ev) (simp_all add: listenUdp_batch_def listenUdp_msgs_steps)

text \<open>A request that cannot be upgraded to a WebSocket leaves the hub as it is.\<close>

definition serverWS :: "bool \<Rightarrow> Hub \<Rightarrow> cref option \<times> Hub" where
  "serverWS upgrade_ok h = (if upgrade_ok then apfst Some (connect h) else (None, h))"

lemma serverWS_steps:
  "(server_step polite z dl rt)\<^sup>*\<^sup>* (live, h) (set_option (fst (serverWS ok h)) \<union> live, snd (serverWS ok h))"
  using server_step.accept [of polite z dl rt live h] by (auto simp: serverWS_def)

end
