(* ===== verification/Trust.thy ===== *)
theory Trust
  imports EndToEnd
begin

text \<open>
  What someone who can send datagrams, but has no session key, can do to a client and to the
  server. For the client: which bytes of a datagram can reach the device, for every datagram. For
  the server: whose address it takes over.
\<close>

section \<open>Opening only what was sealed\<close>

text \<open>
  An opening that succeeds computes the tag of the text it returns again, so what it opened is
  what sealing that text gives.
\<close>

definition aead_tight :: "aead \<Rightarrow> bool" where
  "aead_tight A \<longleftrightarrow> (\<forall>n c a p. length n = 12 \<longrightarrow> aead_open A n c a = Inr p \<longrightarrow> c = aead_seal A n p a)"

text \<open>An empty block holds no bytes.\<close>

definition lz4_empty :: "lz4 \<Rightarrow> bool" where
  "lz4_empty z \<longleftrightarrow> (\<forall>n out. lz4_UncompressBlock z [] n = Inr out \<longrightarrow> out = [])"

text \<open>
  The datagram \<open>w\<close> is the text \<open>m\<close> sealed in the name of \<open>src\<close>: type, destination and length
  are authenticated with it, source and counter are its nonce.
\<close>

definition sealed_under :: "CipherState \<Rightarrow> ip4 \<Rightarrow> byte \<Rightarrow> bytes \<Rightarrow> bytes \<Rightarrow> bool" where
  "sealed_under cs src t m w \<longleftrightarrow>
     (\<exists>dst len label. length label = 8 \<and>
        w = frame t dst len src label
              (aead_seal (cs_aead cs) (ip4_bytes src @ label) m (be16 MagicNumber @ t # ip4_bytes dst @ be16 len)))"

text \<open>What the device is given for the opened text: the text and sixteen bytes, or the text unpacked.\<close>

definition unpacked :: "lz4 \<Rightarrow> byte \<Rightarrow> bytes \<Rightarrow> bytes \<Rightarrow> bool" where
  "unpacked z t m data \<longleftrightarrow>
     (if t AND FlagCompress = 0 then \<exists>tail. length tail = 16 \<and> data = m @ tail
      else lz4_UncompressBlock z m (nat MaxPayloadSize) = Inr data)"

lemma ParsePacket_frameE:
  assumes "ParsePacket buf w True None g0 = (g, None)"
  obtains label cap where "w = frame (PType g) (gp_dst g) (Length g) (gp_src g) label (Payload g)" "length label = 8"
    "RawData g = Some \<lparr>sl_data = w, sl_cap = cap\<rparr>" "Length g = 0 \<Longrightarrow> Payload g = []"
proof -
  have "int (length w) \<le> MaxPacketSize" using assms by (auto simp: ParsePacket_def split: if_splits)
  then obtain t dst src len where h: "parseHeader w (parse_mode w None) = Inr (t, dst, src, len)"
    using assms by (auto simp: ParsePacket_def parse_def Let_def split: sum.splits prod.splits if_splits)
  then obtain label body where w: "w = frame t dst len src label body" "length label = 8"
    "validPayloadLength (int (length body)) len (parse_mode w None)"
    using parseHeader_iff by blast
  obtain cap where raw: "RawData g = Some \<lparr>sl_data = w, sl_cap = cap\<rparr>" "Payload g = drop HeaderLength w"
    using ParsePacket_buffer [where buf = buf and content = w and pp = True and g = g0] assms by auto
  have f: "PType g = t" "gp_dst g = dst" "gp_src g = src" "Length g = len"
    using assms h by (auto simp: ParsePacket_def parse_def Let_def split: if_splits)
  have p: "Payload g = body" using raw(2) w(2) by (simp add: w(1) frame_def HeaderLength_eq)
  have "len = 0 \<Longrightarrow> body = []" using w(3) by (simp add: validPayloadLength.simps)
  with that [of label cap] show ?thesis using w(1,2) raw(1) f p by simp
qed

lemma store_raw_PType [simp]: "PType (store_raw tail g) = PType g"
  by (simp add: store_raw_def)

lemma DecryptParse_authentic:
  assumes "ParsePacket buf w True None g0 = (g, None)" and "DecryptParse z (Some cs) g = Some (g', None)"
    and "aead_ok (cs_aead cs)" and "aead_tight (cs_aead cs)" and "lz4_empty z" and "HeaderLength < length (raw_bytes g')"
  shows "\<exists>m. sealed_under cs (gp_src g) (PType g) m w \<and> unpacked z (PType g) m (drop HeaderLength (raw_bytes g'))"
proof -
  from assms(1) obtain label cap where w: "w = frame (PType g) (gp_dst g) (Length g) (gp_src g) label (Payload g)" "length label = 8"
    and raw: "RawData g = Some \<lparr>sl_data = w, sl_cap = cap\<rparr>" and empty: "Length g = 0 \<Longrightarrow> Payload g = []"
    by (rule ParsePacket_frameE) blast
  let ?n = "ip4_bytes (gp_src g) @ label" and ?h = "be16 MagicNumber @ PType g # ip4_bytes (gp_dst g) @ be16 (Length g)"
  have parts: "take 12 (drop 9 w) = ?n" "take 9 w = ?h" "drop 21 w = Payload g" "length w = 21 + length (Payload g)"
    using w(2) by (simp_all add: w(1) frame_def)
  show ?thesis
  proof (cases "Length g = 0")
    case True
    then have "gp_decompress z g = Some (g', None) \<or> g' = g"
      using assms(2) by (auto simp: DecryptParse_def split: if_splits)
    then show ?thesis
      using assms(5,6) empty [OF True] parts(4) raw
      by (auto simp: gp_decompress_def lz4_empty_def raw_bytes_def HeaderLength_eq Let_def split: sum.splits if_splits)
  next
    case False
    then have pos: "Length g > 0" by (simp add: word_gt_0)
    let ?st = "aead_storage (cs_aead cs) ?n (Payload g) ?h"
    obtain m where m: "aead_open (cs_aead cs) ?n (Payload g) ?h = Inr m"
      and d: "(if PType g AND FlagCompress \<noteq> 0 then gp_decompress z (store_raw ?st g\<lparr>Payload := m\<rparr>) else Some (store_raw ?st g\<lparr>Payload := m\<rparr>, None)) =
        Some (g', None)"
      using assms(2) pos raw parts
      by (auto simp: DecryptParse_def Let_def Decrypt_def HeaderLength_eq NonceLength_def split: sum.splits)
    have "Payload g = aead_seal (cs_aead cs) ?n m ?h"
      using assms(4) m w(2) by (simp add: aead_tight_def)
    then have "sealed_under cs (gp_src g) (PType g) m w"
      using w unfolding sealed_under_def by metis
    moreover have "unpacked z (PType g) m (drop HeaderLength (raw_bytes g'))"
    proof (cases "PType g AND FlagCompress = 0")
      case True
      have "take (length m) ?st = m" "length ?st = length m + 16"
        using aead_ok_storage_take [OF assms(3) m] aead_ok_storage_length [OF assms(3)] aead_ok_open_length [OF assms(3) m] by auto
      then have "?st = m @ drop (length m) ?st" "length (drop (length m) ?st) = 16"
        by (metis append_take_drop_id) (simp add: \<open>length ?st = length m + 16\<close>)
      moreover have "drop HeaderLength (raw_bytes g') = ?st"
        using d True raw parts(4) by (auto simp: store_raw_def raw_bytes_def HeaderLength_eq)
      ultimately show ?thesis using True unfolding unpacked_def by metis
    next
      case False
      then show ?thesis
        using d raw parts(4)
        by (auto simp: unpacked_def gp_decompress_def store_raw_def raw_bytes_def HeaderLength_eq Let_def split: sum.splits if_splits)
    qed
    ultimately show ?thesis by blast
  qed
qed

section \<open>Every session's receive key\<close>

definition noise_tight :: "'h noise_lib \<Rightarrow> bool" where
  "noise_tight nl \<longleftrightarrow> (\<forall>k A. nl_aead nl k = Inr A \<longrightarrow> aead_ok A \<and> aead_tight A)"

definition tight :: "Cipher \<Rightarrow> bool" where
  "tight c \<longleftrightarrow> (\<forall>cs. Recver c = Some cs \<longrightarrow> aead_ok (cs_aead cs) \<and> aead_tight (cs_aead cs))"

definition keys_tight :: "'h NoiseManager \<Rightarrow> bool" where
  "keys_tight m \<longleftrightarrow> noise_inv m \<and> (\<forall>v s. GetSession m v = Some s \<longrightarrow> tight (ns_Cipher s))"

lemma Init_tight: "noise_tight nl \<Longrightarrow> Init (nl_aead nl) rk sk c0 = Some c \<Longrightarrow> tight c"
  by (auto simp: Init_def tight_def noise_tight_def cipher_ready_def split: sum.splits)

lemma NewChaCha_tight [simp]: "tight (ns_Cipher (NewNoiseSession vip i hs now))"
  by (simp add: tight_def NewNoiseSession_def NewChaCha_def)

lemma AddPendingData_Cipher: "AddPendingData data s = Some s' \<Longrightarrow> ns_Cipher s' = ns_Cipher s"
  by (auto simp: AddPendingData_def pending_send_def split: if_splits send_outcome.splits)

lemma HandshakeInit_tight:
  assumes "keys_tight m" and "HandshakeInit nl rnd now vip pub payload m = Some (m', r)"
  shows "GetSession m' v = Some s \<Longrightarrow> tight (ns_Cipher s)"
proof -
  obtain h rr where w: "nl_write nl (nl_initiator nl (static_key m) pub rnd) = (h, rr)" by fastforce
  have "gm_wf (sessions m)" using assms(1) by (simp add: keys_tight_def noise_inv_def)
  then show "GetSession m' v = Some s \<Longrightarrow> tight (ns_Cipher s)"
    using assms HandshakeInit_eq [OF w, of now vip payload]
    by (auto simp: Let_def keys_tight_def noise_tab.get_put split: if_splits)
qed

lemma HandleNoisePacket_tight:
  assumes "noise_tight nl" and "keys_tight m" and "HandleNoisePacket nl rnd now src data m = Some (m', r)"
  shows "GetSession m' v = Some s \<Longrightarrow> tight (ns_Cipher s)"
proof -
  have inv: "noise_inv m" and old: "\<And>v s. GetSession m v = Some s \<Longrightarrow> tight (ns_Cipher s)"
    using assms(2) by (simp_all add: keys_tight_def)
  note wf = noise_inv_wf [OF inv]
  show "GetSession m' v = Some s \<Longrightarrow> tight (ns_Cipher s)"
    using inv assms(3)
  proof (cases rule: HandleNoisePacket_cases)
    case responder
    then show "GetSession m' v = Some s \<Longrightarrow> tight (ns_Cipher s)"
      by (cases rule: handleResponderFirst_cases)
        (use wf old Init_tight [OF assms(1)] in \<open>auto simp: noise_tab.get_put split: if_splits\<close>)
  qed (use old Init_tight [OF assms(1)] in \<open>auto split: if_splits\<close>)
qed

lemma noise_step_tight:
  assumes "noise_tight nl" and "keys_tight m" and "noise_step nl m m'"
  shows "keys_tight m'"
proof -
  have inv: "noise_inv m" and old: "\<And>v s. GetSession m v = Some s \<Longrightarrow> tight (ns_Cipher s)"
    using assms(2) by (simp_all add: keys_tight_def)
  from assms(3) have "GetSession m' v = Some s \<Longrightarrow> tight (ns_Cipher s)" for v s
  proof cases
    case (packet rnd now src data h)
    then show "GetSession m' v = Some s \<Longrightarrow> tight (ns_Cipher s)" using HandleNoisePacket_tight [OF assms(1,2)] by blast
  next
    case (init rnd now vip pub payload r)
    then show "GetSession m' v = Some s \<Longrightarrow> tight (ns_Cipher s)" using HandshakeInit_tight [OF assms(2)] by blast
  next
    case (queue k s0 data s')
    then show "GetSession m' v = Some s \<Longrightarrow> tight (ns_Cipher s)"
      using old AddPendingData_Cipher [of data s0 s'] by (auto split: if_splits)
  next
    case (touch k s0 now)
    then show "GetSession m' v = Some s \<Longrightarrow> tight (ns_Cipher s)" using old by (auto simp: UpdateLastSeen_def split: if_splits)
  next
    case (seal k s0 cs)
    then show "GetSession m' v = Some s \<Longrightarrow> tight (ns_Cipher s)" using old [of k s0] old by (auto simp: tight_def split: if_splits)
  next
    case (sweep timeout now)
    then show "GetSession m' v = Some s \<Longrightarrow> tight (ns_Cipher s)"
      using old noise_sweep.get_sweep [OF noise_inv_wf [OF inv], of timeout now v] by (auto split: option.splits if_splits)
  next
    case (rename vip)
    then show "GetSession m' v = Some s \<Longrightarrow> tight (ns_Cipher s)" using old by (simp add: SetVirtualIp_def GetSession_def)
  qed
  then show ?thesis using noise_step_inv [OF assms(3) inv] by (simp add: keys_tight_def)
qed

interpretation keys_run: preserved "noise_step nl" "\<lambda>m. noise_tight nl \<longrightarrow> keys_tight m" for nl
  by unfold_locales (blast intro: noise_step_tight)

lemma keys_reachable: "(noise_step nl)\<^sup>*\<^sup>* (NewNoiseManager kp) m \<Longrightarrow> noise_tight nl \<Longrightarrow> keys_tight m"
  using keys_run.reach_inv [of nl "NewNoiseManager kp" m] noise_inv_new [of kp]
  by (auto simp: keys_tight_def NewNoiseManager_def GetSession_def)

section \<open>What a datagram can bring to the device\<close>

text \<open>A ready session is returned as it is.\<close>

lemma handled_ready:
  assumes "noise_inv m" and "HandleNoisePacket nl rnd now src data m = Some (m', Handled (Some s) None)"
  shows "m' = m" and "GetSession m src = Some s" and "IsReady (ns_Cipher s)"
  using assms
  by (cases rule: HandleNoisePacket_cases; fastforce elim: handleResponderFirst_cases)+

text \<open>The one branch of the receiver that queues a payload for the device.\<close>

lemma recv_data_queues:
  assumes "noise_inv (noiseMgr t)" and "recv_data env stop addr gp t = Some (t', out, r)"
  obtains "FromNet t' = FromNet t" "\<forall>x. ToDevice x \<notin> set out"
  | s gp' where "GetSession (noiseMgr t) (gp_src gp) = Some s" "IsReady (ns_Cipher s)"
      "DecryptParse (ce_lz4 env) (Recver (ns_Cipher s)) gp = Some (gp', None)"
      "FromNet t' = (FromNet t)\<lparr>ch_items := ch_items (FromNet t) @ [raw_bytes gp']\<rparr>" "out = []"
      "noiseMgr t' = session_write (gp_src gp) (UpdateLastSeen (ce_now env) s) (noiseMgr t)"
proof -
  obtain m h where h: "HandleNoisePacket (ce_noise env) (ce_rnd env) (ce_now env) (gp_src gp) (Payload gp) (noiseMgr t) = Some (m, h)"
    using assms(2) by (auto simp: recv_data_def Let_def split: option.splits)
  show thesis
  proof (cases "\<exists>s. h = Handled (Some s) None")
    case False
    then have "FromNet t' = FromNet t \<and> (\<forall>x. ToDevice x \<notin> set out)"
      using assms(2) h
      by (auto simp: recv_data_def Let_def udp_effects_def split: handled.splits option.splits)
    then show thesis using that(1) by blast
  next
    case True
    then obtain s where s: "h = Handled (Some s) None" by blast
    note ready = handled_ready [OF assms(1) h [unfolded s]]
    have "FromNet t' = FromNet t \<and> out = [] \<or> (\<exists>gp'. DecryptParse (ce_lz4 env) (Recver (ns_Cipher s)) gp = Some (gp', None) \<and>
      FromNet t' = (FromNet t)\<lparr>ch_items := ch_items (FromNet t) @ [raw_bytes gp']\<rparr> \<and> out = [] \<and>
      noiseMgr t' = session_write (gp_src gp) (UpdateLastSeen (ce_now env) s) (noiseMgr t))"
      using assms(2) h s ready(1)
      by (auto simp: recv_data_def Let_def select_send_def try_send_def chan_send_def split: option.splits if_splits)
    then show thesis using that ready(2,3) by auto
  qed
qed

text \<open>A sealed datagram is opened again whenever it arrives again: nothing of the first time is looked at.\<close>

lemma recv_data_again:
  assumes "GetSession (noiseMgr t) (gp_src gp) = Some s" and "IsReady (ns_Cipher s)"
    and "DecryptParse (ce_lz4 env) (Recver (ns_Cipher s)) gp = Some (gp', None)" and "chan_open ch" and "length (ch_items ch) < ch_cap ch"
  shows "\<exists>t'. recv_data env False addr gp (t\<lparr>FromNet := ch\<rparr>) = Some (t', [], PumpContinue) \<and>
    FromNet t' = ch\<lparr>ch_items := ch_items ch @ [raw_bytes gp']\<rparr>"
  using assms
  by (simp add: recv_data_def HandleNoisePacket_ready Let_def select_send_def try_send_def chan_send_def chan_open_def)

lemma count_received_net: "count_received n (t\<lparr>FromNet := ch\<rparr>) = (count_received n t)\<lparr>FromNet := ch\<rparr>"
  by (cases t) (simp add: count_received_def)

lemma packetRecv_queues:
  assumes "noise_inv (noiseMgr t)" and "packetRecv env stop w from t = Some (t', out, r)"
  obtains "FromNet t' = FromNet t" "\<And>x. ToDevice x \<in> set out \<Longrightarrow> 2 < length w \<and> clear_flag (w ! 2) = TypeDnsResponse"
  | gp s gp' where "ParsePacket (ce_raw env) w True None gp_empty = (gp, None)" "clear_flag (PType gp) = TypeData"
      "GetSession (noiseMgr t) (gp_src gp) = Some s" "IsReady (ns_Cipher s)"
      "DecryptParse (ce_lz4 env) (Recver (ns_Cipher s)) gp = Some (gp', None)"
      "FromNet t' = (FromNet t)\<lparr>ch_items := ch_items (FromNet t) @ [raw_bytes gp']\<rparr>" "out = []"
      "noiseMgr t' = session_write (gp_src gp) (UpdateLastSeen (ce_now env) s) (noiseMgr t)"
proof (cases "ParsePacket (ce_raw env) w True None gp_empty")
  case (Pair gp e)
  have c: "noiseMgr (count_received n t) = noiseMgr t" "FromNet (count_received n t) = FromNet t" for n
    by (simp_all add: count_received_def)
  consider "e \<noteq> None" | "e = None" "clear_flag (PType gp) = TypeData" | "e = None" "clear_flag (PType gp) \<noteq> TypeData" by blast
  then show thesis
  proof cases
    case 1
    then show thesis using assms(2) Pair that(1) by (auto simp: packetRecv_def Let_def c)
  next
    case 2
    then have "recv_data env stop from gp (count_received (length w) t) = Some (t', out, r)"
      using assms(2) Pair by (simp add: packetRecv_def Let_def)
    with assms(1) show thesis
      by (elim recv_data_queues [rotated]) (use 2 Pair that in \<open>auto simp: c\<close>)
  next
    case 3
    obtain label where w: "w = frame (PType gp) (gp_dst gp) (Length gp) (gp_src gp) label (Payload gp)"
      using Pair 3 ParsePacket_frameE [of "ce_raw env" w gp_empty gp] by metis
    have "FromNet t' = FromNet t \<and> (\<forall>x. ToDevice x \<in> set out \<longrightarrow> clear_flag (PType gp) = TypeDnsResponse)"
      using assms(2) Pair 3
      by (auto simp: packetRecv_def Let_def recv_ping_def recv_pong_def recv_dns_def udp_effects_def peer_write_def c
          split: if_splits option.splits sum.splits prod.splits selected.splits)
    moreover have "w ! 2 = PType gp" "2 < length w" using arg_cong [OF w, of "\<lambda>x. x ! 2"] by (simp_all add: w frame_def be16_def)
    ultimately show thesis using that(1) by auto
  qed
qed

text \<open>
  C5. Whatever datagram reaches a client, from whatever address: the only packets written to the
  device outside a session are DNS answers, and the only payload with content that is queued for
  the device is one sealed under the receive key of a ready session in the name of the datagram's
  source, type, destination and length included. There is no protection against repetition: the
  same datagram is accepted again at any later time and from any address, as long as that session
  lives and the queue has room.
\<close>

theorem device_input_authentic:
  assumes "noise_tight (ce_noise env)" and "lz4_empty (ce_lz4 env)"
    and "(noise_step (ce_noise env))\<^sup>*\<^sup>* (NewNoiseManager kp) (noiseMgr t)"
    and "packetRecv env stop w from t = Some (t', out, r)"
  shows "FromNet t' = FromNet t \<and> (\<forall>x. ToDevice x \<in> set out \<longrightarrow> 2 < length w \<and> clear_flag (w ! 2) = TypeDnsResponse) \<or>
    (\<exists>raw src s cs. out = [] \<and> FromNet t' = (FromNet t)\<lparr>ch_items := ch_items (FromNet t) @ [raw]\<rparr> \<and>
       GetSession (noiseMgr t) src = Some s \<and> IsReady (ns_Cipher s) \<and> Recver (ns_Cipher s) = Some cs \<and>
       (length raw \<le> HeaderLength \<or> (\<exists>ty m. sealed_under cs src ty m w \<and> unpacked (ce_lz4 env) ty m (drop HeaderLength raw))) \<and>
       (\<forall>now' from' ch. chan_open ch \<longrightarrow> length (ch_items ch) < ch_cap ch \<longrightarrow>
          (\<exists>t2. packetRecv (env\<lparr>ce_now := now'\<rparr>) False w from' (t'\<lparr>FromNet := ch\<rparr>) = Some (t2, [], PumpContinue) \<and>
                FromNet t2 = ch\<lparr>ch_items := ch_items ch @ [raw]\<rparr>)))"
proof -
  have tight: "keys_tight (noiseMgr t)" using assms(1,3) by (intro keys_reachable)
  then have inv: "noise_inv (noiseMgr t)" by (simp add: keys_tight_def)
  from inv assms(4) show ?thesis
  proof (cases rule: packetRecv_queues)
    case (2 gp s gp')
    have "session_inv s" using inv 2(3) by (rule noise_inv_get)
    then obtain cs where cs: "Recver (ns_Cipher s) = Some cs" using 2(4) by (auto simp: session_inv_def)
    then have ok: "aead_ok (cs_aead cs)" "aead_tight (cs_aead cs)" using tight 2(3) by (auto simp: keys_tight_def tight_def)
    have d: "DecryptParse (ce_lz4 env) (Some cs) gp = Some (gp', None)" using 2(5) cs by simp
    note auth = DecryptParse_authentic [OF 2(1) d ok assms(2)]
    have again: "\<exists>t2. packetRecv (env\<lparr>ce_now := now'\<rparr>) False w from' (t'\<lparr>FromNet := ch\<rparr>) = Some (t2, [], PumpContinue) \<and>
        FromNet t2 = ch\<lparr>ch_items := ch_items ch @ [raw_bytes gp']\<rparr>"
      if "chan_open ch" "length (ch_items ch) < ch_cap ch" for now' from' ch
    proof -
      have "packetRecv (env\<lparr>ce_now := now'\<rparr>) False w from' (t'\<lparr>FromNet := ch\<rparr>) =
          recv_data (env\<lparr>ce_now := now'\<rparr>) False from' gp ((count_received (length w) t')\<lparr>FromNet := ch\<rparr>)"
        using 2(1,2) by (simp add: packetRecv_def Let_def count_received_net)
      moreover have "GetSession (noiseMgr (count_received (length w) t')) (gp_src gp) = Some (UpdateLastSeen (ce_now env) s)"
        using 2(8) by (simp add: count_received_def)
      ultimately show ?thesis
        using recv_data_again [where env = "env\<lparr>ce_now := now'\<rparr>" and gp' = gp' and ch = ch and addr = from'] 2(4,5) that
        by (simp add: UpdateLastSeen_def)
    qed
    have "length (raw_bytes gp') \<le> HeaderLength \<or>
        (\<exists>ty m. sealed_under cs (gp_src gp) ty m w \<and> unpacked (ce_lz4 env) ty m (drop HeaderLength (raw_bytes gp')))"
      using auth by (meson not_le)
    with 2(3,4,6,7) cs again show ?thesis by blast
  qed blast
qed

lemma zero_aead_tight: "aead_tight zero_aead"
  unfolding aead_tight_def zero_aead_def by (auto split: if_splits) (metis append_take_drop_id)

lemma stage_noise_tight: "noise_tight stage_noise"
  by (simp add: noise_tight_def stage_noise_def zero_aead_ok zero_aead_tight)

text \<open>A manager that has answered a handshake of 10.0.6.2, and a datagram of that peer.\<close>

lemma demo_answered:
  "\<exists>m s. (noise_step stage_noise)\<^sup>*\<^sup>* (NewNoiseManager ([3], [3])) m \<and> GetSession m (IP4 10 0 6 2) = Some s \<and> session_keys s zero_aead zero_aead"
proof -
  have "\<exists>m s. handleResponderFirst stage_noise 0 100 (IP4 10 0 6 2) (replicate 96 1) (NewNoiseManager ([3], [3])) =
      Some (m, Handled (Some s) (Some (replicate 48 1))) \<and> GetSession m (IP4 10 0 6 2) = Some s \<and> session_keys s zero_aead zero_aead"
    using responder_replies [of "NewNoiseManager ([3], [3])" stage_noise 0 "replicate 96 1" 11 12 "replicate 48 1" "[1]" "[2]" zero_aead zero_aead 100 "IP4 10 0 6 2"]
    by (auto simp: stage_noise_def NewNoiseManager_def gm_wf_def)
  then obtain m s where m: "handleResponderFirst stage_noise 0 100 (IP4 10 0 6 2) (replicate 96 1) (NewNoiseManager ([3], [3])) =
      Some (m, Handled (Some s) (Some (replicate 48 1)))" "GetSession m (IP4 10 0 6 2) = Some s" "session_keys s zero_aead zero_aead" by blast
  have "GetSession (NewNoiseManager ([3], [3]) :: nat NoiseManager) (IP4 10 0 6 2) = None" by (simp add: NewNoiseManager_def GetSession_def)
  then have "noise_step stage_noise (NewNoiseManager ([3], [3])) m"
    using m(1) noise_step.packet [where nl = stage_noise and rnd = 0 and now = 100 and src = "IP4 10 0 6 2" and data = "replicate 96 1"]
    by (simp add: HandleNoisePacket_none)
  then show ?thesis using m(2,3) by blast
qed

definition demo_sealed :: bytes where
  "demo_sealed = frame TypeData (IP4 10 0 6 3) 17 (IP4 10 0 6 2) (replicate 8 0) (7 # replicate 16 0)"

lemma demo_sealed_opens:
  "\<exists>gp gp'. ParsePacket buf demo_sealed True None gp_empty = (gp, None) \<and> clear_flag (PType gp) = TypeData \<and> gp_src gp = IP4 10 0 6 2 \<and> gp_dst gp = IP4 10 0 6 3 \<and>
     DecryptParse null_lz4 (Some zero_state) gp = Some (gp', None) \<and> raw_bytes gp' = demo_sealed"
proof -
  obtain cap where "ParsePacket buf demo_sealed True None gp_empty =
      (gp_empty\<lparr>PType := TypeData, gp_dst := IP4 10 0 6 3, gp_src := IP4 10 0 6 2, Length := 17, Payload := 7 # replicate 16 0,
         RawData := Some \<lparr>sl_data = demo_sealed, sl_cap = cap\<rparr>\<rparr>, None)"
    using ParsePacket_frame [of "replicate 8 0" "7 # replicate 16 0" TypeData 17 buf "IP4 10 0 6 3" "IP4 10 0 6 2" True gp_empty]
    by (auto simp: validPayloadLength.simps demo_sealed_def)
  then show ?thesis
    by (simp add: DecryptParse_def Decrypt_def zero_aead_def store_raw_def raw_bytes_def HeaderLength_eq demo_sealed_def frame_def Let_def)
qed

theorem device_input_authentic_witness:
  "\<exists>m t' cs src ty txt. (noise_step stage_noise)\<^sup>*\<^sup>* (NewNoiseManager ([3], [3])) m \<and>
     packetRecv (demo_env 100) False demo_sealed demo_server_addr ((demo_ready 3 0)\<lparr>noiseMgr := m\<rparr>) = Some (t', [], PumpContinue) \<and>
     ch_items (FromNet t') = [demo_sealed] \<and> sealed_under cs src ty txt demo_sealed"
proof -
  obtain m s where m: "(noise_step stage_noise)\<^sup>*\<^sup>* (NewNoiseManager ([3], [3])) m" "GetSession m (IP4 10 0 6 2) = Some s"
    "session_keys s zero_aead zero_aead" using demo_answered by blast
  let ?t = "(demo_ready 3 0)\<lparr>noiseMgr := m\<rparr>"
  obtain gp gp' where gp: "ParsePacket (ce_raw (demo_env 100)) demo_sealed True None gp_empty = (gp, None)" "clear_flag (PType gp) = TypeData"
    "gp_src gp = IP4 10 0 6 2" "DecryptParse null_lz4 (Some zero_state) gp = Some (gp', None)" "raw_bytes gp' = demo_sealed"
    using demo_sealed_opens by blast
  let ?t1 = "count_received (length demo_sealed) ?t"
  have "\<exists>t'. recv_data (demo_env 100) False demo_server_addr gp (?t1\<lparr>FromNet := FromNet ?t1\<rparr>) = Some (t', [], PumpContinue) \<and>
      FromNet t' = (FromNet ?t1)\<lparr>ch_items := ch_items (FromNet ?t1) @ [raw_bytes gp']\<rparr>"
    by (rule recv_data_again [where s = s])
      (use m gp in \<open>simp_all add: session_keys_def count_received_def demo_ready_def NewTransport_def chan_open_def\<close>)
  then obtain t' where t': "packetRecv (demo_env 100) False demo_sealed demo_server_addr ?t = Some (t', [], PumpContinue)"
    "FromNet t' = (FromNet ?t)\<lparr>ch_items := ch_items (FromNet ?t) @ [demo_sealed]\<rparr>"
    using gp by (auto simp: packetRecv_def Let_def count_received_def)
  have "noise_tight (ce_noise (demo_env 100))" "lz4_empty (ce_lz4 (demo_env 100))"
    "(noise_step (ce_noise (demo_env 100)))\<^sup>*\<^sup>* (NewNoiseManager ([3], [3])) (noiseMgr ?t)"
    using m(1) by (simp_all add: stage_noise_tight lz4_empty_def null_lz4_def)
  note auth = device_input_authentic [OF this t'(1)]
  have "FromNet t' \<noteq> FromNet ?t" using t'(2) by (cases "FromNet ?t") simp
  moreover have "\<not> length demo_sealed \<le> HeaderLength" by (simp add: demo_sealed_def frame_def HeaderLength_eq)
  moreover have "raw = demo_sealed" if "FromNet t' = (FromNet ?t)\<lparr>ch_items := ch_items (FromNet ?t) @ [raw]\<rparr>" for raw
    using that t'(2) by (cases "FromNet ?t") simp
  ultimately have "\<exists>cs src ty txt. sealed_under cs src ty txt demo_sealed" using auth by metis
  moreover have "ch_items (FromNet t') = [demo_sealed]" using t'(2) by (simp add: demo_ready_def NewTransport_def)
  ultimately show ?thesis using t'(1) m(1) by blast
qed

section \<open>Who a session is with\<close>

text \<open>
  C22. A client does not look at the static key of the side that starts a handshake. Anyone with
  any key pair of the library who knows a client's public key (the server gives it to whoever
  asks) gets a session with it in the name of any virtual address \<open>v\<close> that has no session there,
  from any network address: the first message is answered, the reply gives both transport keys,
  what is then sealed in the name of \<open>v\<close> is written to the client's device, and what the client
  seals for \<open>v\<close> is sealed under a key the stranger has. The key published for \<open>v\<close> is not used.
\<close>

theorem peer_key_unchecked:
  assumes "client_rest env srv vB t" and "GetSession (noiseMgr t) v = None"
    and "noise_ok (ce_noise env) keypair" and "keypair (static_key (noiseMgr t))" and "keypair stranger"
    and "\<forall>d. ce_accept env d from" and "lz4_ok (ce_lz4 env)" and "p \<noteq> []" and "length p \<le> 1280"
  shows "\<exists>h1 m1 m2 h2 k1 k2 a1 a2 t1 s w g cs t2 t3 tail.
    nl_write (ce_noise env) (nl_initiator (ce_noise env) stranger (GetPublicKey (noiseMgr t)) rnd) = (h1, Inr (m1, None)) \<and>
    packetRecv env False (plain_frame (NewGamePacket v vB TypeData m1) 0) from t =
      Some (t1, [Datagram (plain_frame (NewGamePacket vB v TypeData m2) 0) from], PumpContinue) \<and>
    nl_read (ce_noise env) h1 m2 = (h2, Inr (Some (k1, k2))) \<and> nl_aead (ce_noise env) k1 = Inr a1 \<and> nl_aead (ce_noise env) k2 = Inr a2 \<and>
    GetSession (noiseMgr t1) v = Some s \<and> session_keys s a2 a1 \<and>
    EncodePacket (ce_lz4 env) pb cb b False compress (Some (fresh_cipher a2)) (data_packet v vB p) = (Some w, g, cs) \<and>
    packetRecv env False w from' t1 = Some (t2, [], PumpContinue) \<and>
    device_write t2 = Some (t3, [ToDevice (p @ tail)]) \<and> length tail \<le> 16"
proof -
  obtain h1 m1 g1 g2 m2 k1 k2 h2 a1 a2 where
    lib: "nl_write (ce_noise env) (nl_initiator (ce_noise env) stranger (GetPublicKey (noiseMgr t)) rnd) = (h1, Inr (m1, None))" "length m1 = 96"
    "nl_read (ce_noise env) (nl_responder (ce_noise env) (static_key (noiseMgr t)) (ce_rnd env)) m1 = (g1, Inr None)"
    "nl_write (ce_noise env) g1 = (g2, Inr (m2, Some (k1, k2)))" "length m2 = 48"
    "nl_read (ce_noise env) h1 m2 = (h2, Inr (Some (k1, k2)))"
    "nl_aead (ce_noise env) k1 = Inr a1" "aead_ok a1" "nl_aead (ce_noise env) k2 = Inr a2" "aead_ok a2"
    using noise_okE [OF assms(3,5,4), of rnd "ce_rnd env"] unfolding GetPublicKey_def by metis
  have wf: "gm_wf (sessions (noiseMgr t))" "myVip (noiseMgr t) = vB" "tunChan (noiseMgr t) = []" using assms(1) by (simp_all add: client_rest_def)
  obtain m s where m: "HandleNoisePacket (ce_noise env) (ce_rnd env) (ce_now env) v m1 (noiseMgr t) = Some (m, Handled (Some s) (Some m2))"
    "GetSession m v = Some s" "session_keys s a2 a1" "tunChan m = []" "gm_wf (sessions m)" "myVip m = vB"
    using responder_replies [OF wf(1) lib(3,4,7,9), of "ce_now env" v] HandleNoisePacket_none [OF assms(2)] wf(2,3) by metis
  obtain t1 where t1: "packetRecv env False (plain_frame (NewGamePacket v vB TypeData m1) 0) from t =
      Some (t1, [Datagram (plain_frame (NewGamePacket vB v TypeData m2) 0) from], PumpContinue)" "kept t t1" "noiseMgr t1 = m"
    using handshake_answered [OF assms(1,6) lib(2,5) m(1)] by blast
  have rest: "client_rest env srv vB t1" using kept_rest [OF t1(2) assms(1)] t1(3) m(4-6) by simp
  have ok: "aead_ok (cs_aead (fresh_cipher a2))" using lib(10) by simp
  obtain w g where w: "EncodePacket (ce_lz4 env) pb cb b False compress (Some (fresh_cipher a2)) (data_packet v vB p) = (Some w, g, Some (snd (GetNonce (fresh_cipher a2))))"
    "\<exists>g1. ParsePacket (ce_raw env) w True None gp_empty = (g1, None) \<and> clear_flag (PType g1) = TypeData \<and> gp_src g1 = v \<and> gp_dst g1 = vB"
    "\<exists>g1 g2 tail. ParsePacket (ce_raw env) w True None gp_empty = (g1, None) \<and> DecryptParse (ce_lz4 env) (Some (fresh_cipher a2)) g1 = Some (g2, None) \<and>
       length (raw_bytes g2) > HeaderLength \<and> drop HeaderLength (raw_bytes g2) = p @ tail \<and> length tail \<le> 16"
    using data_frame [OF ok refl assms(7-9), of pb cb b compress v vB] by metis
  then obtain g1 g2 tail where g: "ParsePacket (ce_raw env) w True None gp_empty = (g1, None)" "clear_flag (PType g1) = TypeData" "gp_src g1 = v"
    "DecryptParse (ce_lz4 env) (Some (fresh_cipher a2)) g1 = Some (g2, None)" "length (raw_bytes g2) > HeaderLength"
    "drop HeaderLength (raw_bytes g2) = p @ tail" "length tail \<le> 16" by auto
  have s: "GetSession (noiseMgr t1) v = Some s" "IsReady (ns_Cipher s)" "Recver (ns_Cipher s) = Some (fresh_cipher a2)"
    using t1(3) m(2,3) by (simp_all add: session_keys_def)
  obtain t2 t3 where "packetRecv env False w from' t1 = Some (t2, [], PumpContinue)" "device_write t2 = Some (t3, [ToDevice (p @ tail)])"
    using sealed_received [OF rest s g(1-6)] by blast
  with lib(1,6,7,9) t1(1) s(1) m(3) w(1) g(7) show ?thesis by blast
qed

text \<open>A client at 10.0.6.3, and a stranger with a key pair of its own that claims to be 10.0.6.2.\<close>

theorem peer_key_unchecked_witness:
  "\<exists>m1 m2 t1 s w t2 t3 tail.
    packetRecv (demo_env 100) False (plain_frame (NewGamePacket (IP4 10 0 6 2) (IP4 10 0 6 3) TypeData m1) 0) demo_server_addr (demo_new 3) =
      Some (t1, [Datagram (plain_frame (NewGamePacket (IP4 10 0 6 3) (IP4 10 0 6 2) TypeData m2) 0) demo_server_addr], PumpContinue) \<and>
    GetSession (noiseMgr t1) (IP4 10 0 6 2) = Some s \<and> session_keys s zero_aead zero_aead \<and>
    packetRecv (demo_env 100) False w demo_server_addr t1 = Some (t2, [], PumpContinue) \<and>
    device_write t2 = Some (t3, [ToDevice (demo_udp @ tail)])"
proof -
  have rest: "client_rest (demo_env 100) demo_server_addr (IP4 10 0 6 3) (demo_new 3)" "GetSession (noiseMgr (demo_new 3)) (IP4 10 0 6 2) = None"
    using demo_strangers by (simp_all add: strangers_def)
  have lib: "noise_ok (ce_noise (demo_env 100)) (\<lambda>_. True)" "\<forall>d. ce_accept (demo_env 100) d demo_server_addr" "lz4_ok (ce_lz4 (demo_env 100))"
    "demo_udp \<noteq> []" "length demo_udp \<le> 1280"
    by (simp_all add: stage_noise_ok null_lz4_ok demo_server_addr_def demo_udp_def)
  have key: "a = zero_aead" if "nl_aead (ce_noise (demo_env 100)) k = Inr a" for k a using that by (simp add: stage_noise_def)
  obtain m1 m2 k1 k2 a1 a2 t1 s w t2 t3 tail where
    r: "packetRecv (demo_env 100) False (plain_frame (NewGamePacket (IP4 10 0 6 2) (IP4 10 0 6 3) TypeData m1) 0) demo_server_addr (demo_new 3) =
      Some (t1, [Datagram (plain_frame (NewGamePacket (IP4 10 0 6 3) (IP4 10 0 6 2) TypeData m2) 0) demo_server_addr], PumpContinue)"
    and k: "nl_aead (ce_noise (demo_env 100)) k1 = Inr a1" "nl_aead (ce_noise (demo_env 100)) k2 = Inr a2"
    and s: "GetSession (noiseMgr t1) (IP4 10 0 6 2) = Some s" "session_keys s a2 a1"
    and d: "packetRecv (demo_env 100) False w demo_server_addr t1 = Some (t2, [], PumpContinue)"
      "device_write t2 = Some (t3, [ToDevice (demo_udp @ tail)])"
    using peer_key_unchecked [OF rest lib(1) TrueI TrueI lib(2-5), where stranger = "([9], [9])" and rnd = 0 and pb = "make_slice 0" and
        cb = "make_slice 0" and b = "make_slice 0" and compress = False and from' = demo_server_addr] by blast
  show ?thesis using r s [unfolded key [OF k(1)] key [OF k(2)]] d by blast
qed

section \<open>Whose address the server believes\<close>

text \<open>One heartbeat datagram \<open>w\<close> at the server, received from the address \<open>x\<close>.\<close>

definition ping_arrives :: "server_env \<Rightarrow> ('m, 'r) dns_lib \<Rightarrow> bytes \<Rightarrow> addrport \<Rightarrow> Hub \<Rightarrow> Hub" where
  "ping_arrives se dl w x h =
     fst (snd (listenUdp (se_lz4 se) dl (se_buf se) (se_probe se) (se_cbuf se) (se_frame se) False x (take 2048 w) (se_gp se) h))"

lemma route_heap: "route (h\<lparr>hub_heap := hp\<rparr>) = route h"
  by (simp add: route_def fun_eq_iff)

lemma ping_registers:
  assumes "hub_rest h" "registered h v d a" "length w \<le> 2048" "IsValid x"
    and "ParsePacket (se_buf se) w True None (se_gp se) = (g, None)" "clear_flag (PType g) = TypePing" "gp_src g = v"
  shows "hub_rest (ping_arrives se dl w x h)" and "registered (ping_arrives se dl w x h) v d x"
    and "registered h u c b \<Longrightarrow> c \<noteq> d \<Longrightarrow> registered (ping_arrives se dl w x h) u c b"
proof -
  have "route h v = Some d" using assms(2) by (simp add: registered_def)
  then have e: "ping_arrives se dl w x h = updateAddrCheck d x h"
    using assms(3,5-7) by (simp add: ping_arrives_def listenUdp_def Let_def route_def)
  have d: "d < length (hub_heap h)" using assms(1,2) routes_okD [of h v d] by (simp add: hub_rest_def registered_def)
  have "routes_ok (updateAddrCheck d x h)"
    using assms(1) by (simp add: hub_rest_def routes_ok_def updateAddrCheck_def set_client_def route_heap)
  then show "hub_rest (ping_arrives se dl w x h)" using assms(1) by (simp add: e hub_rest_def)
  show "registered (ping_arrives se dl w x h) v d x"
    using assms(2,4) updateAddrCheck_client [OF d, of x d] by (simp add: e registered_def route_def)
  show "registered h u c b \<Longrightarrow> c \<noteq> d \<Longrightarrow> registered (ping_arrives se dl w x h) u c b"
    using updateAddrCheck_client [OF d, of x c] by (simp add: e registered_def route_def)
qed

lemma pings_register:
  assumes "hub_rest h" "registered h v d a" "length w \<le> 2048" "list_all IsValid xs"
    and "ParsePacket (se_buf se) w True None (se_gp se) = (g, None)" "clear_flag (PType g) = TypePing" "gp_src g = v"
    and "registered h u c b" "c \<noteq> d"
  shows "hub_rest (fold (ping_arrives se dl w) xs h) \<and> registered (fold (ping_arrives se dl w) xs h) v d (last (a # xs)) \<and>
    registered (fold (ping_arrives se dl w) xs h) u c b"
  using assms(1,2,4,8)
proof (induction xs arbitrary: h a)
  case (Cons x xs)
  then have x: "IsValid x" "list_all IsValid xs" by simp_all
  note one = ping_registers [OF Cons.prems(1,2) assms(3) x(1) assms(5-7), where dl = dl]
  from Cons.IH [OF one(1,2) x(2) one(3) [OF Cons.prems(4) assms(9)]] show ?case by simp
qed simp

text \<open>
  C23. The server sends the packets for a virtual address to whoever sent the latest heartbeat in
  its name: after heartbeats for \<open>vB\<close> from any addresses \<open>xs\<close>, in this order, the next packet for
  \<open>vB\<close> goes to the last of them. The datagram is not authenticated, so the sequence may contain
  addresses that are not the client's; a heartbeat of the client itself takes its address back.
\<close>

theorem address_follows_heartbeats:
  assumes "hub_rest h" and "registered h vA c aA" and "registered h vB d aB" and "c \<noteq> d"
    and "ParsePacket (se_buf se) hb True None (se_gp se) = (g, None)" and "clear_flag (PType g) = TypePing" and "gp_src g = vB" and "length hb \<le> 2048"
    and "list_all IsValid xs"
    and "ParsePacket (se_buf se) w True None (se_gp se) = (g', None)" and "clear_flag (PType g') = TypeData" and "gp_src g' = vA" and "gp_dst g' = vB"
    and "length w \<le> 2048"
  shows "\<exists>h'. server_pass se dl aA w (fold (ping_arrives se dl hb) xs h) = Some (h', [(w, last (aB # xs))])"
  using pings_register [OF assms(1,3,8,9,5-7,2,4)] server_pass_relays [OF _ _ _ assms(14,10-13)] by blast

text \<open>A heartbeat of 10.0.6.3, one in its name from elsewhere, and then a packet for it.\<close>

theorem address_follows_heartbeats_witness:
  "\<exists>h'. server_pass demo_se echo_dns (demo_addr 1) demo_sealed
      (fold (ping_arrives demo_se echo_dns (plain_frame (NewGamePacket (IP4 10 0 6 3) ip4_zero TypePing []) 0)) [demo_addr 7, demo_addr 66]
         (demo_hub TypeUnknown (demo_addr 1) (demo_addr 7))) = Some (h', [(demo_sealed, demo_addr 66)])"
proof -
  have ty: "clear_flag TypePing = TypePing" "TypePing AND FlagCompress = 0" "TypePing \<noteq> TypeData" by (simp_all add: type_defs FlagCompress_def)
  obtain g where g: "ParsePacket (se_buf demo_se) (plain_frame (NewGamePacket (IP4 10 0 6 3) ip4_zero TypePing []) 0) True None (se_gp demo_se) = (g, None)"
    "clear_flag (PType g) = TypePing" "gp_src g = IP4 10 0 6 3"
    using ParsePacket_plain_frame [of "NewGamePacket (IP4 10 0 6 3) ip4_zero TypePing []" "se_buf demo_se" 0 True "se_gp demo_se"] ty by (auto simp: MaxPayloadSize_eq)
  obtain g' where g': "ParsePacket (se_buf demo_se) demo_sealed True None (se_gp demo_se) = (g', None)" "clear_flag (PType g') = TypeData"
    "gp_src g' = IP4 10 0 6 2" "gp_dst g' = IP4 10 0 6 3"
    using demo_sealed_opens [of "se_buf demo_se"] by (auto simp: demo_se_def)
  have "list_all IsValid [demo_addr 7, demo_addr 66]" by (simp add: IsValid_def demo_addr_def)
  from address_follows_heartbeats [OF demo_hub_registered [where nt = TypeUnknown] _ g _ this g', where dl = echo_dns] show ?thesis
    by (simp add: plain_frame_def frame_def demo_sealed_def)
qed

end
