(* ===== verification/ConnLife.thy ===== *)
theory ConnLife
  imports Server
begin

text \<open>
  The life of one connection of the server (\<^verbatim>\<open>server_ws.go\<close>): the two goroutines
  \<^verbatim>\<open>readPump\<close> and \<^verbatim>\<open>writePump\<close> that \<^verbatim>\<open>serverWS\<close> starts, where each of them
  waits, and how the connection ends, so that the address of the client is retained and its
  route removed.
\<close>

section \<open>The goroutines of a connection\<close>

text \<open>
  The reader is at the condition of its loop, in \<^verbatim>\<open>NextReader\<close>, in the send of the ping
  handler that \<^verbatim>\<open>NextReader\<close> calls, or has returned.
\<close>

datatype reader = AtHead | InRead | InPong | Gone

record conn =
  cn_hub :: Hub
  cn_gp :: GamePacket
  cn_up :: bool
  cn_cancelled :: bool
  cn_reader :: reader
  cn_writing :: bool
  cn_serving :: bool

definition start_conn :: "Hub \<Rightarrow> conn" where
  "start_conn h = \<lparr>cn_hub = snd (connect h), cn_gp = gp_empty, cn_up = True, cn_cancelled = False,
     cn_reader = AtHead, cn_writing = True, cn_serving = True\<rparr>"

abbreviation queue :: "cref \<Rightarrow> conn \<Rightarrow> GamePacket chan" where
  "queue c s \<equiv> controlChan (client (cn_hub s) c)"

text \<open>
  One result of \<^verbatim>\<open>NextReader\<close>, handled by the turn of \<open>readPump\<close>; a ping stays within the
  call. \<open>PumpStop\<close> is a return after \<^verbatim>\<open>cancel()\<close>.
\<close>

definition read_event :: "cref \<Rightarrow> ws_event \<Rightarrow> conn \<Rightarrow> conn" where
  "read_event c ev s =
     (case readPump (cn_cancelled s) c ev (cn_gp s) (cn_hub s) of
        (gp, h, p) \<Rightarrow>
          s\<lparr>cn_hub := h, cn_gp := gp, cn_cancelled := (cn_cancelled s \<or> p = PumpStop),
            cn_reader := (case p of
                            PumpContinue \<Rightarrow> if ev = WsPing then InRead else AtHead
                          | PumpBlocked \<Rightarrow> InPong
                          | _ \<Rightarrow> Gone)\<rparr>)"

text \<open>
  The reader without a message: it tests the context, a read of a connection that is down fails,
  and the send of the ping handler goes on when the queue has room.
\<close>

definition reader_turn :: "cref \<Rightarrow> conn \<Rightarrow> conn option" where
  "reader_turn c s =
     (case cn_reader s of
        AtHead \<Rightarrow> Some (s\<lparr>cn_reader := (if cn_cancelled s then Gone else InRead)\<rparr>)
      | InRead \<Rightarrow> if cn_up s then None else Some (read_event c WsClosed s)
      | InPong \<Rightarrow>
          (case chan_send pongGp (queue c s) of
             Sent ch \<Rightarrow> Some (s\<lparr>cn_hub := set_client c ((client (cn_hub s) c)\<lparr>controlChan := ch\<rparr>) (cn_hub s), cn_reader := InRead\<rparr>)
           | _ \<Rightarrow> None)
      | Gone \<Rightarrow> None)"

text \<open>
  The writer takes a packet; \<open>PumpStop\<close> is again a return after \<^verbatim>\<open>cancel()\<close> and
  \<open>PumpReturn\<close> one without, after \<^verbatim>\<open>w.Close()\<close> has failed.
\<close>

definition writer_turn :: "lz4 \<Rightarrow> slice \<Rightarrow> slice \<Rightarrow> slice \<Rightarrow> bool \<Rightarrow> bool \<Rightarrow> cref \<Rightarrow> conn \<Rightarrow> conn option" where
  "writer_turn z pb cb buf writer_ok close_ok c s =
     (if \<not> cn_writing s then None
      else case writePump z pb cb buf writer_ok close_ok c (cn_hub s) of
             None \<Rightarrow> None
           | Some (h, f, p) \<Rightarrow>
               Some (s\<lparr>cn_hub := h, cn_writing := (p = PumpContinue), cn_cancelled := (cn_cancelled s \<or> p = PumpStop)\<rparr>))"

definition serve_turn :: "int \<Rightarrow> int \<Rightarrow> cref \<Rightarrow> conn \<Rightarrow> conn option" where
  "serve_turn rt now c s =
     (if cn_serving s \<and> cn_cancelled s then
        Some (s\<lparr>cn_up := False, cn_hub := disconnect rt now c (cn_hub s), cn_serving := False\<rparr>)
      else None)"

text \<open>What the three goroutines do by themselves; a writer at its \<^verbatim>\<open>select\<close> may also see the end of the context.\<close>

inductive conn_turn :: "lz4 \<Rightarrow> int \<Rightarrow> cref \<Rightarrow> conn \<Rightarrow> conn \<Rightarrow> bool" for z rt c where
  reads: "reader_turn c s = Some s' \<Longrightarrow> conn_turn z rt c s s'"
| writes: "writer_turn z pb cb buf w cl c s = Some s' \<Longrightarrow> conn_turn z rt c s s'"
| stops: "cn_writing s \<Longrightarrow> cn_cancelled s \<Longrightarrow> conn_turn z rt c s (s\<lparr>cn_writing := False\<rparr>)"
| serves: "serve_turn rt now c s = Some s' \<Longrightarrow> conn_turn z rt c s s'"

text \<open>
  What happens to them: a message arrives, the connection goes down, and the rest of the server
  changes the hub; of this client, it only offers packets to the queue, without waiting, and takes
  over the data address.
\<close>

definition others_keep :: "cref \<Rightarrow> Hub \<Rightarrow> Hub \<Rightarrow> bool" where
  "others_keep c h h' \<longleftrightarrow> length (hub_heap h) \<le> length (hub_heap h') \<and>
     (\<exists>gps a. client h' c = (client h c)\<lparr>controlChan := foldl (\<lambda>ch g. fst (try_send g ch)) (controlChan (client h c)) gps, dataAddr := a\<rparr>)"

inductive conn_event :: "cref \<Rightarrow> conn \<Rightarrow> conn \<Rightarrow> bool" for c where
  message: "cn_reader s = InRead \<Longrightarrow> cn_up s \<Longrightarrow> conn_event c s (read_event c ev s)"
| down: "conn_event c s (s\<lparr>cn_up := False\<rparr>)"
| others: "others_keep c (cn_hub s) h' \<Longrightarrow> conn_event c s (s\<lparr>cn_hub := h'\<rparr>)"

definition conn_any :: "lz4 \<Rightarrow> int \<Rightarrow> cref \<Rightarrow> conn \<Rightarrow> conn \<Rightarrow> bool" where
  "conn_any z rt c s s' \<longleftrightarrow> conn_turn z rt c s s' \<or> conn_event c s s'"

text \<open>Every state of a connection that was accepted.\<close>

definition conn_reachable :: "lz4 \<Rightarrow> int \<Rightarrow> cref \<Rightarrow> conn \<Rightarrow> bool" where
  "conn_reachable z rt c s \<longleftrightarrow> (\<exists>h. c = length (hub_heap h) \<and> (conn_any z rt c)\<^sup>*\<^sup>* (start_conn h) s)"

section \<open>Invariant\<close>

definition queue_ok :: "cref \<Rightarrow> Hub \<Rightarrow> bool" where
  "queue_ok c h \<longleftrightarrow> c < length (hub_heap h) \<and> \<not> ch_closed (controlChan (client h c)) \<and> ch_cap (controlChan (client h c)) = 16"

definition conn_inv :: "cref \<Rightarrow> conn \<Rightarrow> bool" where
  "conn_inv c s \<longleftrightarrow> queue_ok c (cn_hub s) \<and> (cn_reader s = Gone \<longrightarrow> cn_cancelled s) \<and> (\<not> cn_serving s \<longrightarrow> cn_cancelled s \<and> \<not> cn_up s)"

lemma try_send_kept [simp]: "ch_cap (fst (try_send g ch)) = ch_cap ch" "ch_closed (fst (try_send g ch)) = ch_closed ch"
  by (auto simp: try_send_def chan_send_def)

lemma offers_kept [simp]:
  "ch_cap (foldl (\<lambda>ch g. fst (try_send g ch)) ch gps) = ch_cap ch" "ch_closed (foldl (\<lambda>ch g. fst (try_send g ch)) ch gps) = ch_closed ch"
  by (induction gps arbitrary: ch) simp_all

lemma select_send_kept: "ch_cap (fst (select_send stop g ch)) = ch_cap ch" "ch_closed (fst (select_send stop g ch)) = ch_closed ch"
  by (auto simp: select_send_def try_send_def chan_send_def)

lemma queue_ok_set: "queue_ok c h \<Longrightarrow> ch_cap (controlChan cl) = 16 \<Longrightarrow> \<not> ch_closed (controlChan cl) \<Longrightarrow> queue_ok c (set_client c cl h)"
  by (simp add: queue_ok_def set_client_def)

lemma queue_ok_tables [simp]:
  "queue_ok c (h\<lparr>hub_router := r\<rparr>) = queue_ok c h" "queue_ok c (h\<lparr>hub_dnsMap := d\<rparr>) = queue_ok c h"
  by (simp_all add: queue_ok_def)

lemma queue_ok_send: "queue_ok c h \<Longrightarrow> queue_ok c (send_control stop c g h)"
  unfolding send_control_def by (rule queue_ok_set) (simp_all add: select_send_kept queue_ok_def)

lemma queue_ok_message: "queue_ok c h \<Longrightarrow> queue_ok c (fst (HandleWSMessage stop c gp h))"
proof -
  assume ok: "queue_ok c h"
  have "queue_ok c (handshake_assign d c p h)" for d p
    using ok by (auto simp: handshake_assign_def getIp_def Let_def queue_ok_def set_client_def split: option.split)
  then have "queue_ok c (fst (handshake_publish st c (handshake_assign d c p h)))" for st d p
    by (auto simp: handshake_publish_def Let_def addDns_def addClient_def intro!: queue_ok_send)
  moreover have "queue_ok c (fst (handleNoiseHandshake stop c gp h))"
    using ok by (auto simp: handleNoiseHandshake_def Let_def intro: queue_ok_send split: option.split)
  ultimately show ?thesis
    using ok by (auto simp: HandleWSMessage_def handleHandshake_def handleP2PEstablished_def handleP2PClosed_def Let_def queue_ok_def
        split: option.split WSHandler.split)
qed

lemma queue_ok_read: "queue_ok c h \<Longrightarrow> queue_ok c (fst (snd (readPump stop c ev gp h)))"
proof (cases ev)
  case WsPing
  assume ok: "queue_ok c h"
  then have "chan_send pongGp (controlChan (client h c)) = Sent ch \<Longrightarrow> queue_ok c (set_client c ((client h c)\<lparr>controlChan := ch\<rparr>) h)" for ch
    by (intro queue_ok_set) (auto simp: chan_send_def queue_ok_def split: if_splits)
  with ok WsPing show ?thesis by (auto simp: readPump_def split: send_outcome.split)
next
  case (WsBinary d)
  assume "queue_ok c h"
  then show ?thesis
    using WsBinary queue_ok_message [of c h stop "fst (ParseControl gp d)"] by (auto simp: readPump_def split: prod.split option.split)
qed (auto simp: readPump_def)

lemma queue_ok_write:
  assumes "queue_ok c h" and "writePump z pb cb buf w cl c h = Some (h', f, p)"
  shows "queue_ok c h'" and "length (ch_items (controlChan (client h' c))) < length (ch_items (controlChan (client h c)))"
    and "hub_retentionMap h' = hub_retentionMap h" and "\<exists>ch. client h' c = (client h c)\<lparr>controlChan := ch\<rparr>"
proof -
  obtain gp ch where r: "chan_recv (controlChan (client h c)) = Some (gp, ch)"
    using assms by (auto simp: writePump_def queue_ok_def split: option.splits)
  then have h': "h' = set_client c ((client h c)\<lparr>controlChan := ch\<rparr>) h"
    using assms(2) by (auto simp: writePump_def Let_def split: if_splits prod.splits)
  have ch: "ch_cap ch = ch_cap (controlChan (client h c))" "ch_closed ch = ch_closed (controlChan (client h c))"
    "length (ch_items ch) < length (ch_items (controlChan (client h c)))"
    using r by (auto simp: chan_recv_def split: list.splits)
  show "queue_ok c h'" using assms(1) ch by (simp add: h' queue_ok_def set_client_def)
  show "length (ch_items (controlChan (client h' c))) < length (ch_items (controlChan (client h c)))"
    using assms(1) ch by (simp add: h' queue_ok_def set_client_def)
  show "hub_retentionMap h' = hub_retentionMap h" by (simp add: h' set_client_def)
  show "\<exists>ch. client h' c = (client h c)\<lparr>controlChan := ch\<rparr>" using assms(1) by (auto simp: h' queue_ok_def set_client_def)
qed

lemma disconnect_heap: "hub_heap (disconnect rt now c h) = hub_heap h"
  by (simp add: disconnect_def removeClient_def retain_def Let_def split: option.split)

lemma closed_event: "read_event c WsClosed s = s\<lparr>cn_cancelled := True, cn_reader := Gone\<rparr>"
  by (simp add: read_event_def readPump_def)

lemma readPump_no_return: "snd (snd (readPump stop c ev gp h)) \<noteq> PumpReturn"
  by (cases ev) (auto simp: readPump_def split: send_outcome.split prod.split option.split)

lemma read_event_inv:
  assumes "conn_inv c s" and "cn_serving s \<or> \<not> cn_up s"
  shows "conn_inv c (read_event c ev s)"
  using assms queue_ok_read [of c "cn_hub s" "cn_cancelled s" ev "cn_gp s"]
    readPump_no_return [of "cn_cancelled s" c ev "cn_gp s" "cn_hub s"]
  by (auto simp: conn_inv_def read_event_def split: prod.split pump.split)

lemma reader_turn_inv: "conn_inv c s \<Longrightarrow> reader_turn c s = Some s' \<Longrightarrow> conn_inv c s'"
  by (auto simp: reader_turn_def conn_inv_def closed_event chan_send_def queue_ok_def set_client_def
      split: reader.splits if_splits send_outcome.splits)

lemma conn_turn_inv: "conn_turn z rt c s s' \<Longrightarrow> conn_inv c s \<Longrightarrow> conn_inv c s'"
proof (induction rule: conn_turn.induct)
  case (reads s s')
  then show ?case using reader_turn_inv by blast
next
  case (writes pb cb buf w cl s s')
  then show ?case using queue_ok_write(1) [of c "cn_hub s" z pb cb buf w cl]
    by (auto simp: writer_turn_def conn_inv_def split: if_splits option.splits)
next
  case (serves now s s')
  then show ?case by (auto simp: serve_turn_def conn_inv_def queue_ok_def disconnect_heap split: if_splits)
qed (simp add: conn_inv_def)

lemma conn_event_inv: "conn_event c s s' \<Longrightarrow> conn_inv c s \<Longrightarrow> conn_inv c s'"
proof (induction rule: conn_event.induct)
  case (message s ev)
  then show ?case by (intro read_event_inv) (auto simp: conn_inv_def)
next
  case (others s h')
  then show ?case by (auto simp: conn_inv_def others_keep_def queue_ok_def)
qed (simp add: conn_inv_def)

interpretation conn_run: preserved "conn_any z rt c" "conn_inv c" for z rt c
  by unfold_locales (auto simp: conn_any_def intro: conn_turn_inv conn_event_inv)

lemma conn_reachable_inv: "conn_reachable z rt c s \<Longrightarrow> conn_inv c s"
proof -
  assume "conn_reachable z rt c s"
  then obtain h where h: "c = length (hub_heap h)" "(conn_any z rt c)\<^sup>*\<^sup>* (start_conn h) s" by (auto simp: conn_reachable_def)
  have "conn_inv c (start_conn h)"
    by (simp add: conn_inv_def start_conn_def queue_ok_def connect_def newClient_def h(1) nth_append make_chan_def)
  with h(2) show ?thesis by (rule conn_run.reach_inv)
qed

section \<open>The rest of the server\<close>

text \<open>What the other loops of the server do to the client of this connection is what the model allows them.\<close>

lemma others_keep_heap: "hub_heap h' = hub_heap h \<Longrightarrow> others_keep c h h'"
  unfolding others_keep_def by (intro conjI exI [of _ "[]"] exI [of _ "dataAddr (client h c)"]) simp_all

lemma others_keep_trans:
  assumes "others_keep c h h1" and "others_keep c h1 h2"
  shows "others_keep c h h2"
proof -
  obtain xs a ys b where
    "client h1 c = (client h c)\<lparr>controlChan := foldl (\<lambda>ch g. fst (try_send g ch)) (controlChan (client h c)) xs, dataAddr := a\<rparr>"
    "client h2 c = (client h1 c)\<lparr>controlChan := foldl (\<lambda>ch g. fst (try_send g ch)) (controlChan (client h1 c)) ys, dataAddr := b\<rparr>"
    using assms unfolding others_keep_def by blast
  then have "client h2 c = (client h c)\<lparr>controlChan := foldl (\<lambda>ch g. fst (try_send g ch)) (controlChan (client h c)) (xs @ ys), dataAddr := b\<rparr>"
    by simp
  then show ?thesis using assms unfolding others_keep_def by (meson le_trans)
qed

lemma others_keep_other: "d \<noteq> c \<or> length (hub_heap h) \<le> c \<Longrightarrow> others_keep c h (set_client d cl h)"
  unfolding others_keep_def set_client_def
  by (intro conjI exI [of _ "[]"] exI [of _ "dataAddr (client h c)"]) (cases "d = c"; simp add: list_update_beyond)+

lemma others_keep_try: "others_keep c h (trySendControl d g h)"
proof (cases "d = c \<and> c < length (hub_heap h)")
  case True
  then show ?thesis
    unfolding others_keep_def trySendControl_def set_client_def
    by (intro conjI exI [of _ "[g]"] exI [of _ "dataAddr (client h c)"]) simp_all
next
  case False
  then show ?thesis unfolding trySendControl_def by (intro others_keep_other) auto
qed

lemma others_keep_address: "others_keep c h (updateAddrCheck d a h)"
proof (cases "d = c \<and> c < length (hub_heap h)")
  case True
  then show ?thesis
    unfolding others_keep_def updateAddrCheck_def set_client_def
    by (intro conjI exI [of _ "[]"] exI [of _ a]) simp_all
next
  case False
  then show ?thesis unfolding updateAddrCheck_def by (auto intro: others_keep_other others_keep_heap)
qed

lemma others_keep_command: "send_command d s t a nt h = Some h' \<Longrightarrow> others_keep c h h'"
  by (auto simp: send_command_def others_keep_try split: option.splits)

lemma others_keep_commands: "handleP2PCommand s d task h = Some h' \<Longrightarrow> others_keep c h h'"
  by (auto simp: handleP2PCommand_def Let_def nat_type_defs dest!: others_keep_command [where c = c]
      intro: others_keep_trans others_keep_trans [OF others_keep_try] others_keep_heap split: option.splits if_splits)

lemma others_keep_task: "handleP2PTask h = Some (Some h') \<Longrightarrow> others_keep c h h'"
  by (auto simp: handleP2PTask_def Let_def dest!: others_keep_commands [where c = c]
      intro: others_keep_heap others_keep_trans [OF others_keep_heap, rotated] split: option.splits prod.splits)

lemma others_keep_check: "listenCheck a content gp h = Some (gp', h') \<Longrightarrow> others_keep c h h'"
  by (auto simp: listenCheck_def Let_def dest!: others_keep_command [where c = c] intro: others_keep_heap split: option.splits prod.splits if_splits)

lemma others_keep_relay: "others_keep c h (fst (transfer stop st tp h))"
proof -
  have "hub_heap (fst (transfer stop st tp h)) = hub_heap h \<or>
      (\<exists>d. hub_heap (fst (transfer stop st tp h)) = hub_heap (updateAddrCheck d (tp_srcAddr tp) h))"
    by (auto simp: transfer_def newP2PTask_def Let_def split: option.split prod.split selected.split)
  then show ?thesis using others_keep_heap others_keep_trans [OF others_keep_address others_keep_heap] by blast
qed

section \<open>The end\<close>

text \<open>Every turn of the three goroutines makes this smaller.\<close>

definition reader_weight :: "reader \<Rightarrow> nat" where
  "reader_weight r = (case r of InPong \<Rightarrow> 4 | AtHead \<Rightarrow> 3 | InRead \<Rightarrow> 2 | Gone \<Rightarrow> 0)"

definition turns_left :: "cref \<Rightarrow> conn \<Rightarrow> nat" where
  "turns_left c s = length (ch_items (queue c s)) + reader_weight (cn_reader s) + of_bool (cn_writing s) + of_bool (cn_serving s)"

lemma conn_turn_decreases: "conn_turn z rt c s s' \<Longrightarrow> conn_inv c s \<Longrightarrow> turns_left c s' < turns_left c s"
proof (induction rule: conn_turn.induct)
  case (reads s s')
  then show ?case
    by (auto simp: reader_turn_def conn_inv_def turns_left_def reader_weight_def closed_event chan_send_def queue_ok_def set_client_def
        split: reader.splits if_splits send_outcome.splits)
next
  case (writes pb cb buf w cl s s')
  then show ?case using queue_ok_write(2) [of c "cn_hub s" z pb cb buf w cl]
    by (fastforce simp: writer_turn_def conn_inv_def turns_left_def split: if_splits option.splits)
next
  case (serves now s s')
  then show ?case by (auto simp: serve_turn_def turns_left_def disconnect_heap split: if_splits)
qed (simp add: turns_left_def)

lemma conn_turns_bounded: "(conn_turn z rt c ^^ n) s s' \<Longrightarrow> conn_inv c s \<Longrightarrow> n + turns_left c s' \<le> turns_left c s"
proof (induction n arbitrary: s')
  case (Suc n)
  then obtain s1 where s1: "(conn_turn z rt c ^^ n) s s1" "conn_turn z rt c s1 s'" by auto
  have "(conn_any z rt c)\<^sup>*\<^sup>* s s1"
    using relpowp_imp_rtranclp [OF s1(1)] by (rule rtranclp_mono [THEN predicate2D, rotated]) (auto simp: conn_any_def)
  then have "conn_inv c s1" using Suc.prems(2) by (rule conn_run.reach_inv)
  then show ?case using Suc.IH [OF s1(1) Suc.prems(2)] conn_turn_decreases [OF s1(2)] by simp
qed simp

text \<open>
  The writer has returned without cancelling and the reader waits in the ping handler for room
  in the queue that the writer no longer empties.
\<close>

definition stuck :: "cref \<Rightarrow> conn \<Rightarrow> bool" where
  "stuck c s \<longleftrightarrow> cn_serving s \<and> \<not> cn_cancelled s \<and> \<not> cn_writing s \<and> cn_reader s = InPong \<and> length (ch_items (queue c s)) \<ge> ch_cap (queue c s)"

lemma stuck_no_turn: "stuck c s \<Longrightarrow> \<not> conn_turn z rt c s s'"
  by (auto simp: stuck_def conn_turn.simps reader_turn_def writer_turn_def serve_turn_def chan_send_def)

lemma offers_full: "ch_cap ch \<le> length (ch_items ch) \<Longrightarrow> foldl (\<lambda>ch g. fst (try_send g ch)) ch gps = ch"
  by (induction gps) (simp_all add: try_send_def chan_send_def)

lemma stuck_event: "stuck c s \<Longrightarrow> conn_event c s s' \<Longrightarrow> stuck c s'"
  by (auto simp: stuck_def conn_event.simps others_keep_def offers_full)

interpretation stuck_run: preserved "conn_any z rt c" "stuck c" for z rt c
  by unfold_locales (auto simp: conn_any_def stuck_no_turn intro: stuck_event)

lemma no_turn_left:
  assumes "conn_inv c s" and "\<not> cn_up s" and "\<And>s'. \<not> conn_turn z rt c s s'"
  shows "\<not> cn_serving s \<and> \<not> cn_writing s \<or> stuck c s"
proof -
  have none: "reader_turn c s = None" "\<And>pb cb buf w cl. writer_turn z pb cb buf w cl c s = None" "serve_turn rt now c s = None"
    "\<not> (cn_writing s \<and> cn_cancelled s)" for now
    using assms(3) conn_turn.intros by (metis option.exhaust)+
  have op: "\<not> ch_closed (queue c s)" "ch_cap (queue c s) = 16" using assms(1) by (simp_all add: conn_inv_def queue_ok_def)
  have idle: "\<not> cn_writing s \<or> ch_items (queue c s) = []"
  proof (cases "ch_items (queue c s)")
    case (Cons gp rest)
    then have "\<exists>r. writePump z (make_slice 0) (make_slice 0) (make_slice 0) False True c (cn_hub s) = Some r"
      by (simp add: writePump_def chan_recv_def Let_def)
    then show ?thesis using none(2) [of "make_slice 0" "make_slice 0" "make_slice 0" False True] by (auto simp: writer_turn_def split: if_splits)
  qed simp
  from none(1) have "cn_reader s = Gone \<or> cn_reader s = InPong \<and> \<not> length (ch_items (queue c s)) < 16"
    using assms(2) op by (auto simp: reader_turn_def chan_send_def split: reader.splits if_splits)
  then show ?thesis
  proof
    assume "cn_reader s = Gone"
    then have "cn_cancelled s" using assms(1) by (simp add: conn_inv_def)
    then show ?thesis using none(3) [of 0] none(4) by (auto simp: serve_turn_def split: if_splits)
  next
    assume r: "cn_reader s = InPong \<and> \<not> length (ch_items (queue c s)) < 16"
    then have "\<not> cn_writing s" using idle by auto
    then show ?thesis using r op none(3) [of 0] by (auto simp: stuck_def serve_turn_def split: if_splits)
  qed
qed

text \<open>The identity of the client is kept for it to come back.\<close>

definition retained :: "cref \<Rightarrow> conn \<Rightarrow> bool" where
  "retained c s \<longleftrightarrow> (let cl = client (cn_hub s) c in virtualIp cl = [] \<or>
     (\<exists>e. gm_get (hub_retentionMap (cn_hub s)) (clientID cl) = Some \<lparr>oc_virtualIp = virtualIp cl, oc_hostname = hostname cl, oc_expiry = e\<rparr>))"

lemma conn_turn_retains:
  assumes "conn_turn z rt c s s'" and "conn_inv c s" and "\<not> cn_up s" and "cn_serving s \<or> retained c s"
  shows "\<not> cn_up s' \<and> (cn_serving s' \<or> retained c s')"
  using assms(1)
proof cases
  case reads
  then show ?thesis using assms(2-4)
    by (auto simp: reader_turn_def retained_def conn_inv_def queue_ok_def closed_event chan_send_def set_client_def Let_def
        split: reader.splits if_splits send_outcome.splits)
next
  case (writes pb cb buf w cl)
  then show ?thesis using assms(2-4) queue_ok_write(3,4) [of c "cn_hub s" z pb cb buf w cl]
    by (fastforce simp: writer_turn_def retained_def conn_inv_def Let_def split: if_splits option.splits)
next
  case (serves now)
  then show ?thesis using disconnect_kept [of "cn_hub s" c rt now]
    by (auto simp: serve_turn_def retained_def disconnect_heap Let_def split: if_splits)
qed (use assms in \<open>auto simp: retained_def\<close>)

lemma conn_turns_retain:
  assumes "(conn_turn z rt c)\<^sup>*\<^sup>* s s'" and "conn_inv c s" and "\<not> cn_up s" and "cn_serving s \<or> retained c s"
  shows "conn_inv c s' \<and> \<not> cn_up s' \<and> (cn_serving s' \<or> retained c s')"
  using assms by (induction rule: rtranclp_induct) (auto dest: conn_turn_retains conn_turn_inv)


text \<open>
  It does happen: a packet is in the queue, its flush fails, and as many pings as the queue has
  room for, and one more, have arrived before the reader sees that the connection is down.
\<close>

lemma ping_event:
  assumes "cn_reader s = InRead" and "cn_up s" and "c < length (hub_heap (cn_hub s))" and "\<not> ch_closed (queue c s)"
  shows "conn_event c s (read_event c WsPing s)"
    and "length (ch_items (queue c s)) < ch_cap (queue c s) \<Longrightarrow>
      read_event c WsPing s = s\<lparr>cn_hub := set_client c ((client (cn_hub s) c)\<lparr>controlChan := (queue c s)\<lparr>ch_items := ch_items (queue c s) @ [pongGp]\<rparr>\<rparr>) (cn_hub s)\<rparr>"
    and "\<not> length (ch_items (queue c s)) < ch_cap (queue c s) \<Longrightarrow> read_event c WsPing s = s\<lparr>cn_reader := InPong\<rparr>"
proof -
  show "conn_event c s (read_event c WsPing s)" using assms(1,2) by (rule conn_event.message)
qed (use assms in \<open>cases s, simp add: read_event_def readPump_def chan_send_def\<close>)+

lemma pings_fill:
  assumes "cn_reader s = InRead" and "cn_up s" and "queue_ok c (cn_hub s)" and "cn_serving s" and "\<not> cn_cancelled s" and "\<not> cn_writing s"
  shows "\<exists>s'. (conn_any z rt c)\<^sup>*\<^sup>* s s' \<and> stuck c s'"
  using assms
proof (induction "16 - length (ch_items (queue c s))" arbitrary: s rule: less_induct)
  case less
  have ok: "c < length (hub_heap (cn_hub s))" "\<not> ch_closed (queue c s)" "ch_cap (queue c s) = 16" using less.prems(3) by (simp_all add: queue_ok_def)
  note ev = ping_event [OF less.prems(1,2) ok(1,2)]
  have step: "(conn_any z rt c)\<^sup>*\<^sup>* s (read_event c WsPing s)" using ev(1) by (auto simp: conn_any_def)
  show ?case
  proof (cases "length (ch_items (queue c s)) < 16")
    case True
    have "\<exists>s'. (conn_any z rt c)\<^sup>*\<^sup>* (read_event c WsPing s) s' \<and> stuck c s'"
      using less.prems True ok ev(2) by (intro less.hyps) (simp_all add: queue_ok_def set_client_def)
    then show ?thesis using step by (meson rtranclp_trans)
  next
    case False
    then have "stuck c (read_event c WsPing s)" using ev(3) ok(3) less.prems by (simp add: stuck_def)
    then show ?thesis using step by blast
  qed
qed

lemma connection_sticks:
  assumes "conn_reachable z rt c s" and "cn_reader s = InRead" and "cn_up s" and "cn_serving s" and "\<not> cn_cancelled s" and "cn_writing s"
    and "ch_items (queue c s) = g # rest" and "PType g \<noteq> TypePong"
  shows "\<exists>s'. conn_reachable z rt c s' \<and> stuck c s'"
proof -
  have ok: "queue_ok c (cn_hub s)" using conn_reachable_inv [OF assms(1)] by (simp add: conn_inv_def)
  obtain h f where h: "writePump z (make_slice 0) (make_slice 0) (make_slice 0) True False c (cn_hub s) = Some (h, f, PumpReturn)"
    using assms(7,8) by (cases "EncodePacket z (make_slice 0) (make_slice 0) (make_slice 0) True False None g")
      (auto simp: writePump_def chan_recv_def Let_def)
  let ?s = "s\<lparr>cn_hub := h, cn_writing := False\<rparr>"
  have "writer_turn z (make_slice 0) (make_slice 0) (make_slice 0) True False c s = Some ?s"
    using h assms(5,6) by (cases s) (simp add: writer_turn_def)
  then have "conn_any z rt c s ?s" unfolding conn_any_def by (blast intro: conn_turn.writes)
  moreover obtain s' where s': "(conn_any z rt c)\<^sup>*\<^sup>* ?s s'" "stuck c s'"
    using pings_fill [of ?s c z rt] assms(2-5) queue_ok_write(1) [OF ok h] by auto
  ultimately have "(conn_any z rt c)\<^sup>*\<^sup>* s s'" by (meson converse_rtranclp_into_rtranclp)
  then have "conn_reachable z rt c s'" using assms(1) unfolding conn_reachable_def by (blast intro: rtranclp_trans)
  then show ?thesis using s'(2) by blast
qed

text \<open>A connection that goes down right after it was accepted.\<close>

definition demo_down :: conn where
  "demo_down = (start_conn NewHub)\<lparr>cn_up := False\<rparr>"

definition demo_over :: conn where
  "demo_over = demo_down\<lparr>cn_cancelled := True, cn_reader := Gone, cn_writing := False, cn_serving := False\<rparr>"

lemma demo_over_reached: "(conn_turn null_lz4 60 0)\<^sup>*\<^sup>* demo_down demo_over"
proof -
  have "conn_turn null_lz4 60 0 demo_down (demo_down\<lparr>cn_reader := InRead\<rparr>)"
    by (rule conn_turn.reads) (simp add: reader_turn_def demo_down_def start_conn_def)
  moreover have "conn_turn null_lz4 60 0 (demo_down\<lparr>cn_reader := InRead\<rparr>) (demo_down\<lparr>cn_reader := Gone, cn_cancelled := True\<rparr>)"
    by (rule conn_turn.reads) (simp add: reader_turn_def demo_down_def start_conn_def closed_event)
  moreover have "conn_turn null_lz4 60 0 (demo_down\<lparr>cn_reader := Gone, cn_cancelled := True\<rparr>)
      (demo_down\<lparr>cn_reader := Gone, cn_cancelled := True\<rparr>\<lparr>cn_writing := False\<rparr>)"
    by (rule conn_turn.stops) (simp_all add: demo_down_def start_conn_def)
  moreover have "conn_turn null_lz4 60 0 (demo_down\<lparr>cn_reader := Gone, cn_cancelled := True\<rparr>\<lparr>cn_writing := False\<rparr>) demo_over"
    by (rule conn_turn.serves [where now = 0])
      (simp add: serve_turn_def demo_over_def demo_down_def start_conn_def disconnect_def connect_def newClient_def)
  ultimately show ?thesis by (meson r_into_rtranclp rtranclp_trans)
qed


end
