(* ===== verification/Spec2Isabelle.thy ===== *)
theory Spec2Isabelle
  imports Bursts ReadBuffer Punching ServerPool ClientPool Devices Startup Trust ConnLife
begin

text \<open>
  A verification development of easytun, a layer-3 virtual network written in Go.

  \<^bold>\<open>The program.\<close> A client creates a TUN device, reads IP packets from it, seals them with a key it
  shares with the destination (Noise handshake, ChaCha20-Poly1305), and sends them as UDP datagrams
  to the server or, after hole punching, straight to the peer. The server assigns virtual
  addresses and names, relays datagrams by virtual address, answers DNS queries for the names, and
  directs the hole punching. A WebSocket connection between each client and the server carries the
  control messages: handshake, keep-alive, the query for a peer's public key, tunnel commands and
  reports.

  \<^bold>\<open>Theories and sources\<close> (paths under \<^verbatim>\<open>src/internal\<close>).

  \<^item> \<open>Prelude\<close>: integers at their width, \<^verbatim>\<open>[4]byte\<close> keys with their order, the used parts of
    \<^verbatim>\<open>net.IP\<close>, \<^verbatim>\<open>netip\<close> and \<^verbatim>\<open>encoding/binary\<close>, errors
    (\<^verbatim>\<open>errorcode/errorcode.go\<close>), and the locale \<open>preserved\<close> for invariants of step relations.
  \<^item> \<open>GoMap\<close>: maps and the copy-on-write tables (locales \<open>cow_table\<close>, \<open>expiring_table\<close>).
    \<open>GoChan\<close>: buffered channels, \<^verbatim>\<open>select\<close> and loops over a queue (locales \<open>bounded_fifo\<close>,
    \<open>queue_writer\<close>). \<open>Socket\<close>: what loops exchange with sockets.
  \<^item> \<open>Cipher\<close> (\<^verbatim>\<open>protocol/cipher.go\<close>), \<open>Wire\<close> and \<open>Packet\<close> (\<^verbatim>\<open>protocol/packet.go\<close>: the frame
    format, then the operations with their buffers; locale \<open>packet_codec\<close>), \<open>Compress\<close>
    (\<^verbatim>\<open>protocol/compress.go\<close>), \<open>Noise\<close> (\<^verbatim>\<open>protocol/noise.go\<close>).
  \<^item> \<open>NetUtil\<close> (\<^verbatim>\<open>util/ipTransform.go\<close>, \<^verbatim>\<open>util/format.go\<close>), \<open>DnsUtil\<close>
    (\<^verbatim>\<open>util/dns.go\<close>), \<open>Config\<close> (\<^verbatim>\<open>config/config.go\<close>), \<open>Board\<close>
    (\<^verbatim>\<open>ui/performance.go\<close>), \<open>TunDev\<close> (\<^verbatim>\<open>tun/device_linux.go\<close>,
    \<^verbatim>\<open>tun/device_windows.go\<close>, \<^verbatim>\<open>tun/dll_loader.go\<close>; the locale \<open>device_port\<close> is the
    contract of \<^verbatim>\<open>tun/interface.go\<close>), \<open>Tunnel\<close> (\<^verbatim>\<open>stun/*.go\<close> and the
    decisions of \<^verbatim>\<open>transport/server_p2p.go\<close> on the tunnel table; locale \<open>pair_table\<close>).
  \<^item> The server, \<^verbatim>\<open>transport/server*.go\<close>: \<open>Hub\<close> (state, address pool with the locale \<open>lease_pool\<close>,
    routes, names, retention), \<open>HubWs\<close> (control connections), \<open>HubUdp\<close> (datagrams, relay, DNS
    answers, batch writer, punching scheduler), \<open>Leases\<close> (who holds which address and name),
    \<open>Server\<close> (the step relation \<open>server_step\<close>, one rule per loop of \<^verbatim>\<open>Hub.Run\<close>, and its
    invariants), \<open>Gaps\<close> (interleavings in which a guarantee ends).
  \<^item> The client, \<^verbatim>\<open>transport/client*.go\<close>: \<open>Client\<close> (state, connecting, control loops, direct
    tunnels, reconnection), \<open>ClientUdp\<close> (sending and receiving), \<open>ClientSafe\<close> (the step relation
    \<open>client_step\<close>, one rule per loop, and its invariant), \<open>ClientProps\<close> (reconnection, punching,
    tunnels, sessions).
  \<^item> The life of goroutines: \<open>Devices\<close> (\<^verbatim>\<open>Start\<close> of the Linux device with its loops, and the
    replacement of a device), \<open>Teardown\<close> (the loops of one session of the client and how they
    return), \<open>ConnLife\<close> (the goroutines of one connection of the server and how they return, over
    the turns of \<open>HubWs\<close>; of the rest of the server only that it offers packets to the queue of the
    client), \<open>Startup\<close> (\<^verbatim>\<open>cmd/client\<close>, \<^verbatim>\<open>cmd/server\<close>, \<^verbatim>\<open>util/initial.go\<close>, the assets, what the loops of
    client and server do before their first turn, and the batches of the data socket). A
    goroutine is the place where it waits, and the steps of all of them are interleaved.
  \<^item> Memory: \<open>Store\<close> (arrays, slices as references, and a \<^verbatim>\<open>sync.Pool\<close> with the locale
    \<open>buffer_pool\<close>), \<open>PacketPool\<close> (encoding and parsing with pooled buffers), \<open>ServerPool\<close> (the loops of
    the server that share the pool), \<open>ClientPool\<close> (the buffer of DNS queries), \<open>ReadBuffer\<close> (the read
    buffer of the control loop).
  \<^item> \<open>EndToEnd\<close>: client and server composed, the datagrams and frames of one being the input of the
    other; \<open>Bursts\<close> composes two packets for a new peer, \<open>Punching\<close> the opening of a direct tunnel. The
    properties that span client and server stand in this theory. \<open>Trust\<close>: what a sender of datagrams
    without a key can do to a client and to the server.

  \<^bold>\<open>How code becomes definitions.\<close> A struct is a record, a function a HOL function of the same name on
  the state; a name that Isabelle or another package already uses carries a prefix or suffix
  (\<open>peer_IsTimeout\<close>, \<open>tunSend_windows\<close>). A panic is \<open>None\<close>, an error a value of the sum type \<open>result\<close>;
  the client's slice expressions on received data are checked (\<open>slice_range\<close>).
  A loop that waits for input is one turn of it: what it receives is an argument, what it sends a
  result, and \<open>pump\<close> says whether it continues, returns or blocks. Operations under one lock, and
  turns, are atomic; where the code leaves a window between two locks that matters, the handler is
  the composition of its parts (\<open>handshake_assign\<close> and \<open>handshake_publish\<close>, \<open>retain\<close> and
  \<open>removeClient\<close>, \<open>pending_check\<close> and \<open>pending_send\<close>), and other steps are placed in between. A
  batch that blocks in the middle is kept and resumed (\<open>packetSend_resume\<close>). The clock, randomness,
  the pool's buffers and the answers of the operating system are arguments.

  \<^bold>\<open>Libraries\<close> are parameters with their documented laws as hypotheses: the AEAD (\<open>aead_ok\<close>, and
  \<open>aead_tight\<close>: what opens is what sealing the opened text gives), LZ4 blocks (\<open>lz4_ok\<close>, and
  \<open>lz4_empty\<close>: an empty block holds nothing), the Noise handshake (\<open>noise_ok\<close> for agreement, \<open>noise_total\<close> for its not panicking
  on valid states, \<open>handshake_unsealed\<close> for a first message not being a sealed packet), DNS messages (\<open>dns_lib\<close>), UDP writes (\<open>udp_ok\<close>), TOML decoding, duration parsing,
  the terminal library. Concrete instances (\<open>zero_aead\<close>, \<open>null_lz4\<close>, \<open>stage_noise\<close>, \<open>echo_dns\<close>)
  satisfy the laws in the witnesses.

  \<^bold>\<open>What is shown.\<close> Each main property has its number.

  \<^item> Client and server together (C1, C6 to C8, C10): a packet read from one device is written to the
    other, with a session key and on first contact; a client that joins agrees with the server on
    its address, name, key and NAT type; a data packet between clients behind cone NATs leads to a
    direct tunnel that carries the next one; names resolve.
  \<^item> The client: no reachable turn panics, whatever arrives (C2); nothing but what a session peer has
    sealed, and DNS answers, reaches the device, whatever arrives (C5); the tunnel table refines a
    three-state link (C11); a session and the devices end after a bounded number of steps, and
    exactly when a session hangs (C16, C18); both devices are equivalent (C29); accepted settings
    are well formed and the identifier persists (C30).
  \<^item> The server: addresses and names are unique in every reachable state and none leaks (C3, C13);
    the loops over pooled memory refine the loops over values (C9); relaying refines a routing
    table (C12); a connection ends with the client retained, or hangs, and when exactly (C17);
    reconnection within the retention time and expiry after it (C19, C20); when exactly the punching
    code panics (C21); bounded punching attempts (C25).
  \<^item> The protocol: sealed round trips and the accepted control frames exactly (C4, C24), nonces (C26),
    key agreement when both start, and what becomes of the waiting packets (C14), session
    states and queued packets (C15, C27), DNS packets with their checksums (C28).
  \<^item> Limits of the code, stated as what it does: sessions with unknown keys and addresses taken from
    unauthenticated datagrams (C22, C23), a burst that stalls the first contact (C31), memory
    used twice (C32, C33), packets lost to a replaced device (C34), settings that crash a session
    (C35), stale sessions, reconnection and punching at their limits (C36 to C38), leaks and races
    of handshakes (C39, C40).

  \<^bold>\<open>Bounds.\<close> No definition uses fuel: every loop of the model ends by structural recursion or a
  measure (the names not yet tried for \<open>UniqueHostName\<close>, the value for the checksum's carries, the bars
  not yet drawn, the length of a queue that is drained), and the waiting loops are steps. That a
  session, the devices and a connection end is shown by a measure on their steps (\<open>loops_work\<close>,
  \<open>device_work\<close>, \<open>turns_left\<close>). The
  properties about whole
  passages take IP packets of at most 1280 bytes, the MTU both devices set, so that a frame fits
  the server's read buffer of 2048 bytes, which is cut in the model as in the code.

  \<^bold>\<open>Not modelled.\<close> Sockets, WebSocket framing, the TUN drivers, the terminal and the file system
  beyond the answers they give. Slices are values in most theories, with an arbitrary argument where
  the content of a pooled buffer can reach a result; memory shared between goroutines is modelled
  for the server's data path and two buffers of the client, not for the client's send and receive
  buffers in general. The hand-over of waiting packets is one turn in \<open>Noise\<close>; that it can block is in
  \<open>Teardown\<close>. How long a turn takes and the fairness of \<^verbatim>\<open>select\<close> are not modelled. Counters shared by
  atomics are plain fields. Log lines, pauses, the profiling endpoint, \<^verbatim>\<open>util/ping.go\<close> (which nothing calls), and the
  closing of connections outside the end of a session. Messages of errors that the source writes in
  Chinese are translated.
\<close>

section \<open>Data\<close>

text \<open>
  C1. Data arrives: an IP packet read from the device of one client is written to the device of the
  client that has its destination address. With a common session key, the packet goes sealed
  through the server, which sends it to the public address of the destination, and the device
  there gets exactly the packet followed by at most sixteen more bytes (what is left of the
  authentication tag in the buffer). Both clients and the server are ready for the next packet.
\<close>

theorem data_arrives:
  assumes "client_rest envA srv vA tA" and "client_rest envB srv vB tB" and "mirrored tA vA tB vB" and "from_device tA p vB"
    and "hub_rest h" and "registered h vA c aA" and "registered h vB d aB"
    and "lz4_ok (ce_lz4 envA)" and "ce_lz4 envB = ce_lz4 envA"
  shows "\<exists>tA' tB' h' tail. carry envA envB se dl srv aA p tA tB h = Some (tA', tB', h', aB, [ToDevice (p @ tail)]) \<and> length tail \<le> 16 \<and>
    client_rest envA srv vA tA' \<and> client_rest envB srv vB tB' \<and> mirrored tA' vA tB' vB \<and>
    hub_rest h' \<and> registered h' vA c aA \<and> registered h' vB d aB"
proof -
  obtain tA' tB' tail where "carry envA envB se dl srv aA p tA tB h =
      Some (tA', tB', relay_decision False vA vB c d aA h, aB, [ToDevice (p @ tail)])" "length tail \<le> 16"
    "client_rest envA srv vA tA'" "client_rest envB srv vB tB'" "mirrored tA' vA tB' vB"
    using carry_sealed [OF assms] by blast
  then show ?thesis using same_hub_keeps [OF relay_decision_same_hub [of h False vA vB c d aA]] assms(5-7) by blast
qed

theorem data_arrives_witness:
  "\<exists>tA' tB' h' tail. carry (demo_env 100) (demo_env 100) demo_se echo_dns demo_server_addr (demo_addr 1) demo_udp (demo_ready 2 3) (demo_ready 3 2)
     (demo_hub TypeUnknown (demo_addr 1) (demo_addr 7)) = Some (tA', tB', h', demo_addr 7, [ToDevice (demo_udp @ tail)]) \<and> length tail \<le> 16"
  using data_arrives [OF demo_ready_rest demo_ready_rest demo_mirrored demo_from_device demo_hub_registered, of 100 100 demo_se echo_dns TypeUnknown]
    null_lz4_ok by (simp del: demo_hub_sel) blast

section \<open>First contact\<close>

text \<open>
  C6. The first packet between two clients arrives, although they have no key yet. The client asks
  the server for the public key of the destination and keeps the packet with the query; the
  server's answer brings both back; the two handshake messages pass through the server; then the
  packet goes sealed. The other client's device gets it, and both clients hold the same keys for
  both directions.
\<close>

theorem first_packet_arrives:
  assumes "strangers envA envB srv vA vB tA tB" and "from_device tA p vB"
    and "noise_ok (ce_noise envA) keypair" and "keypair (static_key (noiseMgr tA))" and "keypair (static_key (noiseMgr tB))"
    and "length (GetPublicKey (noiseMgr tB)) = 32" and "noisePublicKey (client h d) = GetPublicKey (noiseMgr tB)"
    and "hub_rest h" and "registered h vA c aA" and "registered h vB d aB"
    and "gm_get (hub_wsHandlers h) TypeNoiseHandshake = Some handle_NoiseHandshake"
  shows "\<exists>tA' tB' h' tail. first_contact envA envB se dl srv c aA aB gp p tA tB h = Some (tA', tB', h', [ToDevice (p @ tail)]) \<and>
    length tail \<le> 16 \<and> mirrored tA' vA tB' vB \<and> mirrored tB' vB tA' vA"
proof -
  have rest: "client_rest envA srv vA tA" and lz: "ce_lz4 envB = ce_lz4 envA" "lz4_ok (ce_lz4 envA)"
    using assms(1) by (auto simp: strangers_def)
  obtain tA1 tB1 h1 where k: "key_exchange envA envB se dl srv c aA aB gp p tA tB h = Some (tA1, tB1, h1)"
    "kept tA tA1" "tunChan (noiseMgr tA1) = [p]" "myVip (noiseMgr tA1) = vA" "gm_wf (sessions (noiseMgr tA1))"
    "client_rest envB srv vB tB1" "mirrored tA1 vA tB1 vB" "mirrored tB1 vB tA1 vA" "hub_rest h1" "registered h1 vA c aA" "registered h1 vB d aB"
    using key_exchange_done [OF assms] by metis
  let ?t = "set_FromTun \<lparr>ch_cap = 256, ch_items = [], ch_closed = False\<rparr> tA1"
  note t = rejoin_sealed [OF rest k(2-5) assms(2)]
  have mir: "mirrored ?t vA tB1 vB" "mirrored tB1 vB ?t vA" using k(7,8) by (simp_all add: mirrored_def set_FromTun_def)
  obtain tA' w tB2 tB' tail where r: "send_packet envA False p ?t = Some (tA', [Datagram w srv], PumpContinue)"
    "server_pass se dl aA w h1 = Some (relay_decision False vA vB c d aA h1, [(w, aB)])"
    "packetRecv envB False w srv tB1 = Some (tB2, [], PumpContinue)" "device_write tB2 = Some (tB', [ToDevice (p @ tail)])"
    "length tail \<le> 16" "mirrored tA' vA tB' vB" "mirrored tB' vB tA' vA"
    using sealed_relayed [OF t(1) k(6) mir(1) t(2,3,5,6) k(9-11) lz(2,1), of se dl] mir(2) by blast
  have "packetSend envA False tA1 = Some (Some (count_sent 1 tA', [Datagram w srv], TurnDone))"
    by (rule packetSend_one [OF k(3) t(4) r(1)])
  then have "first_contact envA envB se dl srv c aA aB gp p tA tB h = Some (count_sent 1 tA', tB', relay_decision False vA vB c d aA h1, [ToDevice (p @ tail)])"
    using k(1) r(2-4) by (simp add: first_contact_def send_turn_def relay_def)
  moreover have "mirrored (count_sent 1 tA') vA tB' vB" "mirrored tB' vB (count_sent 1 tA') vA"
    using r(6,7) by (simp_all add: mirrored_def count_sent_def)
  ultimately show ?thesis using r(5) by blast
qed

theorem first_packet_arrives_witness:
  "\<exists>tA' tB' h' tail. first_contact (demo_env 100) (demo_env 100) demo_se echo_dns demo_server_addr 0 (demo_addr 1) (demo_addr 7) gp_empty demo_udp
     (demo_new 2) (demo_new 3) (demo_hub TypeUnknown (demo_addr 1) (demo_addr 7)) = Some (tA', tB', h', [ToDevice (demo_udp @ tail)]) \<and>
     length tail \<le> 16 \<and> mirrored tA' (IP4 10 0 6 2) tB' (IP4 10 0 6 3)"
proof -
  let ?h = "demo_hub TypeUnknown (demo_addr 1) (demo_addr 7)"
  have "noise_ok (ce_noise (demo_env 100)) (\<lambda>_. True)" by (simp add: stage_noise_ok)
  moreover have "length (GetPublicKey (noiseMgr (demo_new 3))) = 32" "noisePublicKey (client ?h 1) = GetPublicKey (noiseMgr (demo_new 3))"
    by (simp_all add: demo_new_def GetPublicKey_def SetVirtualIp_def NewNoiseManager_def demo_peer_def newClient_def)
  moreover have "gm_get (hub_wsHandlers ?h) TypeNoiseHandshake = Some handle_NoiseHandshake"
    by (simp add: demo_hub_def NewHub_def registerDefaultWSHandlers_def RegisterWSHandler_def Let_def type_defs)
  ultimately show ?thesis
    using first_packet_arrives [OF demo_strangers demo_new_device _ TrueI TrueI _ _ demo_hub_registered, where se = demo_se and dl = echo_dns and gp = gp_empty]
    by blast
qed


lemma demo_unsealed: "handshake_unsealed stage_noise"
  by (auto simp: handshake_unsealed_def stage_noise_def zero_aead_def)


section \<open>Direct tunnels\<close>

text \<open>
  C8. Two clients behind cone NATs come to talk without the server. The first packet between them
  goes through the server and makes it introduce them; each gets the public address of the other.
  Although the NATs let nothing in that was not invited, so that the first ping of one side is
  lost, within ten seconds both have heard the other and hold a direct tunnel, and the server has
  it as connected. The next packet is sent to the public address of the peer, not to the server,
  and arrives at its device.
\<close>

theorem tunnel_opens:
  assumes "client_rest envA srv vA tA" and "client_rest envB srv vB tB" and "mirrored tA vA tB vB"
    and "p2pRouter tA = []" and "p2pRouter tB = []" and "readable tA p vB" and "readable tA q vB"
    and "hub_rest h" and "registered h vA c aA" and "registered h vB d aB" and "vA \<noteq> vB" and "cone_client h c ipA" and "cone_client h d ipB"
    and "tm_wf (hub_tm h)" and "Exist vA vB (hub_tm h) = None" and "idle (hub_p2pTaskChan h)"
    and "gm_get (hub_wsHandlers h) TypeP2PEstablished = Some handle_P2PEstablished"
    and "\<forall>x. ce_accept envA x (public_addr ipB aB)" and "\<forall>x. ce_accept envB x (public_addr ipA aA)"
    and "lz4_ok (ce_lz4 envA)" and "ce_lz4 envB = ce_lz4 envA"
    and "n1 \<le> n0 + 10" and "n2 \<le> n0 + 10" and "n3 \<le> n0 + 10"
  shows "\<exists>tA1 tB1 h1 tail tA2 tB2 h2 T tA3 tB3 tail'.
    carry envA envB se dl srv aA p tA tB h = Some (tA1, tB1, h1, aB, [ToDevice (p @ tail)]) \<and>
    open_tunnel envA envB se gp c d (public_addr ipA aA) (public_addr ipB aB) n0 n1 n2 n3 tA1 tB1 h1 = Some (tA2, tB2, h2) \<and>
    link_of (p2pRouter tA2) vB = Direct (public_addr ipB aB) n3 \<and> link_of (p2pRouter tB2) vA = Direct (public_addr ipA aA) n2 \<and>
    Exist vA vB (hub_tm h2) = Some T \<and> GetStatus T = TunnelConnected \<and>
    carry_direct envA envB (public_addr ipA aA) q tA2 tB2 = Some (tA3, tB3, public_addr ipB aB, [ToDevice (q @ tail')]) \<and> length tail' \<le> 16"
proof -
  let ?h1 = "relay_decision False vA vB c d aA h"
  let ?uA = "public_addr ipA aA" and ?uB = "public_addr ipB aB"
  have "from_device tA p vB" using assms(4,6) by (simp add: from_device_def not_direct_def link_of_def)
  from carry_sealed [OF assms(1-3) this assms(8-10,20,21), of se dl] obtain tA1 tB1 tail where
    c: "carry envA envB se dl srv aA p tA tB h = Some (tA1, tB1, ?h1, aB, [ToDevice (p @ tail)])"
    "client_rest envA srv vA tA1" "client_rest envB srv vB tB1" "mirrored tA1 vA tB1 vB" "kept tA tA1" "kept tB tB1"
    by blast
  have k: "p2pRouter tA1 = []" "p2pRouter tB1 = []" "readable tA1 q vB"
    using c(5,6) assms(4,5,7) kept_for_peer(1) [OF c(5)] by (simp_all add: kept_def readable_def)
  note t = task_created [OF assms(12,13,15,16), of aA]
  have h1: "hub_rest ?h1" "registered ?h1 vA c aA" "registered ?h1 vB d aB" "cone_client ?h1 c ipA" "cone_client ?h1 d ipB"
    "gm_get (hub_wsHandlers ?h1) TypeP2PEstablished = Some handle_P2PEstablished"
    using same_hub_keeps [OF relay_decision_same_hub [of h False vA vB c d aA]] assms(8-10,12,13,17)
    by (simp_all add: cone_client_def relay_decision_same)
  have tm: "tm_wf (hub_tm ?h1)"
    "Exist vA vB (hub_tm ?h1) = Some \<lparr>tun_A = vA, tun_B = vB, tun_Status = TunnelInit, tun_RetryTimes = 0, tun_InitCnt = 0\<rparr>"
    using assms(14,15) by (simp_all add: t(1) Exist_AddTunnel)
  have acc: "\<And>x. ce_accept envA x ?uB" "\<And>x. ce_accept envB x ?uA" and init: "tun_Status \<lparr>tun_A = vA, tun_B = vB, tun_Status = TunnelInit, tun_RetryTimes = 0, tun_InitCnt = 0\<rparr> = TunnelInit"
    using assms(18,19) by simp_all
  obtain tA2 tB2 h2 T where o: "open_tunnel envA envB se gp c d ?uA ?uB n0 n1 n2 n3 tA1 tB1 ?h1 = Some (tA2, tB2, h2)"
    "client_rest envA srv vA tA2" "client_rest envB srv vB tB2" "same_data tA1 tA2" "same_data tB1 tB2"
    "link_of (p2pRouter tA2) vB = Direct ?uB n3" "link_of (p2pRouter tB2) vA = Direct ?uA n2"
    "Exist vA vB (hub_tm h2) = Some T" "tun_Status T = TunnelConnected"
    by (rule tunnel_opened [OF c(2,3) k(1,2) h1(1-3) assms(11) h1(4,5) t(2) assms(16) tm(1,2) init h1(6) refl refl acc assms(22-24), of se gp])
  have "mirrored tA2 vA tB2 vB" "readable tA2 q vB"
    using c(4) k(3) same_data_keeps(1,2) [OF o(4)] same_data_keeps(3) [OF o(5)] by simp_all
  from carried_direct [OF o(2,3) this o(6) _ assms(20,21), of ?uA] assms(18) c(1) o show ?thesis
    by (simp add: GetStatus_def)
qed

lemma demo_cone:
  "cone_client (demo_hub TypeCone (demo_addr 1) (demo_addr 7)) 0 (IP4 192 0 2 1)"
  "cone_client (demo_hub TypeCone (demo_addr 1) (demo_addr 7)) 1 (IP4 192 0 2 7)"
  by (simp_all add: cone_client_def demo_peer_def newClient_def demo_addr_def)

theorem tunnel_opens_witness:
  "\<exists>tA1 tB1 h1 tail tA2 tB2 h2 tA3 tB3 tail'.
    carry (demo_env 100) (demo_env 100) demo_se echo_dns demo_server_addr (demo_addr 1) demo_udp (demo_ready 2 3) (demo_ready 3 2)
      (demo_hub TypeCone (demo_addr 1) (demo_addr 7)) = Some (tA1, tB1, h1, demo_addr 7, [ToDevice (demo_udp @ tail)]) \<and>
    open_tunnel (demo_env 100) (demo_env 100) demo_se gp_empty 0 1 \<lparr>ua_IP = [192, 0, 2, 1], ua_Port = 4000\<rparr> \<lparr>ua_IP = [192, 0, 2, 7], ua_Port = 4000\<rparr>
      100 103 104 106 tA1 tB1 h1 = Some (tA2, tB2, h2) \<and>
    carry_direct (demo_env 100) (demo_env 100) \<lparr>ua_IP = [192, 0, 2, 1], ua_Port = 4000\<rparr> demo_udp tA2 tB2 =
      Some (tA3, tB3, \<lparr>ua_IP = [192, 0, 2, 7], ua_Port = 4000\<rparr>, [ToDevice (demo_udp @ tail')])"
proof -
  let ?h = "demo_hub TypeCone (demo_addr 1) (demo_addr 7)"
  have router: "p2pRouter (demo_ready 2 3) = []" "p2pRouter (demo_ready 3 2) = []" by (simp_all add: demo_ready_def NewTransport_def)
  have p: "readable (demo_ready 2 3) demo_udp (IP4 10 0 6 3)" using demo_from_device [of 3] by (simp add: from_device_def)
  have ne: "IP4 10 0 6 2 \<noteq> IP4 10 0 6 3" by simp
  have tm: "tm_wf (hub_tm ?h)" "Exist (IP4 10 0 6 2) (IP4 10 0 6 3) (hub_tm ?h) = None" "idle (hub_p2pTaskChan ?h)"
    by (simp_all add: idle_def) (simp add: Exist_def NewTunnelManager_def)
  have hd: "gm_get (hub_wsHandlers ?h) TypeP2PEstablished = Some handle_P2PEstablished"
    by (simp add: demo_hub_def NewHub_def registerDefaultWSHandlers_def RegisterWSHandler_def Let_def type_defs)
  have addr: "public_addr (IP4 192 0 2 1) (demo_addr 1) = \<lparr>ua_IP = [192, 0, 2, 1], ua_Port = 4000\<rparr>"
    "public_addr (IP4 192 0 2 7) (demo_addr 7) = \<lparr>ua_IP = [192, 0, 2, 7], ua_Port = 4000\<rparr>" by (simp_all add: demo_addr_def)
  have acc: "\<forall>x. ce_accept (demo_env 100) x (public_addr (IP4 192 0 2 7) (demo_addr 7))" "\<forall>x. ce_accept (demo_env 100) x (public_addr (IP4 192 0 2 1) (demo_addr 1))"
    by (simp_all add: demo_env_def demo_addr_def)
  have env: "lz4_ok (ce_lz4 (demo_env 100))" "ce_lz4 (demo_env 100) = ce_lz4 (demo_env 100)" "(103 :: int) \<le> 100 + 10" "(104 :: int) \<le> 100 + 10" "(106 :: int) \<le> 100 + 10"
    by (simp_all add: null_lz4_ok)
  from tunnel_opens [OF demo_ready_rest demo_ready_rest demo_mirrored router p p demo_hub_registered ne demo_cone tm hd acc env,
      where se = demo_se and dl = echo_dns and gp = gp_empty, unfolded addr]
  show ?thesis by blast
qed

section \<open>Names\<close>



section \<open>Joining the network\<close>

text \<open>
  C7. Joining the network: a client whose configuration is valid connects, sends its handshake
  message, and gets from the server the address and the name that were kept for its identifier,
  or the next free address and a unique name. Afterwards both agree: the client's address and the
  name of its device are those the server has for it, the address is routed to it, the name
  resolves to it, and the server knows its public key and its NAT type.
\<close>

theorem client_joins:
  assumes "settings_ok (ce_cfg env)" and "length (GetPublicKey (noiseMgr t)) = 32" and "localIp t = []"
    and "device_ok a" and "at_dial a" and "at_listen a" and "at_write a"
    and "hub_inv live h" and "c \<in> live" and "idle (controlChan (client h c))"
    and "granted h (ClientID (ce_cfg env)) (DeviceName (ce_cfg env)) b n" and "int (length n) \<le> MaxPayloadSize"
  shows "\<exists>h' r t'. control_pass se c (handshake_message env (t\<lparr>ct_natType := probed env a t\<rparr>)) h = Some (h', r) \<and>
    ListenAndServe env (a\<lparr>at_reply := Inr r\<rparr>) rc t = Some (0, t', Running) \<and>
    localIp t' = virtualIp (client h' c) \<and> localIp t' = host b \<and> hostname (client h' c) = n \<and> route h' (IpToKey (localIp t')) = Some c \<and>
    ct_device t' = Some (tun_state (hostname (client h' c)) (str ''.et'') (localIp t')) \<and>
    gm_get (hub_dnsMap h') (hostname (client h' c)) = Some (localIp t') \<and>
    noisePublicKey (client h' c) = GetPublicKey (noiseMgr t) \<and> natType (client h' c) = probed env a t"
proof -
  let ?pl = "[probed env a t] @ GetPublicKey (noiseMgr t) @ ClientID (ce_cfg env) @ DeviceName (ce_cfg env)"
  have cfg: "length (ClientID (ce_cfg env)) = 16" "length (DeviceName (ce_cfg env)) \<le> 10"
    using assms(1) by (auto simp: settings_ok_def)
  have pl: "49 \<le> length ?pl" "int (length ?pl) \<le> MaxPayloadSize" "handshake_id ?pl = ClientID (ce_cfg env)" "drop 49 ?pl = DeviceName (ce_cfg env)"
    "take 32 (drop 1 ?pl) = GetPublicKey (noiseMgr t)"
    using cfg assms(2) by (simp_all add: MaxPayloadSize_eq)
  have msg: "handshake_message env (t\<lparr>ct_natType := probed env a t\<rparr>) = plain_frame (NewGamePacket ip4_zero ip4_zero TypeHandshake ?pl) 0"
    using encoded_frame [OF pl(2)] by (simp add: handshake_message_def)
  let ?g = "NewGamePacket ip4_zero (IP4 10 0 6 b) TypeHandshake n"
  obtain h' where h': "control_pass se c (plain_frame (NewGamePacket ip4_zero ip4_zero TypeHandshake ?pl) 0) h = Some (h', plain_frame ?g 0)"
    "client h' c = handshaken ?pl (host b) n (client h c)" "route h' (IP4 10 0 6 b) = Some c" "gm_get (hub_dnsMap h') n = Some (host b)"
    using handshake_served [OF assms(8-10) pl(1,2) _ assms(12), of b se] assms(11) pl(3,4) by auto
  have fr: "plain_frame ?g 0 = frame TypeHandshake (IP4 10 0 6 b) (fst (payloadLengthField (int (length n)))) ip4_zero (be64 0) n"
    by (simp add: plain_frame_def) (simp add: type_defs FlagCompress_def)
  have "payloadLengthField (int (length n)) = (fst (payloadLengthField (int (length n))), True)"
    using assms(12) by (simp add: prod_eq_iff payloadLengthField_ok)
  then obtain t' where t': "ListenAndServe env (a\<lparr>at_reply := Inr (plain_frame ?g 0)\<rparr>) rc t = Some (0, t', Running)" "localIp t' = host b"
    "ct_device t' = Some (tun_state n (str ''.et'') (host b))"
    using ListenAndServe_joins [of "a\<lparr>at_reply := Inr (plain_frame ?g 0)\<rparr>" "IP4 10 0 6 b" _ ip4_zero "be64 0" n t env rc] assms(3-7) fr
    by (auto simp: device_ok_def)
  show ?thesis
    unfolding msg using h' t' pl(5) by (intro exI [of _ h'] exI [of _ "plain_frame ?g 0"] exI [of _ t']) simp
qed

theorem client_joins_witness:
  "\<exists>h' r t'. control_pass demo_se 0 (handshake_message (demo_env 100) ((demo_new 2)\<lparr>localIp := [], ct_natType := TypeUnknown\<rparr>)) (snd (connect NewHub)) = Some (h', r) \<and>
     ListenAndServe (demo_env 100) (demo_attempt\<lparr>at_reply := Inr r\<rparr>) 0 ((demo_new 2)\<lparr>localIp := []\<rparr>) = Some (0, t', Running) \<and>
     localIp t' = host 2 \<and> route h' (IP4 10 0 6 2) = Some 0 \<and> gm_get (hub_dnsMap h') (str ''pc'') = Some (host 2)"
proof -
  let ?t = "(demo_new 2)\<lparr>localIp := []\<rparr>" and ?h = "snd (connect NewHub)"
  have cfg: "settings_ok (ce_cfg (demo_env 100))" by (simp add: settings_ok_def demo_cfg_def)
  have new: "length (GetPublicKey (noiseMgr ?t)) = 32" "localIp ?t = []"
    by (simp_all add: demo_new_def GetPublicKey_def SetVirtualIp_def NewNoiseManager_def)
  have os: "device_ok demo_attempt" "at_dial demo_attempt" "at_listen demo_attempt" "at_write demo_attempt"
    by (simp_all add: device_ok_def demo_attempt_def)
  have hub: "hub_inv {0} ?h" "0 \<in> {0 :: cref}" "idle (controlChan (client ?h 0))"
    using connect_inv(1) [OF NewHub_inv] by (simp_all add: connect_def newClient_def idle_def NewHub_sel)
  have "granted ?h (ClientID (ce_cfg (demo_env 100))) (DeviceName (ce_cfg (demo_env 100))) 2 (str ''pc'')"
    using free_254_top by (auto simp: granted_def connect_def NewHub_sel UniqueHostName_def demo_cfg_def)
  moreover have "int (length (str ''pc'')) \<le> MaxPayloadSize" by (simp add: MaxPayloadSize_eq)
  ultimately obtain h' r t' where
    "control_pass demo_se 0 (handshake_message (demo_env 100) (?t\<lparr>ct_natType := probed (demo_env 100) demo_attempt ?t\<rparr>)) ?h = Some (h', r)"
    "ListenAndServe (demo_env 100) (demo_attempt\<lparr>at_reply := Inr r\<rparr>) 0 ?t = Some (0, t', Running)" "localIp t' = host 2"
    "hostname (client h' 0) = str ''pc''" "route h' (IpToKey (localIp t')) = Some 0" "gm_get (hub_dnsMap h') (hostname (client h' 0)) = Some (localIp t')"
    using client_joins [OF cfg new os hub, of 2 "str ''pc''" demo_se 0] by blast
  then show ?thesis by (intro exI [of _ h'] exI [of _ r] exI [of _ t']) (simp add: probed_def)
qed

end
